(* ===== verification/LrPrelude.thy ===== *)
theory LrPrelude
  imports Main "HOL-Library.Word" "HOL-Library.Signed_Division" "HOL-Library.AList"
begin

text \<open>
  Shared vocabulary of the LightRPC development: bytes and C++ strings, the memory layout of a
  32-bit integer on the little-endian host together with \<open>htonl\<close>/\<open>ntohl\<close>, vectors that are
  written in place or resized, C's truncating integer division, and the collections of facts
  the component theories extend.

  A C++ \<open>std::string\<close> is a sequence of bytes and is modelled as \<open>bytes\<close>; string literals of
  the source are written \<open>str ''...''\<close>.
\<close>

unbundle bit_operations_syntax

section \<open>Fact collections\<close>

named_theorems model_defs \<open>definitions a component proof usually unfolds\<close>
named_theorems inv_intros \<open>preservation of a component's invariant by one operation\<close>
named_theorems view_simps \<open>effect of an operation on the abstract view of its state\<close>

section \<open>Bytes and strings\<close>

type_synonym byte = "8 word"
type_synonym bytes = "byte list"

definition str :: "string \<Rightarrow> bytes" where
  "str s = map of_char s"

lemma unat_of_nat_byte: "unat (word_of_nat n :: byte) = n mod 256"
  by (simp add: unat_of_nat)

lemma unat_byte_less: "unat (x :: byte) < 256"
  using unsigned_less [of x] by simp

lemma of_char_byte_inj: "(of_char c :: byte) = of_char d \<longleftrightarrow> c = d"
proof
  assume eq: "(of_char c :: byte) = of_char d"
  have "(of_char e :: nat) < 256" for e
    by (cases e) (simp add: of_char_def horner_sum_simps of_bool_def)
  then have "unat (of_char e :: byte) = (of_char e :: nat)" for e
    by (metis of_nat_of_char mod_less unat_of_nat_byte)
  then have "(of_char c :: nat) = of_char d" using eq by metis
  then show "c = d" by simp
qed simp

lemma str_eq_iff [simp]: "str s = str t \<longleftrightarrow> s = t"
  unfolding str_def
  by (subst inj_map_eq_map) (auto intro: injI simp: of_char_byte_inj)

lemma str_Nil [simp]: "str [] = []"
  by (simp add: str_def)

lemma str_append [simp]: "str (s @ t) = str s @ str t"
  by (simp add: str_def)

lemma length_str [simp]: "length (str s) = length s"
  by (simp add: str_def)

lemma str_eq_Nil_iff [simp]: "str s = [] \<longleftrightarrow> s = []"
  by (simp add: str_def)

section \<open>Decimal numbers\<close>

text \<open>\<open>std::to_string(i)\<close>, \<open>%d\<close>\<close>

fun decimal :: "nat \<Rightarrow> bytes" where
  "decimal n = (if n < 10 then [str ''0123456789'' ! n] else decimal (n div 10) @ [str ''0123456789'' ! (n mod 10)])"

declare decimal.simps [simp del]

definition to_string :: "int \<Rightarrow> bytes" where
  "to_string i = (if i < 0 then str ''-'' @ decimal (nat (- i)) else decimal (nat i))"

lemma str_0_notin: "\<forall>c \<in> set s. c \<noteq> CHR 0x00 \<Longrightarrow> 0 \<notin> set (str s)"
proof -
  assume "\<forall>c \<in> set s. c \<noteq> CHR 0x00"
  moreover have "(of_char c :: byte) = 0 \<longleftrightarrow> c = CHR 0x00" for c
    using of_char_byte_inj [of c "CHR 0x00"] by simp
  ultimately show ?thesis by (force simp: str_def)
qed

lemma decimal_nonzero: "0 \<notin> set (decimal n)"
proof (induction n rule: decimal.induct)
  case (1 n)
  have d: "str ''0123456789'' ! k \<noteq> 0" if "k < 10" for k
  proof -
    have "str ''0123456789'' ! k \<in> set (str ''0123456789'')" using that by (intro nth_mem) simp
    moreover have "0 \<notin> set (str ''0123456789'')" by (rule str_0_notin) simp
    ultimately show ?thesis by metis
  qed
  show ?case using 1 d by (subst decimal.simps) (auto simp: d [symmetric])
qed

lemma to_string_nonzero: "0 \<notin> set (to_string i)"
  using decimal_nonzero str_0_notin [of "''-''"] by (simp add: to_string_def)

section \<open>32-bit integers in memory\<close>

text \<open>
  \<open>store_u32\<close> and \<open>load_u32\<close> are \<open>memcpy\<close> between a \<open>uint32_t\<close> and its four bytes on
  the little-endian hosts the code runs on (epoll and eventfd: Linux, x86-64 or AArch64).
  \<open>htonl\<close> and \<open>ntohl\<close> are then the byte swap.
\<close>

definition store_u32 :: "32 word \<Rightarrow> bytes" where
  "store_u32 w = [word_of_nat (unat w), word_of_nat (unat w div 256),
     word_of_nat (unat w div 65536), word_of_nat (unat w div 16777216)]"

definition load_u32 :: "bytes \<Rightarrow> 32 word" where
  "load_u32 bs = word_of_nat (unat (bs ! 0) + 256 * unat (bs ! 1) +
     65536 * unat (bs ! 2) + 16777216 * unat (bs ! 3))"

definition htonl :: "32 word \<Rightarrow> 32 word" where
  "htonl w = load_u32 (rev (store_u32 w))"

abbreviation ntohl :: "32 word \<Rightarrow> 32 word" where
  "ntohl \<equiv> htonl"

lemma length_store_u32 [simp]: "length (store_u32 w) = 4"
  by (simp add: store_u32_def)

lemma unat_of_nat_u32: "unat (word_of_nat n :: 32 word) = n mod 4294967296"
  by (simp add: unat_of_nat)

lemma unat_u32_less: "unat (w :: 32 word) < 4294967296"
  using unsigned_less [of w, where ?'a = nat] by simp

lemma base256_digits:
  "n mod 256 + 256 * (n div 256 mod 256) + 65536 * (n div 65536 mod 256) +
    16777216 * (n div 16777216) = (n::nat)"
proof -
  have d: "n div 65536 = n div 256 div 256" "n div 16777216 = n div 256 div 256 div 256"
    by (simp_all add: div_mult2_eq [symmetric])
  show ?thesis
    unfolding d using div_mult_mod_eq [of n 256] div_mult_mod_eq [of "n div 256" 256]
      div_mult_mod_eq [of "n div 256 div 256" 256] by linarith
qed

lemma load_store_u32 [simp]: "load_u32 (store_u32 w) = w"
proof -
  have lt: "unat w div 16777216 < 256" using unat_u32_less [of w] by simp
  have "unat (load_u32 (store_u32 w)) = unat w mod 4294967296"
    unfolding load_u32_def store_u32_def unat_of_nat_u32
    by (simp only: nth_Cons_0 nth_Cons_numeral nth_Cons_Suc One_nat_def numeral_2_eq_2
        numeral_3_eq_3 unat_of_nat_byte mod_less [OF lt] base256_digits)
  then show ?thesis using unat_u32_less [of w] by (simp add: word_unat_eq_iff)
qed

lemma digits_base256:
  assumes "a < 256" "b < 256" "c < 256" "d < (256::nat)"
  defines "n \<equiv> a + 256 * b + 65536 * c + 16777216 * d"
  shows "n < 4294967296" "n mod 256 = a" "n div 256 mod 256 = b" "n div 65536 mod 256 = c"
    "n div 16777216 mod 256 = d"
proof -
  have n1: "n = a + 256 * (b + 256 * (c + 256 * d))" by (simp add: n_def)
  have d1: "n div 256 = b + 256 * (c + 256 * d)" using assms(1) by (simp add: n1)
  have d2: "n div 65536 = c + 256 * d"
    using assms(2) div_mult2_eq [of n 256 256] by (simp add: d1)
  have d3: "n div 16777216 = d"
    using assms(3) div_mult2_eq [of n 65536 256] by (simp add: d2)
  have m: "(x + 256 * q) mod 256 = x" if "x < 256" for x q :: nat
    using that by simp
  show "n < 4294967296" using assms by (simp add: n_def)
  show "n mod 256 = a" unfolding n1 by (rule m) (rule assms)
  show "n div 256 mod 256 = b" unfolding d1 by (rule m) (rule assms)
  show "n div 65536 mod 256 = c" unfolding d2 by (rule m) (rule assms)
  show "n div 16777216 mod 256 = d" using assms(4) by (simp add: d3)
qed

lemma store_load_u32:
  assumes "length bs = 4"
  shows "store_u32 (load_u32 bs) = bs"
proof -
  obtain a b c d where bs: "bs = [a, b, c, d]" using assms
    by (auto simp: length_Suc_conv numeral_eq_Suc)
  note e = digits_base256 [OF unat_byte_less [of a] unat_byte_less [of b] unat_byte_less [of c]
      unat_byte_less [of d]]
  have u: "unat (load_u32 bs) = unat a + 256 * unat b + 65536 * unat c + 16777216 * unat d"
    unfolding load_u32_def unat_of_nat_u32 using e(1)
    by (simp add: bs numeral_2_eq_2 numeral_3_eq_3)
  have w: "(word_of_nat n :: byte) = x \<longleftrightarrow> n mod 256 = unat x" for n x
    by (metis unat_of_nat_byte word_unat_eq_iff)
  show ?thesis unfolding store_u32_def u by (simp only: bs w list.inject e(2-5) simp_thms)
qed

text \<open>Network order is the reversed host order, and the swap is its own inverse.\<close>

lemma store_htonl: "store_u32 (htonl w) = rev (store_u32 w)"
  unfolding htonl_def by (rule store_load_u32) simp

lemma ntohl_htonl [simp]: "ntohl (htonl w) = w"
  by (subst htonl_def) (simp add: store_htonl)

section \<open>Vectors\<close>

text \<open>
  \<open>vec_resize n xs\<close> is \<open>std::vector::resize\<close> on bytes (new elements are value-initialised);
  \<open>vec_write p xs v\<close> is \<open>std::copy\<close> of \<open>xs\<close> into \<open>v\<close> from position \<open>p\<close>.
\<close>

definition vec_resize :: "nat \<Rightarrow> bytes \<Rightarrow> bytes" where
  "vec_resize n xs = take n xs @ replicate (n - length xs) 0"

definition vec_write :: "nat \<Rightarrow> 'a list \<Rightarrow> 'a list \<Rightarrow> 'a list" where
  "vec_write p xs v = take p v @ xs @ drop (p + length xs) v"

lemma length_vec_resize [simp]: "length (vec_resize n xs) = n"
  by (simp add: vec_resize_def)

lemma take_vec_resize [simp]: "k \<le> n \<Longrightarrow> k \<le> length xs \<Longrightarrow> take k (vec_resize n xs) = take k xs"
  by (simp add: vec_resize_def min_def)

lemma length_vec_write [simp]:
  "p + length xs \<le> length v \<Longrightarrow> length (vec_write p xs v) = length v"
  by (simp add: vec_write_def)

lemma take_vec_write [simp]:
  "p + length xs \<le> length v \<Longrightarrow> take (p + length xs) (vec_write p xs v) = take p v @ xs"
  by (simp add: vec_write_def)

section \<open>C integer division\<close>

text \<open>C++ rounds integer division towards zero; \<open>sdiv\<close> and \<open>smod\<close> do the same on \<open>int\<close>.\<close>

lemma sdiv_nonneg: "0 \<le> a \<Longrightarrow> 0 \<le> b \<Longrightarrow> (a :: int) sdiv b = a div b"
  by (cases "a = 0"; cases "b = 0") (simp_all add: signed_divide_int_def)

lemma smod_nonneg: "0 \<le> a \<Longrightarrow> 0 \<le> b \<Longrightarrow> (a :: int) smod b = a mod b"
  by (cases "a = 0") (auto simp: signed_modulo_int_def)

lemma nth_beyond: "length xs \<le> k \<Longrightarrow> xs ! k = [] ! (k - length xs)"
proof (induction xs arbitrary: k)
  case (Cons x xs)
  then show ?case by (cases k) simp_all
qed simp

lemma nth_update_if: "xs[j := v] ! k = (if j = k \<and> k < length xs then v else xs ! k)"
  using nth_beyond [of xs k] nth_beyond [of "xs[j := v]" k]
  by (cases "k < length xs") (auto simp: nth_list_update)

text \<open>The maps of the code are association lists: a new key goes to the end.\<close>

lemma update_absent: "k \<notin> fst ` set al \<Longrightarrow> AList.update k v al = al @ [(k, v)]"
  by (induction al) auto

end
