(* ===== verification/BufferModel.thy ===== *)
theory BufferModel
  imports LrPrelude
begin

text \<open>
  \<open>code/base/buffer\<close>: the byte buffer every connection reads into and writes from.

  The record has the three fields of the class. Positions and lengths are \<open>size_t\<close> and are
  modelled as \<open>nat\<close>: they are bounded by the size of one vector, far below \<open>2 ^ 64\<close>. The
  default build is Release with \<open>-DNDEBUG\<close>, so the \<open>assert\<close>s of the source are not executed;
  an operation that then reads outside the vector returns \<open>None\<close>, and the lemmas show that
  the asserted conditions hold where the library calls the operation. The result of a system
  call is an argument.

  The abstract view of a buffer is its readable content \<open>Buffer_PeekStringView\<close>; the locale
  \<open>byte_stream\<close> states the first-in first-out contract its clients (framing, connections) rely
  on, and is interpreted on the buffer at the end.
\<close>

section \<open>State\<close>

record buffer =
  vec :: bytes
  readPos :: nat
  writePos :: nat

definition Buffer_INITIAL_SIZE :: nat where
  "Buffer_INITIAL_SIZE = 4096"

definition Buffer_new :: "nat \<Rightarrow> buffer" where
  "Buffer_new initialSize = \<lparr>vec = replicate initialSize 0, readPos = 0, writePos = 0\<rparr>"

text \<open>
  Moving leaves the source with an empty vector and both positions 0. The assignment
  operator's self-assignment test compares addresses: \<open>same\<close> says whether they are equal. Both
  return the new value of \<open>*this\<close> and of \<open>other\<close>.
\<close>

definition Buffer_move :: "buffer \<Rightarrow> buffer \<times> buffer" where
  "Buffer_move other = (other, \<lparr>vec = [], readPos = 0, writePos = 0\<rparr>)"

definition Buffer_move_assign :: "bool \<Rightarrow> buffer \<Rightarrow> buffer \<Rightarrow> buffer \<times> buffer" where
  "Buffer_move_assign same this other = (if same then (this, this) else Buffer_move other)"

section \<open>Operations\<close>

definition Buffer_ReadableBytes :: "buffer \<Rightarrow> nat" where
  "Buffer_ReadableBytes b = writePos b - readPos b"

definition Buffer_WritableBytes :: "buffer \<Rightarrow> nat" where
  "Buffer_WritableBytes b = length (vec b) - writePos b"

definition Buffer_PrependableBytes :: "buffer \<Rightarrow> nat" where
  "Buffer_PrependableBytes b = readPos b"

text \<open>\<open>Peek\<close> is a pointer to the first readable byte: the memory from there on.\<close>

definition Buffer_Peek :: "buffer \<Rightarrow> bytes" where
  "Buffer_Peek b = drop (readPos b) (vec b)"

definition Buffer_PeekStringView :: "buffer \<Rightarrow> bytes" where
  "Buffer_PeekStringView b = take (Buffer_ReadableBytes b) (Buffer_Peek b)"

definition Buffer_RetrieveAll :: "buffer \<Rightarrow> buffer" where
  "Buffer_RetrieveAll b = b\<lparr>readPos := 0, writePos := 0\<rparr>"

definition Buffer_Retrieve :: "nat \<Rightarrow> buffer \<Rightarrow> buffer" where
  "Buffer_Retrieve len b =
     (if len < Buffer_ReadableBytes b then b\<lparr>readPos := readPos b + len\<rparr>
      else Buffer_RetrieveAll b)"

definition Buffer_HasWritten :: "nat \<Rightarrow> buffer \<Rightarrow> buffer" where
  "Buffer_HasWritten len b = b\<lparr>writePos := writePos b + len\<rparr>"

definition Buffer_makeSpace :: "nat \<Rightarrow> buffer \<Rightarrow> buffer" where
  "Buffer_makeSpace needed b =
     (if Buffer_WritableBytes b + Buffer_PrependableBytes b < needed then
        b\<lparr>vec := vec_resize (max (writePos b + needed) (needed + Buffer_INITIAL_SIZE)) (vec b)\<rparr>
      else
        let readable = Buffer_ReadableBytes b in
        b\<lparr>vec := vec_write 0 (Buffer_PeekStringView b) (vec b),
          readPos := 0, writePos := readable\<rparr>)"

definition Buffer_EnsureWritable :: "nat \<Rightarrow> buffer \<Rightarrow> buffer" where
  "Buffer_EnsureWritable len b =
     (if Buffer_WritableBytes b < len then Buffer_makeSpace len b else b)"

text \<open>The three \<open>Append\<close> overloads copy the same bytes.\<close>

definition Buffer_Append :: "bytes \<Rightarrow> buffer \<Rightarrow> buffer" where
  "Buffer_Append data b =
     (let b1 = Buffer_EnsureWritable (length data) b;
          b2 = b1\<lparr>vec := vec_write (writePos b1) data (vec b1)\<rparr>
      in Buffer_HasWritten (length data) b2)"

definition Buffer_ReadString :: "nat \<Rightarrow> buffer \<Rightarrow> (bytes \<times> buffer) option" where
  "Buffer_ReadString n b =
     (if n \<le> length (Buffer_Peek b) then Some (take n (Buffer_Peek b), Buffer_Retrieve n b)
      else None)"

definition Buffer_RetrieveAllToStr :: "buffer \<Rightarrow> bytes \<times> buffer" where
  "Buffer_RetrieveAllToStr b = (Buffer_PeekStringView b, Buffer_RetrieveAll b)"

definition Buffer_PeekInt32 :: "buffer \<Rightarrow> 32 word option" where
  "Buffer_PeekInt32 b =
     (if 4 \<le> length (Buffer_Peek b) then Some (ntohl (load_u32 (take 4 (Buffer_Peek b)))) else None)"

definition Buffer_ReadInt32 :: "buffer \<Rightarrow> (32 word \<times> buffer) option" where
  "Buffer_ReadInt32 b =
     (case Buffer_PeekInt32 b of None \<Rightarrow> None | Some r \<Rightarrow> Some (r, Buffer_Retrieve 4 b))"

text \<open>
  System calls: \<open>Inl e\<close> is the return value -1 with \<open>errno = e\<close>. \<open>readv\<close> fills at most
  \<open>writable\<close> bytes of the vector and then at most 65536 bytes of the stack array.
\<close>

type_synonym errno = int

definition Buffer_extrabuf_size :: nat where
  "Buffer_extrabuf_size = 65536"

definition Buffer_ReadFd :: "errno + bytes \<Rightarrow> buffer \<Rightarrow> buffer \<times> (errno + nat)" where
  "Buffer_ReadFd res b =
     (case res of
        Inl e \<Rightarrow> (b, Inl e)
      | Inr data \<Rightarrow>
          let writable = Buffer_WritableBytes b;
              n = length data;
              b1 = b\<lparr>vec := vec_write (writePos b) (take writable data) (vec b)\<rparr>
          in if n \<le> writable then (b1\<lparr>writePos := writePos b1 + n\<rparr>, Inr n)
             else (Buffer_Append (drop writable data) (b1\<lparr>writePos := length (vec b1)\<rparr>), Inr n))"

text \<open>\<open>WriteFd\<close> offers the readable bytes and leaves the buffer alone; the kernel takes a prefix.\<close>

definition Buffer_WriteFd :: "errno + nat \<Rightarrow> buffer \<Rightarrow> (errno + nat) \<times> bytes" where
  "Buffer_WriteFd res b =
     (case res of
        Inl e \<Rightarrow> (Inl e, [])
      | Inr k \<Rightarrow> let n = min k (Buffer_ReadableBytes b) in (Inr n, take n (Buffer_PeekStringView b)))"

section \<open>Invariant\<close>

definition wf_buffer :: "buffer \<Rightarrow> bool" where
  "wf_buffer b \<longleftrightarrow> readPos b \<le> writePos b \<and> writePos b \<le> length (vec b)"

lemmas buffer_defs [model_defs] = wf_buffer_def Buffer_ReadableBytes_def Buffer_WritableBytes_def
  Buffer_PrependableBytes_def Buffer_Peek_def Buffer_PeekStringView_def Buffer_RetrieveAll_def
  Buffer_Retrieve_def Buffer_HasWritten_def Buffer_INITIAL_SIZE_def

lemma wf_Buffer_new [simp, inv_intros]: "wf_buffer (Buffer_new n)"
  by (simp add: wf_buffer_def Buffer_new_def)

lemma view_Buffer_new [simp, view_simps]: "Buffer_PeekStringView (Buffer_new n) = []"
  by (simp add: Buffer_new_def buffer_defs)

lemma length_view [simp]: "wf_buffer b \<Longrightarrow> length (Buffer_PeekStringView b) = Buffer_ReadableBytes b"
  by (auto simp: buffer_defs min_def)

lemma wf_Retrieve [simp, inv_intros]: "wf_buffer b \<Longrightarrow> wf_buffer (Buffer_Retrieve n b)"
  by (auto simp: buffer_defs)

lemma wf_RetrieveAll [simp, inv_intros]: "wf_buffer (Buffer_RetrieveAll b)"
  by (simp add: buffer_defs)

lemma view_RetrieveAll [simp, view_simps]: "Buffer_PeekStringView (Buffer_RetrieveAll b) = []"
  by (simp add: buffer_defs)

lemma view_Retrieve [view_simps]:
  "wf_buffer b \<Longrightarrow> Buffer_PeekStringView (Buffer_Retrieve n b) = drop n (Buffer_PeekStringView b)"
  by (auto simp: buffer_defs drop_take add.commute)

lemma readable_Retrieve [simp]:
  "Buffer_ReadableBytes (Buffer_Retrieve n b) = Buffer_ReadableBytes b - n"
  by (auto simp: buffer_defs)

section \<open>Making space\<close>

lemma makeSpace_view:
  assumes "wf_buffer b"
  shows "wf_buffer (Buffer_makeSpace n b)"
    and "Buffer_PeekStringView (Buffer_makeSpace n b) = Buffer_PeekStringView b"
    and "n \<le> Buffer_WritableBytes (Buffer_makeSpace n b)"
proof -
  show "wf_buffer (Buffer_makeSpace n b)"
    using assms by (auto simp: Buffer_makeSpace_def buffer_defs vec_write_def Let_def)
  show "Buffer_PeekStringView (Buffer_makeSpace n b) = Buffer_PeekStringView b"
    using assms by (auto simp: Buffer_makeSpace_def buffer_defs vec_write_def vec_resize_def
        Let_def drop_take)
  show "n \<le> Buffer_WritableBytes (Buffer_makeSpace n b)"
    using assms by (auto simp: Buffer_makeSpace_def buffer_defs vec_write_def Let_def)
qed

lemma EnsureWritable_view:
  assumes "wf_buffer b"
  shows "wf_buffer (Buffer_EnsureWritable n b)"
    and "Buffer_PeekStringView (Buffer_EnsureWritable n b) = Buffer_PeekStringView b"
    and "n \<le> Buffer_WritableBytes (Buffer_EnsureWritable n b)"
  using makeSpace_view [OF assms, of n] assms by (simp_all add: Buffer_EnsureWritable_def)

lemma view_segment: "Buffer_PeekStringView b = drop (readPos b) (take (writePos b) (vec b))"
  by (simp add: buffer_defs drop_take)

lemma write_view:
  assumes "wf_buffer b" and "length xs \<le> Buffer_WritableBytes b"
  shows "wf_buffer (b\<lparr>vec := vec_write (writePos b) xs (vec b), writePos := writePos b + length xs\<rparr>)"
    and "Buffer_PeekStringView (b\<lparr>vec := vec_write (writePos b) xs (vec b),
           writePos := writePos b + length xs\<rparr>) = Buffer_PeekStringView b @ xs"
proof -
  have le: "writePos b + length xs \<le> length (vec b)"
    using assms unfolding wf_buffer_def Buffer_WritableBytes_def by linarith
  show "wf_buffer (b\<lparr>vec := vec_write (writePos b) xs (vec b), writePos := writePos b + length xs\<rparr>)"
    using assms(1) le by (simp add: wf_buffer_def)
  show "Buffer_PeekStringView (b\<lparr>vec := vec_write (writePos b) xs (vec b),
           writePos := writePos b + length xs\<rparr>) = Buffer_PeekStringView b @ xs"
    using assms(1) le by (simp add: view_segment wf_buffer_def)
qed

lemma Append_view:
  assumes "wf_buffer b"
  shows wf_Append [inv_intros]: "wf_buffer (Buffer_Append xs b)"
    and view_Append [view_simps]:
      "Buffer_PeekStringView (Buffer_Append xs b) = Buffer_PeekStringView b @ xs"
  using write_view [OF EnsureWritable_view(1,3) [OF assms], where xs = xs]
    EnsureWritable_view(2) [OF assms, of "length xs"]
  by (simp_all add: Buffer_Append_def Buffer_HasWritten_def Let_def)

lemma readable_Append [simp]:
  "wf_buffer b \<Longrightarrow> Buffer_ReadableBytes (Buffer_Append xs b) = Buffer_ReadableBytes b + length xs"
  using Append_view [of b xs] by (metis length_append length_view)

section \<open>Socket reads and writes\<close>

text \<open>
  The full case of \<open>ReadFd\<close> is a write of the first \<open>writable\<close> bytes followed by an \<open>Append\<close>
  of the overflow, so both branches extend the view by exactly the bytes that were read.
\<close>

lemma ReadFd_view:
  assumes "wf_buffer b"
  shows wf_ReadFd [inv_intros]: "wf_buffer (fst (Buffer_ReadFd res b))"
    and view_ReadFd [view_simps]: "Buffer_PeekStringView (fst (Buffer_ReadFd res b)) =
      Buffer_PeekStringView b @ (case res of Inl _ \<Rightarrow> [] | Inr xs \<Rightarrow> xs)"
proof -
  let ?w = "Buffer_WritableBytes b"
  have full: "writePos b + ?w = length (vec b)"
    using assms by (simp add: wf_buffer_def Buffer_WritableBytes_def)
  have *: "wf_buffer (fst (Buffer_ReadFd res b)) \<and>
     Buffer_PeekStringView (fst (Buffer_ReadFd res b)) =
     Buffer_PeekStringView b @ (case res of Inl _ \<Rightarrow> [] | Inr xs \<Rightarrow> xs)"
  proof (cases res)
    case (Inl e)
    then show ?thesis using assms by (simp add: Buffer_ReadFd_def)
  next
    case (Inr xs)
    note w = write_view [OF assms, where xs = "take ?w xs"]
    show ?thesis
    proof (cases "length xs \<le> ?w")
      case True
      with w Inr show ?thesis by (simp add: Buffer_ReadFd_def Let_def)
    next
      case False
      let ?b = "b\<lparr>vec := vec_write (writePos b) (take ?w xs) (vec b), writePos := length (vec b)\<rparr>"
      have "wf_buffer ?b" "Buffer_PeekStringView ?b = Buffer_PeekStringView b @ take ?w xs"
        using w False full by (simp_all add: min_def split: if_splits)
      moreover have "fst (Buffer_ReadFd res b) = Buffer_Append (drop ?w xs) ?b"
        using False full Inr by (simp add: Buffer_ReadFd_def Let_def min_def)
      ultimately show ?thesis using Inr by (simp add: Append_view)
    qed
  qed
  then show "wf_buffer (fst (Buffer_ReadFd res b))" ..
  from * show "Buffer_PeekStringView (fst (Buffer_ReadFd res b)) =
      Buffer_PeekStringView b @ (case res of Inl _ \<Rightarrow> [] | Inr xs \<Rightarrow> xs)" ..
qed

text \<open>What the kernel took is a prefix of the view; retrieving that many bytes leaves the rest.\<close>

lemma WriteFd_split:
  assumes "wf_buffer b" and "Buffer_WriteFd res b = (Inr n, out)"
  shows "out @ Buffer_PeekStringView (Buffer_Retrieve n b) = Buffer_PeekStringView b"
    and "n \<le> Buffer_ReadableBytes b" and "length out = n"
  using assms by (auto simp: Buffer_WriteFd_def Let_def view_Retrieve split: sum.splits)

lemma WriteFd_error: "Buffer_WriteFd res b = (Inl e, out) \<Longrightarrow> out = []"
  by (auto simp: Buffer_WriteFd_def Let_def split: sum.splits)

section \<open>The contract of a byte stream\<close>

text \<open>
  What the clients of a buffer use: bytes go in at the end, come out at the front, and nothing
  else changes the content. \<open>stream_run\<close> performs a sequence of such operations and collects
  what was taken out; the stream law says that what came out followed by what is left is what
  was there followed by what went in.
\<close>

datatype stream_op = Put bytes | Take nat

fun stream_run ::
  "('b \<Rightarrow> bytes) \<Rightarrow> (bytes \<Rightarrow> 'b \<Rightarrow> 'b) \<Rightarrow> (nat \<Rightarrow> 'b \<Rightarrow> 'b) \<Rightarrow> stream_op list \<Rightarrow> 'b \<Rightarrow> bytes \<times> 'b" where
  "stream_run view put drop_front [] b = ([], b)"
| "stream_run view put drop_front (Put xs # ops) b = stream_run view put drop_front ops (put xs b)"
| "stream_run view put drop_front (Take n # ops) b =
     (let (out, b') = stream_run view put drop_front ops (drop_front n b)
      in (take n (view b) @ out, b'))"

fun stream_fed :: "stream_op list \<Rightarrow> bytes" where
  "stream_fed [] = []"
| "stream_fed (Put xs # ops) = xs @ stream_fed ops"
| "stream_fed (Take n # ops) = stream_fed ops"

locale byte_stream =
  fixes inv :: "'b \<Rightarrow> bool"
    and view :: "'b \<Rightarrow> bytes"
    and put :: "bytes \<Rightarrow> 'b \<Rightarrow> 'b"
    and drop_front :: "nat \<Rightarrow> 'b \<Rightarrow> 'b"
  assumes inv_put: "inv b \<Longrightarrow> inv (put xs b)"
    and view_put: "inv b \<Longrightarrow> view (put xs b) = view b @ xs"
    and inv_drop_front: "inv b \<Longrightarrow> inv (drop_front n b)"
    and view_drop_front: "inv b \<Longrightarrow> view (drop_front n b) = drop n (view b)"
begin

lemma stream_law:
  "inv b \<Longrightarrow> stream_run view put drop_front ops b = (out, b') \<Longrightarrow>
     inv b' \<and> out @ view b' = view b @ stream_fed ops"
proof (induction ops arbitrary: b out b' rule: stream_fed.induct)
  case 1
  then show ?case by simp
next
  case (2 xs ops)
  then have "inv (put xs b)" "stream_run view put drop_front ops (put xs b) = (out, b')"
    by (simp_all add: inv_put)
  from "2.IH" [OF this] "2.prems"(1) show ?case by (simp add: view_put)
next
  case (3 n ops)
  obtain out1 where r: "stream_run view put drop_front ops (drop_front n b) = (out1, b')"
    and out: "out = take n (view b) @ out1"
    using "3.prems"(2) by (auto split: prod.splits)
  from "3.IH" [OF inv_drop_front r] "3.prems"(1)
  have "inv b' \<and> out1 @ view b' = drop n (view b) @ stream_fed ops"
    by (simp add: view_drop_front)
  then show ?case by (simp add: out)
qed

end

interpretation buf: byte_stream wf_buffer Buffer_PeekStringView Buffer_Append Buffer_Retrieve
  by unfold_locales (auto intro: inv_intros simp: view_simps)

section \<open>Every member function\<close>

text \<open>
  A call of a member function, the \<open>assert\<close>s at its start (for \<open>HasWritten\<close>, which has none, the room it takes
  for granted), and what it returns. \<open>None\<close> is a read outside the vector.
\<close>

datatype buffer_op = Do_Append bytes | Do_Retrieve nat | Do_RetrieveAll | Do_EnsureWritable nat | Do_HasWritten nat
  | Do_ReadString nat | Do_RetrieveAllToStr | Do_PeekInt32 | Do_ReadInt32 | Do_ReadFd "errno + bytes" | Do_WriteFd "errno + nat"

datatype buffer_result = R_void | R_string bytes | R_uint32 "32 word" | R_ssize "errno + nat"

fun buffer_asserts :: "buffer_op \<Rightarrow> buffer \<Rightarrow> bool" where
  "buffer_asserts (Do_Retrieve len) b = (len \<le> Buffer_ReadableBytes b)"
| "buffer_asserts (Do_HasWritten len) b = (len \<le> Buffer_WritableBytes b)"
| "buffer_asserts (Do_ReadString n) b = (n \<le> Buffer_ReadableBytes b)"
| "buffer_asserts Do_PeekInt32 b = (4 \<le> Buffer_ReadableBytes b)"
| "buffer_asserts Do_ReadInt32 b = (4 \<le> Buffer_ReadableBytes b)"
| "buffer_asserts _ b = True"

fun run_buffer_op :: "buffer_op \<Rightarrow> buffer \<Rightarrow> (buffer_result \<times> buffer) option" where
  "run_buffer_op (Do_Append data) b = Some (R_void, Buffer_Append data b)"
| "run_buffer_op (Do_Retrieve len) b = Some (R_void, Buffer_Retrieve len b)"
| "run_buffer_op Do_RetrieveAll b = Some (R_void, Buffer_RetrieveAll b)"
| "run_buffer_op (Do_EnsureWritable len) b = Some (R_void, Buffer_EnsureWritable len b)"
| "run_buffer_op (Do_HasWritten len) b = Some (R_void, Buffer_HasWritten len b)"
| "run_buffer_op (Do_ReadString n) b = map_option (\<lambda>(s, b'). (R_string s, b')) (Buffer_ReadString n b)"
| "run_buffer_op Do_RetrieveAllToStr b = (let (s, b') = Buffer_RetrieveAllToStr b in Some (R_string s, b'))"
| "run_buffer_op Do_PeekInt32 b = map_option (\<lambda>v. (R_uint32 v, b)) (Buffer_PeekInt32 b)"
| "run_buffer_op Do_ReadInt32 b = map_option (\<lambda>(v, b'). (R_uint32 v, b')) (Buffer_ReadInt32 b)"
| "run_buffer_op (Do_ReadFd res) b = (let (b', n) = Buffer_ReadFd res b in Some (R_ssize n, b'))"
| "run_buffer_op (Do_WriteFd res) b = Some (R_ssize (fst (Buffer_WriteFd res b)), b)"

fun result_type :: "buffer_op \<Rightarrow> buffer_result \<Rightarrow> bool" where
  "result_type (Do_ReadString n) r = (\<exists>s. r = R_string s \<and> length s = n)"
| "result_type Do_RetrieveAllToStr r = (\<exists>s. r = R_string s)"
| "result_type Do_PeekInt32 r = (\<exists>v. r = R_uint32 v)"
| "result_type Do_ReadInt32 r = (\<exists>v. r = R_uint32 v)"
| "result_type (Do_ReadFd res) r = (r = R_ssize (map_sum id length res))"
| "result_type (Do_WriteFd res) r = (\<exists>n. r = R_ssize n)"
| "result_type _ r = (r = R_void)"

fun run_buffer_ops :: "buffer_op list \<Rightarrow> buffer \<Rightarrow> (buffer_result list \<times> buffer) option" where
  "run_buffer_ops [] b = Some ([], b)"
| "run_buffer_ops (op # ops) b =
     Option.bind (run_buffer_op op b) (\<lambda>(r, b'). map_option (\<lambda>(rs, b''). (r # rs, b'')) (run_buffer_ops ops b'))"

fun asserts_hold :: "buffer_op list \<Rightarrow> buffer \<Rightarrow> bool" where
  "asserts_hold [] b = True"
| "asserts_hold (op # ops) b = (buffer_asserts op b \<and> (\<forall>r b'. run_buffer_op op b = Some (r, b') \<longrightarrow> asserts_hold ops b'))"

lemma readable_in_vector: "wf_buffer b \<Longrightarrow> Buffer_ReadableBytes b \<le> length (Buffer_Peek b)"
  by (simp add: buffer_defs diff_le_mono)

lemma makeSpace_grows: "wf_buffer b \<Longrightarrow> length (vec b) \<le> length (vec (Buffer_makeSpace n b))"
  by (auto simp: Buffer_makeSpace_def buffer_defs vec_write_def vec_resize_def Let_def)

lemma Append_grows: "wf_buffer b \<Longrightarrow> length (vec b) \<le> length (vec (Buffer_Append xs b))"
  using makeSpace_grows [of b "length xs"]
  by (auto simp: Buffer_Append_def Buffer_EnsureWritable_def Buffer_HasWritten_def vec_write_def Let_def)

lemma ReadFd_grows: "wf_buffer b \<Longrightarrow> length (vec b) \<le> length (vec (fst (Buffer_ReadFd res b)))"
proof (cases res)
  case (Inr xs)
  let ?w = "Buffer_WritableBytes b"
  let ?b = "b\<lparr>vec := vec_write (writePos b) (take ?w xs) (vec b), writePos := length (vec b)\<rparr>"
  assume wf: "wf_buffer b"
  then have l: "length (vec_write (writePos b) (take ?w xs) (vec b)) = length (vec b)"
    by (auto simp: vec_write_def wf_buffer_def Buffer_WritableBytes_def)
  then have "wf_buffer ?b" using wf by (simp add: wf_buffer_def)
  from Append_grows [OF this, of "drop ?w xs"] show ?thesis using Inr l
    by (cases "length xs \<le> ?w") (simp_all add: Buffer_ReadFd_def Let_def)
qed (simp add: Buffer_ReadFd_def)

lemma readable_ReadFd [simp]:
  "wf_buffer b \<Longrightarrow> Buffer_ReadableBytes (fst (Buffer_ReadFd res b)) =
     Buffer_ReadableBytes b + (case res of Inl _ \<Rightarrow> 0 | Inr xs \<Rightarrow> length xs)"
  using ReadFd_view [of b res] length_view [of b] length_view [of "fst (Buffer_ReadFd res b)"] by (cases res) simp_all

lemma buffer_op_step:
  assumes "wf_buffer b" and "buffer_asserts op b"
  shows "\<exists>r b'. run_buffer_op op b = Some (r, b') \<and> result_type op r \<and> wf_buffer b' \<and> length (vec b) \<le> length (vec b')"
proof (cases op)
  case (Do_Append data)
  then show ?thesis using assms(1) by (simp add: wf_Append Append_grows)
next
  case (Do_EnsureWritable len)
  then show ?thesis using assms(1) EnsureWritable_view(1) [OF assms(1)] makeSpace_grows [OF assms(1), of len]
    by (simp add: Buffer_EnsureWritable_def)
next
  case (Do_ReadFd res)
  then show ?thesis using wf_ReadFd [OF assms(1), of res] ReadFd_grows [OF assms(1), of res]
    by (cases res) (simp_all add: Buffer_ReadFd_def Let_def split_def)
next
  case (Do_ReadString n)
  then show ?thesis using assms readable_in_vector [OF assms(1)] by (simp add: Buffer_ReadString_def) (simp add: buffer_defs)
next
  case Do_PeekInt32
  then show ?thesis using assms readable_in_vector [OF assms(1)] by (simp add: Buffer_PeekInt32_def)
next
  case Do_ReadInt32
  then show ?thesis using assms readable_in_vector [OF assms(1)]
    by (simp add: Buffer_PeekInt32_def Buffer_ReadInt32_def) (simp add: buffer_defs)
qed (use assms in \<open>auto simp: buffer_defs Buffer_RetrieveAllToStr_def\<close>)

section \<open>Properties\<close>

text \<open>
  C22. Whatever sequence of \<open>Append\<close>s and \<open>Retrieve\<close>s runs on a well-formed buffer, compaction
  and growth never lose, duplicate or reorder a byte: the bytes retrieved, followed by the bytes
  still readable, are the bytes readable before followed by the bytes appended.
\<close>

theorem Buffer_stream_law:
  assumes "wf_buffer b"
    and "stream_run Buffer_PeekStringView Buffer_Append Buffer_Retrieve ops b = (out, b')"
  shows "wf_buffer b' \<and> out @ Buffer_PeekStringView b' = Buffer_PeekStringView b @ stream_fed ops"
  using assms by (rule buf.stream_law)

theorem Buffer_stream_law_witness:
  "fst (stream_run Buffer_PeekStringView Buffer_Append Buffer_Retrieve [Put [1, 2, 3], Take 2] (Buffer_new 1)) @
   Buffer_PeekStringView (snd (stream_run Buffer_PeekStringView Buffer_Append Buffer_Retrieve
     [Put [1, 2, 3], Take 2] (Buffer_new 1))) = [1, 2, 3]"
  using Buffer_stream_law [OF wf_Buffer_new prod.collapse [symmetric], of "[Put [1, 2, 3], Take 2]" 1]
  by simp

text \<open>
  Making room: afterwards at least \<open>len\<close> bytes are writable (the asserted postcondition),
  the readable bytes are the same and the positions are still in range.
\<close>

theorem Buffer_EnsureWritable_spec:
  assumes "wf_buffer b"
  shows "wf_buffer (Buffer_EnsureWritable len b)
    \<and> len \<le> Buffer_WritableBytes (Buffer_EnsureWritable len b)
    \<and> Buffer_PeekStringView (Buffer_EnsureWritable len b) = Buffer_PeekStringView b"
  using EnsureWritable_view [OF assms] by blast

theorem Buffer_EnsureWritable_spec_witness:
  "7 \<le> Buffer_WritableBytes (Buffer_EnsureWritable 7 (Buffer_new 2))"
  using Buffer_EnsureWritable_spec [OF wf_Buffer_new, of 7 2] by simp

text \<open>
  Reading a socket with \<open>readv\<close> into the vector and the 64 KiB stack array: the bytes that
  arrived are appended to the readable bytes in order, whether or not they fit into the vector,
  the returned count is their number, and a failed read changes nothing.
\<close>

theorem Buffer_ReadFd_spec:
  assumes "wf_buffer b"
  shows "Buffer_ReadFd (Inl e) b = (b, Inl e)
    \<and> wf_buffer (fst (Buffer_ReadFd (Inr xs) b))
    \<and> Buffer_PeekStringView (fst (Buffer_ReadFd (Inr xs) b)) = Buffer_PeekStringView b @ xs
    \<and> snd (Buffer_ReadFd (Inr xs) b) = Inr (length xs)"
  using ReadFd_view [OF assms, of "Inr xs"] by (simp add: Buffer_ReadFd_def Let_def)

theorem Buffer_ReadFd_spec_witness:
  "Buffer_PeekStringView (fst (Buffer_ReadFd (Inr [1, 2, 3]) (Buffer_new 2))) = [1, 2, 3]"
  using Buffer_ReadFd_spec [OF wf_Buffer_new, of 0 2 "[1, 2, 3]"] by simp



end
