(* ===== verification/CodecModel.thy ===== *)
theory CodecModel
  imports BufferModel
begin

text \<open>
  \<open>code/protocol/codec.h\<close>: frames of a 4-byte big-endian length and a protobuf body.

  \<open>T::SerializeToString\<close> and \<open>T::ParseFromString\<close> are arguments (\<open>None\<close> is the return value
  \<open>false\<close>), since the message type is a template parameter. \<open>decode\<close> returns the status, the
  message (meaningful for \<open>Ok\<close> only, as the comment in the source says) and \<open>consumed\<close>.

  \<open>split_frames\<close> is the abstract specification of a receiver: all the complete frames at the
  front of a byte sequence. Both receivers of the library (\<open>RpcServer::onMessage\<close>,
  \<open>RpcClient::onMessage\<close>) run the same loop around \<open>decode\<close>; the locale \<open>frame_reader\<close> states
  that loop and proves once that it performs \<open>split_frames\<close>, however the bytes are cut into
  reads.
\<close>

section \<open>Encoding and decoding one frame\<close>

definition Codec_MAX_FRAME_SIZE :: "32 word" where
  "Codec_MAX_FRAME_SIZE = 64 * 1024 * 1024"

definition UINT32_MAX :: nat where
  "UINT32_MAX = 4294967295"

datatype DecodeStatus = Ok | Incomplete | Corrupted

definition Codec_encode :: "('m \<Rightarrow> bytes option) \<Rightarrow> 'm \<Rightarrow> bytes option" where
  "Codec_encode SerializeToString msg =
     (case SerializeToString msg of
        None \<Rightarrow> None
      | Some data \<Rightarrow>
          if length data > UINT32_MAX then None
          else let len = htonl (word_of_nat (length data)) in Some (store_u32 len @ data))"

definition Codec_decode ::
  "(bytes \<Rightarrow> 'm option) \<Rightarrow> bytes \<Rightarrow> DecodeStatus \<times> 'm option \<times> nat" where
  "Codec_decode ParseFromString buffer =
     (if length buffer < 4 then (Incomplete, None, 0)
      else
        let len = ntohl (load_u32 (take 4 buffer)) in
        if len > Codec_MAX_FRAME_SIZE then (Corrupted, None, 0)
        else if unat len > length buffer - 4 then (Incomplete, None, 0)
        else
          let consumed = unat (4 + len); data = take (unat len) (drop 4 buffer) in
          (case ParseFromString data of
             None \<Rightarrow> (Corrupted, None, consumed)
           | Some m \<Rightarrow> (Ok, Some m, consumed)))"

lemma MAX_FRAME_SIZE_unat [simp]: "unat Codec_MAX_FRAME_SIZE = 67108864"
  by (simp add: Codec_MAX_FRAME_SIZE_def)

text \<open>The sum \<open>4 + len\<close> is a 32-bit addition; the size check before it keeps it from wrapping.\<close>

lemma consumed_unat: "len \<le> Codec_MAX_FRAME_SIZE \<Longrightarrow> unat (4 + len) = 4 + unat len"
proof -
  assume "len \<le> Codec_MAX_FRAME_SIZE"
  then have "unat len \<le> 67108864" by (simp add: word_le_nat_alt)
  then show ?thesis by (simp add: unat_word_ariths)
qed

text \<open>\<open>decode\<close> by cases, with the length prefix read as a number.\<close>

definition frame_len :: "bytes \<Rightarrow> nat" where
  "frame_len v = unat (ntohl (load_u32 (take 4 v)))"

lemma Codec_decode_cases:
  "Codec_decode parse v =
     (if length v < 4 then (Incomplete, None, 0)
      else if frame_len v > 67108864 then (Corrupted, None, 0)
      else if length v < 4 + frame_len v then (Incomplete, None, 0)
      else (case parse (take (frame_len v) (drop 4 v)) of
              None \<Rightarrow> (Corrupted, None, 4 + frame_len v)
            | Some m \<Rightarrow> (Ok, Some m, 4 + frame_len v)))"
proof -
  let ?len = "ntohl (load_u32 (take 4 v))"
  have 1: "?len > Codec_MAX_FRAME_SIZE \<longleftrightarrow> frame_len v > 67108864"
    by (simp add: word_less_nat_alt frame_len_def)
  have 2: "\<not> frame_len v > 67108864 \<Longrightarrow> unat (4 + ?len) = 4 + frame_len v"
    using 1 consumed_unat [of ?len] by (simp add: frame_len_def)
  have 3: "\<not> length v < 4 \<Longrightarrow> unat ?len > length v - 4 \<longleftrightarrow> length v < 4 + frame_len v"
    by (auto simp: frame_len_def)
  show ?thesis
    unfolding Codec_decode_def Let_def using 1 2 3
    by (auto simp: frame_len_def split: option.splits)
qed

lemma frame_len_append [simp]: "4 \<le> length v \<Longrightarrow> frame_len (v @ w) = frame_len v"
  by (simp add: frame_len_def)

lemma decode_Ok_bounds:
  assumes "Codec_decode parse v = (Ok, m, c)"
  shows "4 \<le> c \<and> c \<le> length v \<and> m \<noteq> None"
  using assms
  by (auto simp: Codec_decode_cases split: if_splits option.splits dest!: sym [of "Some _"])

lemma decode_Incomplete:
  assumes "Codec_decode parse v = (Incomplete, m, c)"
  shows "m = None \<and> c = 0"
  using assms by (auto simp: Codec_decode_cases split: if_splits option.splits)

text \<open>More bytes never change a verdict: only an incomplete frame waits for them.\<close>

lemma decode_append:
  assumes "Codec_decode parse v = (s, m, c)" and "s \<noteq> Incomplete"
  shows "Codec_decode parse (v @ w) = (s, m, c)"
  using assms
  by (auto simp: Codec_decode_cases split: if_splits option.splits dest!: sym [of "Some _"])

lemma frame_len_encoded:
  "n \<le> UINT32_MAX \<Longrightarrow> frame_len (store_u32 (htonl (word_of_nat n))) = n"
  by (simp add: frame_len_def unat_of_nat_u32 UINT32_MAX_def)

lemma decode_encoded:
  assumes "length data \<le> UINT32_MAX"
  shows "Codec_decode parse (store_u32 (htonl (word_of_nat (length data))) @ data @ w) =
    (if length data > 67108864 then (Corrupted, None, 0)
     else (case parse data of
             None \<Rightarrow> (Corrupted, None, 4 + length data)
           | Some m \<Rightarrow> (Ok, Some m, 4 + length data)))"
  using frame_len_encoded [OF assms] by (simp add: Codec_decode_cases split: option.split)

section \<open>All the frames of a byte sequence\<close>

text \<open>
  The frames at the front of \<open>v\<close>, the bytes after them, and whether those bytes begin with a
  corrupted frame.
\<close>

function split_frames :: "(bytes \<Rightarrow> 'm option) \<Rightarrow> bytes \<Rightarrow> 'm list \<times> bytes \<times> bool" where
  "split_frames parse v =
     (if 4 \<le> length v then
        (case Codec_decode parse v of
           (Incomplete, _, _) \<Rightarrow> ([], v, False)
         | (Corrupted, _, _) \<Rightarrow> ([], v, True)
         | (Ok, m, consumed) \<Rightarrow>
             let (ms, r, k) = split_frames parse (drop consumed v) in (the m # ms, r, k))
      else ([], v, False))"
  by pat_completeness auto
termination
  by (relation "measure (\<lambda>(parse, v). length v)") (auto dest!: decode_Ok_bounds [OF sym])

declare split_frames.simps [simp del]

lemma split_frames_short: "length v < 4 \<Longrightarrow> split_frames parse v = ([], v, False)"
  by (subst split_frames.simps) simp

lemma split_frames_Incomplete:
  "Codec_decode parse v = (Incomplete, m, c) \<Longrightarrow> split_frames parse v = ([], v, False)"
  by (subst split_frames.simps) simp

lemma split_frames_Corrupted:
  "Codec_decode parse v = (Corrupted, m, c) \<Longrightarrow> split_frames parse v = ([], v, True)"
  by (subst split_frames.simps) (auto simp: Codec_decode_cases split: if_splits)

lemma split_frames_Ok:
  "Codec_decode parse v = (Ok, Some m, c) \<Longrightarrow> split_frames parse (drop c v) = (ms, r, k) \<Longrightarrow>
     split_frames parse v = (m # ms, r, k)"
  using decode_Ok_bounds [of parse v "Some m" c] by (subst split_frames.simps) simp

lemmas split_frames_cases = split_frames_Incomplete split_frames_Corrupted split_frames_Ok

lemma decode_exhaust:
  obtains (incomplete) "Codec_decode parse v = (Incomplete, None, 0)"
  | (corrupted) m c where "Codec_decode parse v = (Corrupted, m, c)"
  | (ok) m c where "Codec_decode parse v = (Ok, Some m, c)" "4 \<le> c" "c \<le> length v"
proof (cases "Codec_decode parse v")
  case (fields s m c)
  show thesis
  proof (cases s)
    case Ok
    with fields decode_Ok_bounds [of parse v m c] ok show thesis by auto
  next
    case Incomplete
    with fields decode_Incomplete [of parse v m c] incomplete show thesis by simp
  qed (use fields corrupted in simp)
qed

text \<open>Induction along the frames of a byte sequence.\<close>

lemma frames_induct [case_names incomplete corrupted ok]:
  assumes "\<And>v. Codec_decode parse v = (Incomplete, None, 0) \<Longrightarrow> P v"
    and "\<And>v m c. Codec_decode parse v = (Corrupted, m, c) \<Longrightarrow> P v"
    and "\<And>v m c. Codec_decode parse v = (Ok, Some m, c) \<Longrightarrow> 4 \<le> c \<Longrightarrow> c \<le> length v \<Longrightarrow>
           P (drop c v) \<Longrightarrow> P v"
  shows "P v"
proof (induction v rule: length_induct)
  case (1 v)
  show ?case
  proof (cases rule: decode_exhaust [of parse v])
    case (ok m c)
    then have "P (drop c v)" using 1 by simp
    with ok assms(3) show ?thesis by blast
  qed (use assms in blast)+
qed

lemma split_one_frame:
  assumes "ser m = Some data" and "parse data = Some m" and "length data \<le> 67108864"
  shows "\<exists>frame. Codec_encode ser m = Some frame \<and> split_frames parse frame = ([m], [], False)"
proof -
  let ?frame = "store_u32 (htonl (word_of_nat (length data))) @ data"
  have l: "length data \<le> UINT32_MAX" using assms(3) by (simp add: UINT32_MAX_def)
  have "Codec_decode parse ?frame = (Ok, Some m, 4 + length data)"
    using decode_encoded [OF l, of parse "[]"] assms(2,3) by simp
  moreover have "drop (4 + length data) ?frame = []" by simp
  ultimately have "split_frames parse ?frame = ([m], [], False)"
    using split_frames_Ok [of parse ?frame m "4 + length data" "[]" "[]" False] split_frames_short [of "[]" parse] by simp
  then show ?thesis using assms(1) l by (simp add: Codec_encode_def Let_def)
qed

text \<open>Cutting the input: the frames of a prefix stay, and the rest continues where they end.\<close>

lemma split_frames_append:
  assumes "split_frames parse v = (ms, r, False)"
    and "split_frames parse (r @ w) = (ms', r', k')"
  shows "split_frames parse (v @ w) = (ms @ ms', r', k')"
  using assms
proof (induction v arbitrary: ms rule: frames_induct [where parse = parse])
  case (incomplete v)
  then show ?case using split_frames_Incomplete [OF incomplete(1)] by simp
next
  case (corrupted v m c)
  then show ?case using split_frames_Corrupted [OF corrupted(1)] by simp
next
  case (ok v m c)
  obtain ms1 where s: "split_frames parse (drop c v) = (ms1, r, False)" and ms: "ms = m # ms1"
    using ok.prems(1) split_frames_Ok [OF ok(1)] by (cases "split_frames parse (drop c v)") auto
  from ok.IH [OF s ok.prems(2)] have "split_frames parse (drop c (v @ w)) = (ms1 @ ms', r', k')"
    using ok(3) by simp
  with decode_append [OF ok(1), of w] show ?case by (simp add: ms split_frames_Ok)
qed

lemma split_frames_append_corrupted:
  assumes "split_frames parse v = (ms, r, True)"
  shows "split_frames parse (v @ w) = (ms, r @ w, True)"
  using assms
proof (induction v arbitrary: ms rule: frames_induct [where parse = parse])
  case (incomplete v)
  then show ?case using split_frames_Incomplete [OF incomplete(1)] by simp
next
  case (corrupted v m c)
  then show ?case
    using split_frames_Corrupted [OF corrupted(1)]
      split_frames_Corrupted [OF decode_append [OF corrupted(1)], of w] by simp
next
  case (ok v m c)
  obtain ms1 where s: "split_frames parse (drop c v) = (ms1, r, True)" and ms: "ms = m # ms1"
    using ok.prems(1) split_frames_Ok [OF ok(1)] by (cases "split_frames parse (drop c v)") auto
  from ok.IH [OF s] have "split_frames parse (drop c (v @ w)) = (ms1, r @ w, True)"
    using ok(3) by simp
  with decode_append [OF ok(1), of w] show ?case by (simp add: ms split_frames_Ok)
qed

text \<open>What stays unread is less than one maximal frame, unless it is corrupted.\<close>

lemma split_frames_rest_bound:
  "split_frames parse v = (ms, r, False) \<Longrightarrow> length r < 4 + 67108864"
proof (induction v arbitrary: ms rule: frames_induct [where parse = parse])
  case (incomplete v)
  have "length v < 4 + 67108864"
    using incomplete(1) by (auto simp: Codec_decode_cases split: if_splits option.splits)
  then show ?case using incomplete(2) split_frames_Incomplete [OF incomplete(1)] by simp
next
  case (corrupted v m c)
  then show ?case using split_frames_Corrupted [OF corrupted(1)] by simp
next
  case (ok v m c)
  then show ?case
    using split_frames_Ok [OF ok(1)] by (cases "split_frames parse (drop c v)") auto
qed

lemma split_frames_suffix:
  "split_frames parse v = (ms, r, k) \<Longrightarrow> \<exists>u. v = u @ r"
proof (induction v arbitrary: ms rule: frames_induct [where parse = parse])
  case (incomplete v)
  then show ?case using split_frames_Incomplete [OF incomplete(1)] by simp
next
  case (corrupted v m c)
  then show ?case using split_frames_Corrupted [OF corrupted(1)] by simp
next
  case (ok v m c)
  obtain ms1 where "split_frames parse (drop c v) = (ms1, r, k)"
    using ok.prems(1) split_frames_Ok [OF ok(1)] by (cases "split_frames parse (drop c v)") auto
  from ok.IH [OF this] obtain u where "drop c v = u @ r" ..
  then have "v = (take c v @ u) @ r" by (metis append_assoc append_take_drop_id)
  then show ?case ..
qed

lemma split_frames_rest:
  "split_frames parse v = (ms, r, False) \<Longrightarrow> split_frames parse r = ([], r, False)"
proof (induction v arbitrary: ms rule: frames_induct [where parse = parse])
  case (incomplete v)
  then show ?case using split_frames_Incomplete [OF incomplete(1)] by simp
next
  case (corrupted v m c)
  then show ?case using split_frames_Corrupted [OF corrupted(1)] by simp
next
  case (ok v m c)
  then show ?case
    using split_frames_Ok [OF ok(1)] by (cases "split_frames parse (drop c v)") auto
qed

section \<open>The receive loop\<close>

text \<open>
  A receiver's state \<open>'w\<close> contains its input buffer, seen through \<open>view\<close>; \<open>rest\<close> is what a message
  may change. \<open>loop\<close> is its \<open>while\<close> loop: wait on an incomplete frame, react to a corrupted one and
  return, otherwise consume the frame, handle the message and go on. A receiver may fail or not
  return (\<open>None\<close>); handling a message in a good state does neither.
\<close>

locale frame_reader = byte_stream ok view feed consume
  for ok :: "'w \<Rightarrow> bool" and view :: "'w \<Rightarrow> bytes" and feed and consume +
  fixes parse :: "bytes \<Rightarrow> 'm option"
    and loop :: "'w \<Rightarrow> 'w option"
    and handle :: "'m \<Rightarrow> 'w \<Rightarrow> 'w option"
    and on_corrupt :: "'w \<Rightarrow> 'w option"
    and rest :: "'w \<Rightarrow> 's"
    and effect :: "'m \<Rightarrow> 's \<Rightarrow> 's"
  assumes loop_incomplete:
      "ok w \<Longrightarrow> Codec_decode parse (view w) = (Incomplete, None, 0) \<Longrightarrow> loop w = Some w"
    and loop_corrupted:
      "ok w \<Longrightarrow> Codec_decode parse (view w) = (Corrupted, mo, c) \<Longrightarrow> loop w = on_corrupt w"
    and loop_ok:
      "ok w \<Longrightarrow> Codec_decode parse (view w) = (Ok, Some m, c) \<Longrightarrow>
         loop w = Option.bind (handle m (consume c w)) loop"
    and handle_ok:
      "ok w \<Longrightarrow> \<exists>w'. handle m w = Some w' \<and> ok w' \<and> view w' = view w \<and> rest w' = effect m (rest w)"
    and rest_feed: "rest (feed xs w) = rest w"
    and rest_consume: "rest (consume n w) = rest w"
begin

lemma loop_split:
  "ok w \<Longrightarrow> split_frames parse (view w) = (ms, r, k) \<Longrightarrow>
     \<exists>w'. ok w' \<and> view w' = r \<and> rest w' = fold effect ms (rest w) \<and>
       loop w = (if k then on_corrupt w' else Some w')"
proof (induction "view w" arbitrary: w ms rule: frames_induct [where parse = parse])
  case incomplete
  then show ?case
    using split_frames_Incomplete [OF incomplete(1)] loop_incomplete [of w] by auto
next
  case (corrupted m c)
  then show ?case
    using split_frames_Corrupted [OF corrupted(1)] loop_corrupted [of w m c] by auto
next
  case (ok m c)
  let ?v = "consume c w"
  have v: "ok ?v" "view ?v = drop c (view w)" using ok.prems(1) by (simp_all add: inv_drop_front view_drop_front)
  obtain u where u: "handle m ?v = Some u" "ok u" "view u = drop c (view w)" "rest u = effect m (rest w)"
    using handle_ok [OF v(1), of m] v(2) rest_consume by auto
  obtain ms1 where s: "split_frames parse (view u) = (ms1, r, k)" and ms: "ms = m # ms1"
    using ok.prems(2) split_frames_Ok [OF ok(1)] u(3)
    by (cases "split_frames parse (drop c (view w))") auto
  from ok(4) [OF u(3) [symmetric] u(2) s] loop_ok [OF ok.prems(1) ok(1)] u
  show ?case by (simp add: ms)
qed

end

text \<open>Reads arrive one after the other, and the receiver runs its loop after each.\<close>

fun deliver :: "(bytes \<Rightarrow> 'w \<Rightarrow> 'w) \<Rightarrow> ('w \<Rightarrow> 'w option) \<Rightarrow> bytes list \<Rightarrow> 'w \<Rightarrow> 'w option" where
  "deliver feed loop [] w = Some w"
| "deliver feed loop (c # cs) w = Option.bind (loop (feed c w)) (deliver feed loop cs)"

context frame_reader begin

text \<open>However the bytes are cut into reads, the messages handled are the frames of the whole.\<close>

lemma deliver_frames:
  assumes "ok w" and "split_frames parse (view w) = ([], view w, False)"
    and "split_frames parse (view w @ concat cs) = (ms, r, False)"
  shows "\<exists>w'. deliver feed loop cs w = Some w' \<and> ok w' \<and> view w' = r \<and> rest w' = fold effect ms (rest w)"
  using assms
proof (induction cs arbitrary: w ms)
  case Nil
  then show ?case by simp
next
  case (Cons c cs)
  have b: "ok (feed c w)" "view (feed c w) = view w @ c"
    using Cons.prems(1) by (simp_all add: inv_put view_put)
  obtain ms1 r1 k1 where s1: "split_frames parse (view w @ c) = (ms1, r1, k1)"
    by (cases "split_frames parse (view w @ c)")
  have k1: "\<not> k1"
    using split_frames_append_corrupted [of parse "view w @ c" ms1 r1 "concat cs"] s1 Cons.prems(3)
    by (cases k1) auto
  obtain ms2 r2 k2 where s2: "split_frames parse (r1 @ concat cs) = (ms2, r2, k2)"
    by (cases "split_frames parse (r1 @ concat cs)")
  have eq: "ms = ms1 @ ms2" "r2 = r" "k2 = False"
    using split_frames_append [of parse "view w @ c" ms1 r1 "concat cs" ms2 r2 k2]
      s1 s2 k1 Cons.prems(3) by auto
  obtain w1 where l: "loop (feed c w) = Some w1" "ok w1" "view w1 = r1" "rest w1 = fold effect ms1 (rest w)"
    using loop_split [OF b(1), of ms1 r1 k1] s1 b(2) k1 rest_feed by auto
  have r1: "split_frames parse (view w1) = ([], view w1, False)"
    using split_frames_rest [of parse "view w @ c" ms1 r1] s1 k1 l(3) by simp
  have "split_frames parse (view w1 @ concat cs) = (ms2, r, False)"
    using s2 eq l(3) by simp
  from Cons.IH [OF l(2) r1 this] show ?case using l eq by auto
qed

end

section \<open>Properties\<close>

text \<open>
  Round trip of one frame: if the message type's own serialiser and parser are inverse on
  \<open>msg\<close> and the body is at most 64 MiB, then decoding an encoded message returns that message and
  consumes exactly its frame, whatever bytes follow it (sticky packets).
\<close>

theorem Codec_roundtrip:
  assumes "Codec_encode ser msg = Some frame"
    and "\<And>data. ser msg = Some data \<Longrightarrow> parse data = Some msg"
    and "length frame \<le> 4 + unat Codec_MAX_FRAME_SIZE"
  shows "Codec_decode parse (frame @ rest) = (Ok, Some msg, length frame)"
proof -
  obtain data where d: "ser msg = Some data" "length data \<le> UINT32_MAX"
    "frame = store_u32 (htonl (word_of_nat (length data))) @ data"
    using assms(1) by (auto simp: Codec_encode_def Let_def split: option.splits if_splits)
  then show ?thesis using decode_encoded [OF d(2), of parse rest] assms(2) [OF d(1)] assms(3) by simp
qed

theorem Codec_roundtrip_witness:
  "Codec_decode Some (the (Codec_encode Some (str ''hi'')) @ [7]) =
     (Ok, Some (str ''hi''), length (the (Codec_encode Some (str ''hi''))))"
proof -
  have e: "Codec_encode Some (str ''hi'') =
      Some (store_u32 (htonl (word_of_nat 2)) @ str ''hi'')"
    by (simp add: Codec_encode_def UINT32_MAX_def)
  show ?thesis unfolding e option.sel
    by (rule Codec_roundtrip [OF e]) simp_all
qed

text \<open>
  Half packets: every proper prefix of a frame within the size limit is reported
  \<open>Incomplete\<close> with nothing consumed, so a receiver waits and never misreads a partial frame.
\<close>

theorem Codec_prefix_incomplete:
  assumes "Codec_encode ser msg = Some frame"
    and "length frame \<le> 4 + unat Codec_MAX_FRAME_SIZE"
    and "n < length frame"
  shows "Codec_decode parse (take n frame) = (Incomplete, None, 0)"
proof (cases "n < 4")
  case True
  then have "length (take n frame) < 4" by simp
  then show ?thesis by (simp add: Codec_decode_cases)
next
  case False
  obtain data where d: "length data \<le> UINT32_MAX"
    "frame = store_u32 (htonl (word_of_nat (length data))) @ data"
    using assms(1) by (auto simp: Codec_encode_def Let_def split: option.splits if_splits)
  then have t: "take n frame = store_u32 (htonl (word_of_nat (length data))) @ take (n - 4) data"
    using False by simp
  have "frame_len (take n frame) = length data"
    unfolding t using frame_len_encoded [OF d(1)] by simp
  with assms(2,3) d(2) False show ?thesis by (simp add: Codec_decode_cases)
qed

theorem Codec_prefix_incomplete_witness:
  "Codec_decode Some (take 5 (store_u32 (htonl (word_of_nat 2)) @ str ''hi'')) = (Incomplete, None, 0)"
  by (rule Codec_prefix_incomplete [where ser = Some and msg = "str ''hi''"])
    (simp_all add: Codec_encode_def UINT32_MAX_def)

text \<open>
  The sender's limit is not the receiver's: a message whose body is larger than 64 MiB but
  fits 32 bits is encoded without an error, and every receiver then reports the frame as
  corrupted as soon as it has the length prefix.
\<close>

theorem Codec_oversize_asymmetry:
  assumes "ser msg = Some data"
    and "unat Codec_MAX_FRAME_SIZE < length data" and "length data \<le> UINT32_MAX"
  shows "\<exists>frame. Codec_encode ser msg = Some frame
    \<and> Codec_decode parse frame = (Corrupted, None, 0)
    \<and> Codec_decode parse (take 4 frame) = (Corrupted, None, 0)"
proof -
  let ?frame = "store_u32 (htonl (word_of_nat (length data))) @ data"
  have "Codec_encode ser msg = Some ?frame"
    using assms by (simp add: Codec_encode_def)
  moreover have "Codec_decode parse ?frame = (Corrupted, None, 0)"
    using decode_encoded [OF assms(3), of parse "[]"] assms(2) by simp
  moreover have "Codec_decode parse (take 4 ?frame) = (Corrupted, None, 0)"
    using frame_len_encoded [OF assms(3)] assms(2) by (simp add: Codec_decode_cases)
  ultimately show ?thesis by blast
qed

theorem Codec_oversize_asymmetry_witness:
  "\<exists>frame. Codec_encode Some (replicate 67108865 (0 :: byte)) = Some frame
    \<and> Codec_decode Some frame = (Corrupted, None, 0)
    \<and> Codec_decode Some (take 4 frame) = (Corrupted, None, 0)"
proof (rule Codec_oversize_asymmetry)
  show "unat Codec_MAX_FRAME_SIZE < length (replicate 67108865 (0 :: byte))"
    "length (replicate 67108865 (0 :: byte)) \<le> UINT32_MAX"
    unfolding length_replicate by (simp_all add: UINT32_MAX_def)
qed (rule refl)

text \<open>
  C15. Splitting a byte sequence into frames does not depend on where it is cut: a stream of
  encoded messages followed by an incomplete tail yields exactly those messages, in order, and
  the tail; and the tail that stays in the input buffer is always shorter than one maximal frame.
\<close>

theorem split_frames_stream:
  assumes "\<And>m. m \<in> set ms \<Longrightarrow> ser m = Some (body m) \<and> parse (body m) = Some m
      \<and> length (body m) \<le> unat Codec_MAX_FRAME_SIZE"
    and "split_frames parse tail = ([], tail, False)"
  shows "split_frames parse (concat (map (\<lambda>m. the (Codec_encode ser m)) ms) @ tail) = (ms, tail, False)
    \<and> length tail < 4 + unat Codec_MAX_FRAME_SIZE"
proof
  show "length tail < 4 + unat Codec_MAX_FRAME_SIZE"
    using split_frames_rest_bound [OF assms(2)] by simp
  show "split_frames parse (concat (map (\<lambda>m. the (Codec_encode ser m)) ms) @ tail) = (ms, tail, False)"
    using assms(1)
  proof (induction ms)
    case Nil
    then show ?case by (simp add: assms(2))
  next
    case (Cons m ms)
    let ?f = "the (Codec_encode ser m)" and ?w = "concat (map (\<lambda>m. the (Codec_encode ser m)) ms) @ tail"
    have m: "ser m = Some (body m)" "parse (body m) = Some m" "length (body m) \<le> 67108864"
      using Cons.prems [of m] by simp_all
    have e: "Codec_encode ser m = Some ?f" "length ?f = 4 + length (body m)"
      using m by (simp_all add: Codec_encode_def UINT32_MAX_def)
    have "Codec_decode parse (?f @ ?w) = (Ok, Some m, length ?f)"
      by (rule Codec_roundtrip [OF e(1)]) (use m e(2) in simp_all)
    then show ?case using Cons by (simp add: split_frames_Ok)
  qed
qed

theorem split_frames_stream_witness:
  "split_frames Some (concat (map (\<lambda>m. the (Codec_encode Some m)) [str ''a'', str ''bc'']) @ [0, 0]) =
     ([str ''a'', str ''bc''], [0, 0], False)"
proof -
  have "length m \<le> unat Codec_MAX_FRAME_SIZE" if "m \<in> set [str ''a'', str ''bc'']" for m
    using that by auto
  then show ?thesis
    using split_frames_stream [of "[str ''a'', str ''bc'']" Some id Some "[0, 0]"]
    by (simp add: split_frames_short)
qed

end
