(* ===== verification/ErrorCodes.thy ===== *)
theory ErrorCodes
  imports LrPrelude
begin

text \<open>
  \<open>code/base/error_code/rpc_error_code.h\<close>: the error codes both sides put into
  \<open>RpcResponse.code\<close>. The enumerators are a datatype, \<open>code_value\<close> is the
  \<open>static_cast<int32_t>\<close> the code applies before it stores one in a message, and
  \<open>RpcErrorCodeToString\<close> works on any value of the underlying integer type, as the
  \<open>enum class\<close> with its \<open>default\<close> branch does.
\<close>

datatype RpcErrorCode =
    OK
  | CLIENT_REQUEST_TIMEOUT
  | CLIENT_CONNECTION_DISCONNECTED
  | CLIENT_NETWORK_ERROR
  | CLIENT_NOT_RUNNING
  | CLIENT_REQUEST_SERIALIZE_FAILED
  | CLIENT_ENCODE_FAILED
  | CLIENT_RESPONSE_PARSE_FAILED
  | SERVER_SERVICE_NOT_FOUND
  | SERVER_INTERNAL_ERROR
  | SERVER_BUSY
  | SERVER_REQUEST_PARSE_FAILED
  | SERVER_RESPONSE_SERIALIZE_FAILED
  | SERVER_SHUTTING_DOWN

fun code_value :: "RpcErrorCode \<Rightarrow> int" where
  "code_value OK = 0"
| "code_value CLIENT_REQUEST_TIMEOUT = 1001"
| "code_value CLIENT_CONNECTION_DISCONNECTED = 1002"
| "code_value CLIENT_NETWORK_ERROR = 1003"
| "code_value CLIENT_NOT_RUNNING = 1004"
| "code_value CLIENT_REQUEST_SERIALIZE_FAILED = 1005"
| "code_value CLIENT_ENCODE_FAILED = 1006"
| "code_value CLIENT_RESPONSE_PARSE_FAILED = 1007"
| "code_value SERVER_SERVICE_NOT_FOUND = 2001"
| "code_value SERVER_INTERNAL_ERROR = 2002"
| "code_value SERVER_BUSY = 2003"
| "code_value SERVER_REQUEST_PARSE_FAILED = 2004"
| "code_value SERVER_RESPONSE_SERIALIZE_FAILED = 2005"
| "code_value SERVER_SHUTTING_DOWN = 2006"

definition RpcErrorCodeToString :: "int \<Rightarrow> bytes" where
  "RpcErrorCodeToString code =
     (if code = code_value OK then str ''OK''
      else if code = code_value CLIENT_REQUEST_TIMEOUT then str ''CLIENT_REQUEST_TIMEOUT''
      else if code = code_value CLIENT_CONNECTION_DISCONNECTED then str ''CLIENT_CONNECTION_DISCONNECTED''
      else if code = code_value CLIENT_NETWORK_ERROR then str ''CLIENT_NETWORK_ERROR''
      else if code = code_value CLIENT_NOT_RUNNING then str ''CLIENT_NOT_RUNNING''
      else if code = code_value CLIENT_REQUEST_SERIALIZE_FAILED then str ''CLIENT_REQUEST_SERIALIZE_FAILED''
      else if code = code_value CLIENT_ENCODE_FAILED then str ''CLIENT_ENCODE_FAILED''
      else if code = code_value CLIENT_RESPONSE_PARSE_FAILED then str ''CLIENT_RESPONSE_PARSE_FAILED''
      else if code = code_value SERVER_SERVICE_NOT_FOUND then str ''SERVER_SERVICE_NOT_FOUND''
      else if code = code_value SERVER_INTERNAL_ERROR then str ''SERVER_INTERNAL_ERROR''
      else if code = code_value SERVER_BUSY then str ''SERVER_BUSY''
      else if code = code_value SERVER_REQUEST_PARSE_FAILED then str ''SERVER_REQUEST_PARSE_FAILED''
      else if code = code_value SERVER_RESPONSE_SERIALIZE_FAILED then str ''SERVER_RESPONSE_SERIALIZE_FAILED''
      else if code = code_value SERVER_SHUTTING_DOWN then str ''SERVER_SHUTTING_DOWN''
      else str ''UNKNOWN'')"

lemma code_value_eq_iff [simp]: "code_value a = code_value b \<longleftrightarrow> a = b"
  by (cases a; cases b) simp_all

text \<open>The enumerators are ordered by their value: success, then client, then server errors.\<close>

instantiation RpcErrorCode :: linorder
begin

definition less_eq_RpcErrorCode :: "RpcErrorCode \<Rightarrow> RpcErrorCode \<Rightarrow> bool" where
  "a \<le> b \<longleftrightarrow> code_value a \<le> code_value b"

definition less_RpcErrorCode :: "RpcErrorCode \<Rightarrow> RpcErrorCode \<Rightarrow> bool" where
  "a < b \<longleftrightarrow> code_value a < code_value b"

instance
  by standard (auto simp: less_eq_RpcErrorCode_def less_RpcErrorCode_def antisym_conv)

end

text \<open>The side an error comes from, as \<open>docs/error_code.md\<close> reads it off the value.\<close>

datatype error_side = NoError | ClientSide | ServerSide

definition side_of_value :: "int \<Rightarrow> error_side option" where
  "side_of_value c =
     (if c = 0 then Some NoError
      else if 1001 \<le> c \<and> c \<le> 1999 then Some ClientSide
      else if 2001 \<le> c \<and> c \<le> 2999 then Some ServerSide else None)"

fun side_of :: "RpcErrorCode \<Rightarrow> error_side" where
  "side_of OK = NoError"
| "side_of CLIENT_REQUEST_TIMEOUT = ClientSide"
| "side_of CLIENT_CONNECTION_DISCONNECTED = ClientSide"
| "side_of CLIENT_NETWORK_ERROR = ClientSide"
| "side_of CLIENT_NOT_RUNNING = ClientSide"
| "side_of CLIENT_REQUEST_SERIALIZE_FAILED = ClientSide"
| "side_of CLIENT_ENCODE_FAILED = ClientSide"
| "side_of CLIENT_RESPONSE_PARSE_FAILED = ClientSide"
| "side_of SERVER_SERVICE_NOT_FOUND = ServerSide"
| "side_of SERVER_INTERNAL_ERROR = ServerSide"
| "side_of SERVER_BUSY = ServerSide"
| "side_of SERVER_REQUEST_PARSE_FAILED = ServerSide"
| "side_of SERVER_RESPONSE_SERIALIZE_FAILED = ServerSide"
| "side_of SERVER_SHUTTING_DOWN = ServerSide"

text \<open>
  The error codes as the documentation promises them: the numeric value alone tells success,
  client side and server side apart, and no two codes share a value or a name; no name collides
  with the \<open>UNKNOWN\<close> of the default branch.
\<close>

theorem error_codes_classified:
  "side_of_value (code_value e) = Some (side_of e)
   \<and> (RpcErrorCodeToString (code_value e) = RpcErrorCodeToString (code_value e') \<longleftrightarrow> e = e')
   \<and> RpcErrorCodeToString (code_value e) \<noteq> str ''UNKNOWN''
   \<and> (e < e' \<longleftrightarrow> code_value e < code_value e')"
proof -
  have names: "RpcErrorCodeToString (code_value e) = RpcErrorCodeToString (code_value e') \<longleftrightarrow> e = e'"
    by (cases e; cases e') (simp_all add: RpcErrorCodeToString_def)
  show ?thesis
    unfolding names less_RpcErrorCode_def
    by (cases e) (simp_all add: side_of_value_def RpcErrorCodeToString_def)
qed

end
