(* ===== verification/RpcMessages.thy ===== *)
theory RpcMessages
  imports ErrorCodes
begin

text \<open>
  \<open>code/protocol/rpc.pb.h\<close>, \<open>code/protocol/rpc.pb.cc\<close>: the two envelope messages, their field
  accessors and the operations on whole messages. A string or bytes field is the byte sequence it
  holds (arenas, default-string sharing and cached sizes are memory management and have no
  counterpart), an \<open>int32\<close> field is an \<open>int\<close>. The fields a parser did not know are kept as their
  serialised bytes in \<open>rq_unknown\<close> and \<open>rs_unknown\<close> (\<open>_internal_metadata_\<close>), to which
  \<open>MergeFrom\<close> appends. The wire format is in \<open>RpcWire\<close>.
\<close>

section \<open>RpcRequest\<close>

record rpc_request =
  rq_service_name :: bytes
  rq_method_name :: bytes
  rq_request_id :: bytes
  rq_body :: bytes
  rq_unknown :: bytes

definition RpcRequest_new :: rpc_request where
  "RpcRequest_new = \<lparr>rq_service_name = [], rq_method_name = [], rq_request_id = [], rq_body = [],
     rq_unknown = []\<rparr>"

definition RpcRequest_set_service_name :: "bytes \<Rightarrow> rpc_request \<Rightarrow> rpc_request" where
  "RpcRequest_set_service_name v m = m\<lparr>rq_service_name := v\<rparr>"

definition RpcRequest_set_method_name :: "bytes \<Rightarrow> rpc_request \<Rightarrow> rpc_request" where
  "RpcRequest_set_method_name v m = m\<lparr>rq_method_name := v\<rparr>"

definition RpcRequest_set_request_id :: "bytes \<Rightarrow> rpc_request \<Rightarrow> rpc_request" where
  "RpcRequest_set_request_id v m = m\<lparr>rq_request_id := v\<rparr>"

definition RpcRequest_set_body :: "bytes \<Rightarrow> rpc_request \<Rightarrow> rpc_request" where
  "RpcRequest_set_body v m = m\<lparr>rq_body := v\<rparr>"

text \<open>The copy constructor takes over the unknown fields and every non-empty field.\<close>

definition RpcRequest_copy :: "rpc_request \<Rightarrow> rpc_request" where
  "RpcRequest_copy from =
     \<lparr>rq_service_name = (if rq_service_name from \<noteq> [] then rq_service_name from else []),
      rq_method_name = (if rq_method_name from \<noteq> [] then rq_method_name from else []),
      rq_request_id = (if rq_request_id from \<noteq> [] then rq_request_id from else []),
      rq_body = (if rq_body from \<noteq> [] then rq_body from else []),
      rq_unknown = [] @ rq_unknown from\<rparr>"

definition RpcRequest_Clear :: "rpc_request \<Rightarrow> rpc_request" where
  "RpcRequest_Clear m = m\<lparr>rq_service_name := [], rq_method_name := [], rq_request_id := [],
     rq_body := [], rq_unknown := []\<rparr>"

definition RpcRequest_MergeImpl :: "rpc_request \<Rightarrow> rpc_request \<Rightarrow> rpc_request" where
  "RpcRequest_MergeImpl to_msg from =
     (let m1 = (if rq_service_name from \<noteq> [] then to_msg\<lparr>rq_service_name := rq_service_name from\<rparr> else to_msg);
          m2 = (if rq_method_name from \<noteq> [] then m1\<lparr>rq_method_name := rq_method_name from\<rparr> else m1);
          m3 = (if rq_request_id from \<noteq> [] then m2\<lparr>rq_request_id := rq_request_id from\<rparr> else m2);
          m4 = (if rq_body from \<noteq> [] then m3\<lparr>rq_body := rq_body from\<rparr> else m3)
      in m4\<lparr>rq_unknown := rq_unknown m4 @ rq_unknown from\<rparr>)"

text \<open>\<open>same\<close>: whether the two references name one object.\<close>

definition RpcRequest_CopyFrom :: "bool \<Rightarrow> rpc_request \<Rightarrow> rpc_request \<Rightarrow> rpc_request" where
  "RpcRequest_CopyFrom same this from =
     (if same then this else RpcRequest_MergeImpl (RpcRequest_Clear this) from)"

definition RpcRequest_InternalSwap :: "rpc_request \<Rightarrow> rpc_request \<Rightarrow> rpc_request \<times> rpc_request" where
  "RpcRequest_InternalSwap a b =
     (a\<lparr>rq_unknown := rq_unknown b, rq_service_name := rq_service_name b,
        rq_method_name := rq_method_name b, rq_request_id := rq_request_id b, rq_body := rq_body b\<rparr>,
      b\<lparr>rq_unknown := rq_unknown a, rq_service_name := rq_service_name a,
        rq_method_name := rq_method_name a, rq_request_id := rq_request_id a, rq_body := rq_body a\<rparr>)"

text \<open>Move assignment swaps within one arena and copies across arenas.\<close>

definition RpcRequest_move_assign ::
  "bool \<Rightarrow> bool \<Rightarrow> rpc_request \<Rightarrow> rpc_request \<Rightarrow> rpc_request \<times> rpc_request" where
  "RpcRequest_move_assign same same_arena this from =
     (if same then (this, this)
      else if same_arena then RpcRequest_InternalSwap this from
      else (RpcRequest_CopyFrom False this from, from))"

section \<open>RpcResponse\<close>

record rpc_response =
  rs_request_id :: bytes
  rs_code :: int
  rs_msg :: bytes
  rs_body :: bytes
  rs_unknown :: bytes

definition RpcResponse_new :: rpc_response where
  "RpcResponse_new = \<lparr>rs_request_id = [], rs_code = 0, rs_msg = [], rs_body = [], rs_unknown = []\<rparr>"

definition RpcResponse_set_request_id :: "bytes \<Rightarrow> rpc_response \<Rightarrow> rpc_response" where
  "RpcResponse_set_request_id v m = m\<lparr>rs_request_id := v\<rparr>"

definition RpcResponse_set_code :: "int \<Rightarrow> rpc_response \<Rightarrow> rpc_response" where
  "RpcResponse_set_code v m = m\<lparr>rs_code := v\<rparr>"

definition RpcResponse_set_msg :: "bytes \<Rightarrow> rpc_response \<Rightarrow> rpc_response" where
  "RpcResponse_set_msg v m = m\<lparr>rs_msg := v\<rparr>"

definition RpcResponse_set_body :: "bytes \<Rightarrow> rpc_response \<Rightarrow> rpc_response" where
  "RpcResponse_set_body v m = m\<lparr>rs_body := v\<rparr>"

definition RpcResponse_copy :: "rpc_response \<Rightarrow> rpc_response" where
  "RpcResponse_copy from =
     \<lparr>rs_request_id = (if rs_request_id from \<noteq> [] then rs_request_id from else []),
      rs_code = rs_code from,
      rs_msg = (if rs_msg from \<noteq> [] then rs_msg from else []),
      rs_body = (if rs_body from \<noteq> [] then rs_body from else []),
      rs_unknown = [] @ rs_unknown from\<rparr>"

definition RpcResponse_Clear :: "rpc_response \<Rightarrow> rpc_response" where
  "RpcResponse_Clear m = m\<lparr>rs_request_id := [], rs_msg := [], rs_body := [], rs_code := 0,
     rs_unknown := []\<rparr>"

definition RpcResponse_MergeImpl :: "rpc_response \<Rightarrow> rpc_response \<Rightarrow> rpc_response" where
  "RpcResponse_MergeImpl to_msg from =
     (let m1 = (if rs_request_id from \<noteq> [] then to_msg\<lparr>rs_request_id := rs_request_id from\<rparr> else to_msg);
          m2 = (if rs_msg from \<noteq> [] then m1\<lparr>rs_msg := rs_msg from\<rparr> else m1);
          m3 = (if rs_body from \<noteq> [] then m2\<lparr>rs_body := rs_body from\<rparr> else m2);
          m4 = (if rs_code from \<noteq> 0 then m3\<lparr>rs_code := rs_code from\<rparr> else m3)
      in m4\<lparr>rs_unknown := rs_unknown m4 @ rs_unknown from\<rparr>)"

definition RpcResponse_CopyFrom :: "bool \<Rightarrow> rpc_response \<Rightarrow> rpc_response \<Rightarrow> rpc_response" where
  "RpcResponse_CopyFrom same this from =
     (if same then this else RpcResponse_MergeImpl (RpcResponse_Clear this) from)"

definition RpcResponse_InternalSwap :: "rpc_response \<Rightarrow> rpc_response \<Rightarrow> rpc_response \<times> rpc_response" where
  "RpcResponse_InternalSwap a b =
     (a\<lparr>rs_unknown := rs_unknown b, rs_request_id := rs_request_id b, rs_msg := rs_msg b,
        rs_body := rs_body b, rs_code := rs_code b\<rparr>,
      b\<lparr>rs_unknown := rs_unknown a, rs_request_id := rs_request_id a, rs_msg := rs_msg a,
        rs_body := rs_body a, rs_code := rs_code a\<rparr>)"

definition RpcResponse_move_assign ::
  "bool \<Rightarrow> bool \<Rightarrow> rpc_response \<Rightarrow> rpc_response \<Rightarrow> rpc_response \<times> rpc_response" where
  "RpcResponse_move_assign same same_arena this from =
     (if same then (this, this)
      else if same_arena then RpcResponse_InternalSwap this from
      else (RpcResponse_CopyFrom False this from, from))"

lemmas message_set_defs [model_defs] = RpcRequest_set_service_name_def RpcRequest_set_method_name_def
  RpcRequest_set_request_id_def RpcRequest_set_body_def RpcResponse_set_request_id_def
  RpcResponse_set_code_def RpcResponse_set_msg_def RpcResponse_set_body_def

section \<open>The contract of whole-message operations\<close>

text \<open>
  Callers treat a message as a value: copying gives an equal message, merging into a cleared
  message is copying, merging is associative and a cleared message is its unit.
\<close>

locale message_value =
  fixes new :: 'm and copy :: "'m \<Rightarrow> 'm" and clear :: "'m \<Rightarrow> 'm"
    and merge :: "'m \<Rightarrow> 'm \<Rightarrow> 'm" and copy_from :: "bool \<Rightarrow> 'm \<Rightarrow> 'm \<Rightarrow> 'm"
    and swap :: "'m \<Rightarrow> 'm \<Rightarrow> 'm \<times> 'm"
  assumes copy_id: "copy m = m"
    and clear_new: "clear m = new"
    and merge_new_left: "merge new m = m"
    and merge_new_right: "merge m new = m"
    and merge_assoc: "merge (merge a b) c = merge a (merge b c)"
    and copy_from_eq: "copy_from same a b = (if same then a else merge (clear a) b)"
    and swap_eq: "swap a b = (b, a)"
begin

lemma copy_from_value: "copy_from False a b = b"
  by (simp add: copy_from_eq clear_new merge_new_left)

lemma merge_after_clear: "merge (clear a) b = copy b"
  by (simp add: clear_new merge_new_left copy_id)

end

interpretation req: message_value RpcRequest_new RpcRequest_copy RpcRequest_Clear
  RpcRequest_MergeImpl RpcRequest_CopyFrom RpcRequest_InternalSwap
  by unfold_locales
    (simp_all add: RpcRequest_new_def RpcRequest_copy_def RpcRequest_Clear_def
      RpcRequest_MergeImpl_def RpcRequest_CopyFrom_def RpcRequest_InternalSwap_def Let_def)

interpretation resp: message_value RpcResponse_new RpcResponse_copy RpcResponse_Clear
  RpcResponse_MergeImpl RpcResponse_CopyFrom RpcResponse_InternalSwap
  by unfold_locales
    (simp_all add: RpcResponse_new_def RpcResponse_copy_def RpcResponse_Clear_def
      RpcResponse_MergeImpl_def RpcResponse_CopyFrom_def RpcResponse_InternalSwap_def Let_def)

text \<open>
  The generated messages behave as values: the copy constructor, copy assignment from another
  object and both forms of move assignment leave the target equal to the source, whatever the
  target held before (no field survives), and merging is associative with the empty message as
  its unit.
\<close>

theorem messages_are_values:
  "RpcRequest_copy q = q \<and> RpcRequest_CopyFrom False q' q = q
   \<and> fst (RpcRequest_move_assign False arena q' q) = q
   \<and> RpcRequest_MergeImpl (RpcRequest_MergeImpl q q') q'' =
       RpcRequest_MergeImpl q (RpcRequest_MergeImpl q' q'')
   \<and> RpcRequest_MergeImpl RpcRequest_new q = q
   \<and> RpcResponse_copy p = p \<and> RpcResponse_CopyFrom False p' p = p
   \<and> fst (RpcResponse_move_assign False arena p' p) = p
   \<and> RpcResponse_MergeImpl (RpcResponse_MergeImpl p p') p'' =
       RpcResponse_MergeImpl p (RpcResponse_MergeImpl p' p'')
   \<and> RpcResponse_MergeImpl RpcResponse_new p = p"
  by (simp add: req.copy_id req.copy_from_value req.merge_assoc req.merge_new_left req.swap_eq
      resp.copy_id resp.copy_from_value resp.merge_assoc resp.merge_new_left resp.swap_eq
      RpcRequest_move_assign_def RpcResponse_move_assign_def)

end
