(* ===== verification/RpcServiceModel.thy ===== *)
theory RpcServiceModel
  imports RpcMessages
begin

text \<open>
  \<open>code/rpc/rpc_service\<close>: the registry of service methods and the dispatch of one request, and
  the typed handler wrapper of \<open>RpcServer::Register\<close> that is stored in it.

  A \<open>ServiceCallback\<close> is a function of the request, the response it may fill in and the state
  \<open>'w\<close> of the application; besides the new response and state it says how it ended: normally,
  with an exception derived from \<open>std::exception\<close> (and its \<open>what()\<close>), or with any other
  exception. An empty \<open>std::function\<close> is \<open>None\<close>; calling one throws \<open>std::bad_function_call\<close>.
  The registry is an association list with distinct keys (an \<open>unordered_map\<close>, whose order the
  code never uses). The mutex makes each lookup and each insertion one step.
\<close>

section \<open>The registry\<close>

datatype cb_outcome = Returned | Threw_std bytes | Threw_other

type_synonym 'w service_callback =
  "(rpc_request \<Rightarrow> rpc_response \<Rightarrow> 'w \<Rightarrow> cb_outcome \<times> rpc_response \<times> 'w) option"

record 'w rpc_service =
  methods :: "(bytes \<times> 'w service_callback) list"

definition RpcService_new :: "'w rpc_service" where
  "RpcService_new = \<lparr>methods = []\<rparr>"

definition RpcService_MakeMethodKey :: "bytes \<Rightarrow> bytes \<Rightarrow> bytes" where
  "RpcService_MakeMethodKey service_name method_name = service_name @ str ''.'' @ method_name"

definition RpcService_RegisterMethod ::
  "bytes \<Rightarrow> bytes \<Rightarrow> 'w service_callback \<Rightarrow> 'w rpc_service \<Rightarrow> 'w rpc_service" where
  "RpcService_RegisterMethod service_name method_name callback svc =
     svc\<lparr>methods := AList.update (RpcService_MakeMethodKey service_name method_name) callback (methods svc)\<rparr>"

definition RpcService_HasService :: "bytes \<Rightarrow> bytes \<Rightarrow> 'w rpc_service \<Rightarrow> bool" where
  "RpcService_HasService service_name method_name svc =
     (map_of (methods svc) (RpcService_MakeMethodKey service_name method_name) \<noteq> None)"

definition RpcService_ServiceCount :: "'w rpc_service \<Rightarrow> nat" where
  "RpcService_ServiceCount svc = length (methods svc)"

section \<open>Dispatch\<close>

text \<open>
  \<open>Invoke\<close> returns a boolean, or lets an exception through that is not a \<open>std::exception\<close>. What
  \<open>std::bad_function_call::what()\<close> says is up to the implementation: \<open>bad_call_msg\<close>.
\<close>

datatype invoke_result = Invoke_returned bool | Invoke_propagated

definition call_service_callback ::
  "bytes \<Rightarrow> 'w service_callback \<Rightarrow> rpc_request \<Rightarrow> rpc_response \<Rightarrow> 'w \<Rightarrow>
     cb_outcome \<times> rpc_response \<times> 'w" where
  "call_service_callback bad_call_msg cb request response w =
     (case cb of None \<Rightarrow> (Threw_std bad_call_msg, response, w) | Some f \<Rightarrow> f request response w)"

definition RpcService_Invoke ::
  "bytes \<Rightarrow> 'w rpc_service \<Rightarrow> rpc_request \<Rightarrow> rpc_response \<Rightarrow> 'w \<Rightarrow>
     invoke_result \<times> rpc_response \<times> 'w" where
  "RpcService_Invoke bad_call_msg svc request response w =
     (let key = RpcService_MakeMethodKey (rq_service_name request) (rq_method_name request) in
      case map_of (methods svc) key of
        None \<Rightarrow>
          (Invoke_returned False,
           response\<lparr>rs_code := code_value SERVER_SERVICE_NOT_FOUND,
             rs_msg := str ''Service not found: '' @ key,
             rs_request_id := rq_request_id request\<rparr>, w)
      | Some target_cb \<Rightarrow>
          (case call_service_callback bad_call_msg target_cb request response w of
             (Returned, response', w') \<Rightarrow>
               (Invoke_returned True, response'\<lparr>rs_request_id := rq_request_id request\<rparr>, w')
           | (Threw_std what, response', w') \<Rightarrow>
               (Invoke_returned False,
                response'\<lparr>rs_code := code_value SERVER_INTERNAL_ERROR, rs_msg := what,
                  rs_request_id := rq_request_id request\<rparr>, w')
           | (Threw_other, response', w') \<Rightarrow> (Invoke_propagated, response', w')))"

section \<open>Typed handlers\<close>

text \<open>
  \<open>RpcServer::Register<ReqT, RspT>\<close> stores a wrapper around the typed handler \<open>h\<close>. The parser of
  \<open>ReqT\<close> and the serialiser of \<open>RspT\<close> are arguments, \<open>rsp_new\<close> is a fresh \<open>RspT\<close>, and the
  handler, too, may throw. An empty handler throws \<open>std::bad_function_call\<close> when called.
\<close>

type_synonym ('req, 'rsp, 'w) typed_handler = "('req \<Rightarrow> 'rsp \<Rightarrow> 'w \<Rightarrow> cb_outcome \<times> 'rsp \<times> 'w) option"

definition RpcServer_Register_wrapper ::
  "bytes \<Rightarrow> (bytes \<Rightarrow> 'req option) \<Rightarrow> 'rsp \<Rightarrow> ('rsp \<Rightarrow> bytes option) \<Rightarrow>
     ('req, 'rsp, 'w) typed_handler \<Rightarrow> 'w service_callback" where
  "RpcServer_Register_wrapper bad_call_msg parse_req rsp_new serialize_rsp h =
     Some (\<lambda>req resp w.
       let resp1 = resp\<lparr>rs_request_id := rq_request_id req\<rparr> in
       case parse_req (rq_body req) of
         None \<Rightarrow>
           (Returned, resp1\<lparr>rs_code := code_value SERVER_REQUEST_PARSE_FAILED,
              rs_msg := str ''Failed to parse request body''\<rparr>, w)
       | Some request \<Rightarrow>
           (case (case h of None \<Rightarrow> (Threw_std bad_call_msg, rsp_new, w) | Some f \<Rightarrow> f request rsp_new w) of
              (Returned, response, w') \<Rightarrow>
                (case serialize_rsp response of
                   None \<Rightarrow>
                     (Returned, resp1\<lparr>rs_code := code_value SERVER_RESPONSE_SERIALIZE_FAILED,
                        rs_msg := str ''Failed to serialize response body''\<rparr>, w')
                 | Some out \<Rightarrow>
                     (Returned, resp1\<lparr>rs_code := code_value OK, rs_msg := str ''success'',
                        rs_body := out\<rparr>, w'))
            | (ex, _, w') \<Rightarrow> (ex, resp1, w')))"

definition RpcServer_RegisterRaw ::
  "bytes \<Rightarrow> bytes \<Rightarrow> 'w service_callback \<Rightarrow> 'w rpc_service \<Rightarrow> 'w rpc_service" where
  "RpcServer_RegisterRaw service_name method_name callback service =
     RpcService_RegisterMethod service_name method_name callback service"

definition RpcServer_Register ::
  "bytes \<Rightarrow> (bytes \<Rightarrow> 'req option) \<Rightarrow> 'rsp \<Rightarrow> ('rsp \<Rightarrow> bytes option) \<Rightarrow> bytes \<Rightarrow> bytes \<Rightarrow>
     ('req, 'rsp, 'w) typed_handler \<Rightarrow> 'w rpc_service \<Rightarrow> 'w rpc_service" where
  "RpcServer_Register bad_call_msg parse_req rsp_new serialize_rsp service_name method_name h service =
     RpcServer_RegisterRaw service_name method_name
       (RpcServer_Register_wrapper bad_call_msg parse_req rsp_new serialize_rsp h) service"

section \<open>Lemmas\<close>

definition wf_service :: "'w rpc_service \<Rightarrow> bool" where
  "wf_service svc \<longleftrightarrow> distinct (map fst (methods svc))"

lemma wf_service_new [simp, inv_intros]: "wf_service RpcService_new"
  by (simp add: wf_service_def RpcService_new_def)

lemma wf_service_Register [simp, inv_intros]:
  "wf_service svc \<Longrightarrow> wf_service (RpcService_RegisterMethod s m cb svc)"
  by (simp add: wf_service_def RpcService_RegisterMethod_def distinct_update)

lemma lookup_Register [simp]:
  "map_of (methods (RpcService_RegisterMethod s m cb svc)) =
     (map_of (methods svc))(RpcService_MakeMethodKey s m \<mapsto> cb)"
  by (simp add: RpcService_RegisterMethod_def update_conv')

text \<open>
  Two method names give one key exactly when they split the same dotted string differently; with
  no dot in either method name the split is unique.
\<close>

lemma append_sep_eq:
  assumes "x \<notin> set b" and "x \<notin> set d"
  shows "a @ x # b = c @ x # d \<longleftrightarrow> a = c \<and> b = d"
proof
  assume "a @ x # b = c @ x # d"
  then have eq: "rev b @ x # rev a = rev d @ x # rev c"
    by (drule_tac f = rev in arg_cong) simp
  have "takeWhile (\<lambda>y. y \<noteq> x) (rev l @ x # r) = rev l" if "x \<notin> set l" for l r
    using that by (subst takeWhile_append2) auto
  from this [OF assms(1)] this [OF assms(2)] have "rev b = rev d"
    using eq by metis
  with eq show "a = c \<and> b = d" by simp
qed simp

definition dot :: byte where
  "dot = hd (str ''.'')"

lemma str_dot: "str ''.'' = [dot]"
  by (simp add: dot_def str_def)

lemma MakeMethodKey_inj:
  assumes "dot \<notin> set m" and "dot \<notin> set m'"
  shows "RpcService_MakeMethodKey s m = RpcService_MakeMethodKey s' m' \<longleftrightarrow> s = s' \<and> m = m'"
  using append_sep_eq [OF assms, of s s'] by (simp add: RpcService_MakeMethodKey_def str_dot)

lemma MakeMethodKey_collision:
  "RpcService_MakeMethodKey (a @ str ''.'' @ b) c = RpcService_MakeMethodKey a (b @ str ''.'' @ c)"
  by (simp add: RpcService_MakeMethodKey_def)

lemma length_update: "length (AList.update k v al) = (if k \<in> fst ` set al then length al else Suc (length al))"
  by (induction al) auto

section \<open>Properties\<close>

text \<open>
  The registry is a map from service and method to the callback registered last: after a
  registration that method is found, with names that contain no dot every other method answers as
  before, and the number of services grows by one exactly when the key is new.
\<close>

theorem RegisterMethod_spec:
  fixes s m s' m' :: bytes and cb :: "'w service_callback" and svc :: "'w rpc_service"
  assumes "wf_service svc" and "dot \<notin> set m" and "dot \<notin> set m'"
  defines "svc' \<equiv> RpcService_RegisterMethod s m cb svc"
  shows "wf_service svc'
    \<and> map_of (methods svc') (RpcService_MakeMethodKey s m) = Some cb
    \<and> RpcService_HasService s' m' svc' = ((s', m') = (s, m) \<or> RpcService_HasService s' m' svc)
    \<and> ((s', m') = (s, m) \<or>
        map_of (methods svc') (RpcService_MakeMethodKey s' m') =
        map_of (methods svc) (RpcService_MakeMethodKey s' m'))
    \<and> RpcService_ServiceCount svc' =
        RpcService_ServiceCount svc + (if RpcService_HasService s m svc then 0 else 1)"
proof -
  have "RpcService_HasService s m svc \<longleftrightarrow>
      RpcService_MakeMethodKey s m \<in> fst ` set (methods svc)"
    by (simp add: RpcService_HasService_def map_of_eq_None_iff)
  then have "RpcService_ServiceCount svc' =
      RpcService_ServiceCount svc + (if RpcService_HasService s m svc then 0 else 1)"
    by (simp add: svc'_def RpcService_ServiceCount_def RpcService_RegisterMethod_def length_update)
  moreover have "RpcService_MakeMethodKey s' m' = RpcService_MakeMethodKey s m \<longleftrightarrow> (s', m') = (s, m)"
    using MakeMethodKey_inj [OF assms(3,2)] by simp
  ultimately show ?thesis
    using assms(1) by (auto simp: svc'_def RpcService_HasService_def)
qed

theorem RegisterMethod_spec_witness:
  "RpcService_HasService (str ''User'') (str ''Get'')
     (RpcService_RegisterMethod (str ''User'') (str ''Get'') (None :: unit service_callback) RpcService_new)"
proof -
  have "dot \<notin> set (str ''Get'')"
    by (simp add: dot_def str_def of_char_byte_inj)
  from RegisterMethod_spec [OF wf_service_new this this] show ?thesis by blast
qed

text \<open>
  Names with dots collide: \<open>Register("a.b", "c", g)\<close> silently replaces the callback of
  \<open>("a", "b.c")\<close>, which then answers with \<open>g\<close> although it was never registered for it, and the
  number of services does not grow.
\<close>

theorem dotted_names_collide:
  "RpcService_Invoke bad (RpcService_RegisterMethod (a @ str ''.'' @ b) c g
        (RpcService_RegisterMethod a (b @ str ''.'' @ c) f svc))
      (RpcRequest_new\<lparr>rq_service_name := a, rq_method_name := b @ str ''.'' @ c\<rparr>) resp w =
    RpcService_Invoke bad (RpcService_RegisterMethod a (b @ str ''.'' @ c) g svc)
      (RpcRequest_new\<lparr>rq_service_name := a, rq_method_name := b @ str ''.'' @ c\<rparr>) resp w
   \<and> RpcService_ServiceCount (RpcService_RegisterMethod (a @ str ''.'' @ b) c g
        (RpcService_RegisterMethod a (b @ str ''.'' @ c) f svc)) =
     RpcService_ServiceCount (RpcService_RegisterMethod a (b @ str ''.'' @ c) f svc)"
proof -
  have key: "RpcService_MakeMethodKey (a @ str ''.'' @ b) c = RpcService_MakeMethodKey a (b @ str ''.'' @ c)"
    by (rule MakeMethodKey_collision)
  show ?thesis
    unfolding RpcService_Invoke_def lookup_Register key RpcService_ServiceCount_def
      RpcService_RegisterMethod_def
    by (simp add: length_update dom_update Let_def)
qed

text \<open>
  Dispatch, on every branch: an unknown method gives \<open>SERVER_SERVICE_NOT_FOUND\<close> without
  running anything; a callback that returns keeps its response; one that throws a
  \<open>std::exception\<close> gives \<open>SERVER_INTERNAL_ERROR\<close> with its message, but keeps the body it had
  written; and in each of these cases the response carries the id of the request. Any other
  exception leaves \<open>Invoke\<close> and no response is made.
\<close>

theorem Invoke_spec:
  fixes svc :: "'w rpc_service" and req resp bad w
  defines "res \<equiv> RpcService_Invoke bad svc req resp w"
    and "found \<equiv> map_of (methods svc)
      (RpcService_MakeMethodKey (rq_service_name req) (rq_method_name req))"
  shows "(found = None \<longrightarrow> fst res = Invoke_returned False \<and> snd (snd res) = w
        \<and> rs_code (fst (snd res)) = code_value SERVER_SERVICE_NOT_FOUND)
    \<and> (\<forall>cb out resp' w'. found = Some cb \<and> call_service_callback bad cb req resp w = (out, resp', w') \<longrightarrow>
        snd (snd res) = w' \<and> rs_body (fst (snd res)) = rs_body resp'
        \<and> (case out of
             Returned \<Rightarrow> fst res = Invoke_returned True \<and> rs_code (fst (snd res)) = rs_code resp'
                \<and> rs_msg (fst (snd res)) = rs_msg resp'
           | Threw_std what \<Rightarrow> fst res = Invoke_returned False
                \<and> rs_code (fst (snd res)) = code_value SERVER_INTERNAL_ERROR \<and> rs_msg (fst (snd res)) = what
           | Threw_other \<Rightarrow> fst res = Invoke_propagated))
    \<and> (fst res \<noteq> Invoke_propagated \<longrightarrow> rs_request_id (fst (snd res)) = rq_request_id req)"
  unfolding res_def found_def RpcService_Invoke_def Let_def
  by (auto split: option.splits prod.splits cb_outcome.splits)

theorem Invoke_spec_witness:
  "rs_code (fst (snd (RpcService_Invoke [] (RpcService_new :: unit rpc_service) RpcRequest_new
      RpcResponse_new ()))) = code_value SERVER_SERVICE_NOT_FOUND"
proof -
  have "map_of (methods (RpcService_new :: unit rpc_service))
      (RpcService_MakeMethodKey (rq_service_name RpcRequest_new) (rq_method_name RpcRequest_new)) = None"
    by (simp add: RpcService_new_def)
  then show ?thesis
    using conjunct1 [OF Invoke_spec [of "RpcService_new :: unit rpc_service" RpcRequest_new "[]" RpcResponse_new "()"]]
    by blast
qed

text \<open>
  A typed handler registered with \<open>Register\<close> and called through \<open>Invoke\<close>: a request body
  that does not parse is answered with \<open>SERVER_REQUEST_PARSE_FAILED\<close> and the handler does not run
  (the application state is unchanged); a result that does not serialise with
  \<open>SERVER_RESPONSE_SERIALIZE_FAILED\<close>; a \<open>std::exception\<close> with \<open>SERVER_INTERNAL_ERROR\<close>; otherwise
  the answer is \<open>OK\<close> with the serialised result. Every answer carries the request's id.
\<close>

theorem Register_typed_spec:
  fixes svc :: "'w rpc_service" and s m bad parse_req rsp_new ser f
  defines "svc' \<equiv> RpcServer_Register bad parse_req rsp_new ser s m (Some f) svc"
  assumes "rq_service_name req = s" and "rq_method_name req = m"
  shows "(parse_req (rq_body req) = None \<longrightarrow>
      RpcService_Invoke bad svc' req RpcResponse_new w = (Invoke_returned True,
        RpcResponse_new\<lparr>rs_request_id := rq_request_id req, rs_code := code_value SERVER_REQUEST_PARSE_FAILED,
          rs_msg := str ''Failed to parse request body''\<rparr>, w))
    \<and> (\<forall>r rsp w'. parse_req (rq_body req) = Some r \<and> f r rsp_new w = (Returned, rsp, w') \<longrightarrow>
      RpcService_Invoke bad svc' req RpcResponse_new w = (Invoke_returned True,
        (case ser rsp of
           Some out \<Rightarrow> RpcResponse_new\<lparr>rs_request_id := rq_request_id req, rs_code := code_value OK,
             rs_msg := str ''success'', rs_body := out\<rparr>
         | None \<Rightarrow> RpcResponse_new\<lparr>rs_request_id := rq_request_id req,
             rs_code := code_value SERVER_RESPONSE_SERIALIZE_FAILED,
             rs_msg := str ''Failed to serialize response body''\<rparr>), w'))
    \<and> (\<forall>r what rsp w'. parse_req (rq_body req) = Some r \<and> f r rsp_new w = (Threw_std what, rsp, w') \<longrightarrow>
      RpcService_Invoke bad svc' req RpcResponse_new w = (Invoke_returned False,
        RpcResponse_new\<lparr>rs_request_id := rq_request_id req, rs_code := code_value SERVER_INTERNAL_ERROR,
          rs_msg := what\<rparr>, w'))"
proof -
  have look: "map_of (methods svc') (RpcService_MakeMethodKey (rq_service_name req) (rq_method_name req)) =
      Some (RpcServer_Register_wrapper bad parse_req rsp_new ser (Some f))"
    using assms(2,3) by (simp add: svc'_def RpcServer_Register_def RpcServer_RegisterRaw_def)
  show ?thesis
    by (auto simp: RpcService_Invoke_def look call_service_callback_def RpcServer_Register_wrapper_def
        Let_def split: option.splits)
qed

theorem Register_typed_spec_witness:
  "RpcService_Invoke [] (RpcServer_Register [] Some [] Some [1] [2] (Some (\<lambda>r _ w. (Returned, rev r, Suc w)))
      RpcService_new) (RpcRequest_new\<lparr>rq_service_name := [1], rq_method_name := [2], rq_body := [7, 8]\<rparr>)
      RpcResponse_new 0 =
    (Invoke_returned True, RpcResponse_new\<lparr>rs_request_id := [], rs_code := 0, rs_msg := str ''success'',
       rs_body := [8, 7]\<rparr>, Suc 0)"
proof -
  let ?f = "\<lambda>r _ w. (Returned, rev r, Suc w)"
  let ?req = "RpcRequest_new\<lparr>rq_service_name := [1], rq_method_name := [2], rq_body := [7, 8]\<rparr>"
  have names: "rq_service_name ?req = [1]" "rq_method_name ?req = [2]" by simp_all
  show ?thesis
    using conjunct1 [OF conjunct2 [OF Register_typed_spec [OF names, where parse_req = Some and rsp_new = "[]"
          and ser = Some and f = ?f and svc = RpcService_new and w = 0 and bad = "[]"]]]
    by (simp add: RpcRequest_new_def)
qed

end
