(* ===== verification/ThreadPoolModel.thy ===== *)
theory ThreadPoolModel
  imports LrPrelude "HOL-Library.Multiset"
begin

text \<open>
  \<open>code/base/pool/threadpool.h\<close>: the worker threads that run the service handlers.

  The record \<open>pool\<close> holds the shared fields of \<open>ThreadPool::Pool\<close>; \<open>AddTask\<close>, \<open>TryAddTask\<close> and
  the two critical sections of a worker are functions on it. The threads are an interleaving step
  relation: a worker is about to take the lock, blocked on \<open>cond\<close>, running a task, or has
  returned; a caller of \<open>WaitForTasks\<close> is about to check, blocked on \<open>condEmpty\<close>, or has
  returned. Condition variables are modelled with their notifications, which are sent after the
  lock is released, and with spurious wake-ups, so that a lost wake-up would be a reachable state.
  Workers and waiters are anonymous, so both are multisets. A task that throws ends like one
  that returns (both \<open>catch\<close> clauses are empty).
\<close>

section \<open>The shared state and its critical sections\<close>

record 'j pool =
  isClosed :: bool
  tasks :: "'j list"
  activeTasks :: nat
  maxQueueSize :: nat

definition ThreadPool_new :: "nat \<Rightarrow> 'j pool" where
  "ThreadPool_new maxQueue = \<lparr>isClosed = False, tasks = [], activeTasks = 0, maxQueueSize = maxQueue\<rparr>"

datatype pool_error = Pool_is_closed | Queue_full

definition ThreadPool_AddTask :: "'j \<Rightarrow> 'j pool \<Rightarrow> pool_error + 'j pool" where
  "ThreadPool_AddTask task p =
     (if isClosed p then Inl Pool_is_closed
      else if maxQueueSize p \<le> length (tasks p) then Inl Queue_full
      else Inr (p\<lparr>tasks := tasks p @ [task]\<rparr>))"

definition ThreadPool_TryAddTask :: "'j \<Rightarrow> 'j pool \<Rightarrow> bool \<times> 'j pool" where
  "ThreadPool_TryAddTask task p =
     (if isClosed p then (False, p)
      else if maxQueueSize p \<le> length (tasks p) then (False, p)
      else (True, p\<lparr>tasks := tasks p @ [task]\<rparr>))"

text \<open>
  A worker under the lock: the predicate of its wait is \<open>isClosed || !tasks.empty()\<close>; it returns
  when the pool is closed and drained, and otherwise takes the front task.
\<close>

datatype 'j worker_action = Worker_waits | Worker_returns | Worker_runs 'j "'j pool"

definition ThreadPool_worker_lock :: "'j pool \<Rightarrow> 'j worker_action" where
  "ThreadPool_worker_lock p =
     (if \<not> (isClosed p \<or> tasks p \<noteq> []) then Worker_waits
      else case tasks p of
        [] \<Rightarrow> Worker_returns
      | task # rest \<Rightarrow> Worker_runs task (p\<lparr>tasks := rest, activeTasks := activeTasks p + 1\<rparr>))"

text \<open>After the task: the counter goes down, and \<open>condEmpty\<close> is notified when all is done.\<close>

definition ThreadPool_worker_done :: "'j pool \<Rightarrow> bool \<times> 'j pool" where
  "ThreadPool_worker_done p =
     (let p' = p\<lparr>activeTasks := activeTasks p - 1\<rparr>
      in (activeTasks p' = 0 \<and> tasks p' = [], p'))"

definition ThreadPool_WaitForTasks_pred :: "'j pool \<Rightarrow> bool" where
  "ThreadPool_WaitForTasks_pred p \<longleftrightarrow> tasks p = [] \<and> activeTasks p = 0"

definition ThreadPool_close :: "'j pool \<Rightarrow> 'j pool" where
  "ThreadPool_close p = p\<lparr>isClosed := True\<rparr>"

section \<open>Threads\<close>

datatype 'j worker = WReady | WBlocked | WRunning 'j | WReturned

datatype waiter = Checking | WaitBlocked | WaitReturned

text \<open>
  \<open>to_notify\<close> counts the submitters that have released the lock and not yet called
  \<open>cond.notify_one\<close>; \<open>to_notify_all\<close> is the same for the destructor. \<open>accepted\<close>, \<open>started\<close> and
  \<open>finished\<close> record history: the tasks accepted and started, in order, and the ones completed.
\<close>

record 'j pool_sys =
  shared :: "'j pool"
  workers :: "'j worker multiset"
  waiters :: "waiter multiset"
  to_notify :: nat
  to_notify_all :: bool
  accepted :: "'j list"
  started :: "'j list"
  finished :: "'j multiset"

definition pool_init :: "nat \<Rightarrow> nat \<Rightarrow> 'j pool_sys" where
  "pool_init threadCount maxQueue =
     \<lparr>shared = ThreadPool_new maxQueue, workers = replicate_mset threadCount WReady, waiters = {#},
      to_notify = 0, to_notify_all = False, accepted = [], started = [], finished = {#}\<rparr>"

inductive pool_step :: "'j pool_sys \<Rightarrow> 'j pool_sys \<Rightarrow> bool" where
  submit: "ThreadPool_TryAddTask j (shared s) = (True, p) \<Longrightarrow>
     pool_step s (s\<lparr>shared := p, to_notify := to_notify s + 1, accepted := accepted s @ [j]\<rparr>)"
| notify_blocked: "to_notify s = Suc n \<Longrightarrow> workers s = add_mset WBlocked ws \<Longrightarrow>
     pool_step s (s\<lparr>to_notify := n, workers := add_mset WReady ws\<rparr>)"
| notify_nobody: "to_notify s = Suc n \<Longrightarrow> WBlocked \<notin># workers s \<Longrightarrow>
     pool_step s (s\<lparr>to_notify := n\<rparr>)"
| spurious: "workers s = add_mset WBlocked ws \<Longrightarrow>
     pool_step s (s\<lparr>workers := add_mset WReady ws\<rparr>)"
| block: "workers s = add_mset WReady ws \<Longrightarrow> ThreadPool_worker_lock (shared s) = Worker_waits \<Longrightarrow>
     pool_step s (s\<lparr>workers := add_mset WBlocked ws\<rparr>)"
| return: "workers s = add_mset WReady ws \<Longrightarrow> ThreadPool_worker_lock (shared s) = Worker_returns \<Longrightarrow>
     pool_step s (s\<lparr>workers := add_mset WReturned ws\<rparr>)"
| start: "workers s = add_mset WReady ws \<Longrightarrow> ThreadPool_worker_lock (shared s) = Worker_runs j p \<Longrightarrow>
     pool_step s (s\<lparr>workers := add_mset (WRunning j) ws, shared := p, started := started s @ [j]\<rparr>)"
| finish: "workers s = add_mset (WRunning j) ws \<Longrightarrow> ThreadPool_worker_done (shared s) = (notify, p) \<Longrightarrow>
     pool_step s (s\<lparr>workers := add_mset WReady ws, shared := p, finished := add_mset j (finished s),
       waiters := (if notify then image_mset (\<lambda>w. if w = WaitBlocked then Checking else w) (waiters s)
                   else waiters s)\<rparr>)"
| wait_call: "pool_step s (s\<lparr>waiters := add_mset Checking (waiters s)\<rparr>)"
| wait_block: "waiters s = add_mset Checking us \<Longrightarrow> \<not> ThreadPool_WaitForTasks_pred (shared s) \<Longrightarrow>
     pool_step s (s\<lparr>waiters := add_mset WaitBlocked us\<rparr>)"
| wait_spurious: "waiters s = add_mset WaitBlocked us \<Longrightarrow>
     pool_step s (s\<lparr>waiters := add_mset Checking us\<rparr>)"
| wait_return: "waiters s = add_mset Checking us \<Longrightarrow> ThreadPool_WaitForTasks_pred (shared s) \<Longrightarrow>
     pool_step s (s\<lparr>waiters := add_mset WaitReturned us\<rparr>)"
| close: "\<not> isClosed (shared s) \<Longrightarrow>
     pool_step s (s\<lparr>shared := ThreadPool_close (shared s), to_notify_all := True\<rparr>)"
| notify_all: "to_notify_all s \<Longrightarrow>
     pool_step s (s\<lparr>to_notify_all := False,
       workers := image_mset (\<lambda>w. if w = WBlocked then WReady else w) (workers s)\<rparr>)"

inductive pool_reachable :: "nat \<Rightarrow> nat \<Rightarrow> 'j pool_sys \<Rightarrow> bool" for n q where
  init: "pool_reachable n q (pool_init n q)"
| step: "pool_reachable n q s \<Longrightarrow> pool_step s t \<Longrightarrow> pool_reachable n q t"

section \<open>Invariant\<close>

fun task_of :: "'j worker \<Rightarrow> 'j multiset" where
  "task_of (WRunning j) = {#j#}"
| "task_of WReady = {#}"
| "task_of WBlocked = {#}"
| "task_of WReturned = {#}"

definition running_in :: "'j worker multiset \<Rightarrow> 'j multiset" where
  "running_in ws = sum_mset (image_mset task_of ws)"

abbreviation running :: "'j pool_sys \<Rightarrow> 'j multiset" where
  "running s \<equiv> running_in (workers s)"

lemma running_in_simps [simp]:
  "running_in {#} = {#}"
  "running_in (add_mset w ws) = task_of w + running_in ws"
  by (simp_all add: running_in_def)

lemma running_in_wake [simp]:
  "running_in (image_mset (\<lambda>w. if w = WBlocked then WReady else w) ws) = running_in ws"
  by (induction ws) auto

lemma running_in_idle [simp]: "running_in (replicate_mset n WReady) = {#}"
  by (induction n) auto

definition awake :: "'j pool_sys \<Rightarrow> bool" where
  "awake s \<longleftrightarrow> WReady \<in># workers s \<or> running s \<noteq> {#}"

text \<open>
  The counters agree with the threads, the queue holds exactly the accepted tasks that have not
  started, in order, and nobody sleeps while there is something to wake up for: with a non-empty
  queue some worker is awake or a notification is on its way, and with a closed pool no worker
  blocks once the destructor has notified.
\<close>

definition pool_inv :: "nat \<Rightarrow> nat \<Rightarrow> 'j pool_sys \<Rightarrow> bool" where
  "pool_inv n q s \<longleftrightarrow>
     size (workers s) = n \<and> maxQueueSize (shared s) = q \<and>
     activeTasks (shared s) = size (running s) \<and>
     length (tasks (shared s)) \<le> q \<and>
     accepted s = started s @ tasks (shared s) \<and>
     mset (started s) = finished s + running s \<and>
     (tasks (shared s) \<noteq> [] \<and> 0 < n \<longrightarrow> awake s \<or> 0 < to_notify s) \<and>
     (isClosed (shared s) \<and> \<not> to_notify_all s \<longrightarrow> WBlocked \<notin># workers s) \<and>
     (WReturned \<in># workers s \<longrightarrow> isClosed (shared s) \<and> tasks (shared s) = []) \<and>
     (to_notify_all s \<longrightarrow> isClosed (shared s)) \<and>
     (WaitBlocked \<in># waiters s \<longrightarrow> \<not> ThreadPool_WaitForTasks_pred (shared s))"

lemmas pool_defs [model_defs] = ThreadPool_TryAddTask_def ThreadPool_worker_lock_def
  ThreadPool_worker_done_def ThreadPool_WaitForTasks_pred_def ThreadPool_close_def

lemma pool_inv_init: "pool_inv n q (pool_init n q)"
  by (cases n) (simp_all add: pool_inv_def pool_init_def ThreadPool_new_def)

text \<open>Every worker is awake, blocked or has returned.\<close>

lemma awake_cases:
  assumes "workers s \<noteq> {#}" and "\<not> awake s"
  shows "WBlocked \<in># workers s \<or> WReturned \<in># workers s"
proof -
  obtain w where w: "w \<in># workers s" using assms(1) by blast
  show ?thesis
  proof (cases w)
    case (WRunning j)
    then have "j \<in># running s" using w by (auto dest!: multi_member_split)
    then show ?thesis using assms(2) by (auto simp: awake_def)
  qed (use w assms(2) in \<open>auto simp: awake_def\<close>)
qed

lemma pool_step_inv:
  assumes "pool_step s t" and "pool_inv n q s"
  shows "pool_inv n q t"
  using assms
proof (cases rule: pool_step.cases)
  case (submit j p)
  then show ?thesis using assms(2)
    by (auto simp: pool_inv_def pool_defs split: if_splits)
next
  case (notify_blocked k ws)
  then show ?thesis using assms(2)
    by (auto simp: pool_inv_def pool_defs awake_def)
next
  case (notify_nobody k)
  have "awake s" if "tasks (shared s) \<noteq> []" "0 < n"
    using awake_cases [of s] assms(2) that notify_nobody(3) by (force simp: pool_inv_def)
  then show ?thesis using assms(2) notify_nobody
    by (auto simp: pool_inv_def pool_defs awake_def)
next
  case (spurious ws)
  then show ?thesis using assms(2)
    by (auto simp: pool_inv_def pool_defs awake_def)
next
  case (block ws)
  then show ?thesis using assms(2)
    by (auto simp: pool_inv_def pool_defs split: if_splits list.splits)
next
  case (return ws)
  then show ?thesis using assms(2)
    by (auto simp: pool_inv_def pool_defs split: if_splits list.splits)
next
  case (start ws j p)
  then show ?thesis using assms(2)
    by (auto simp: pool_inv_def pool_defs awake_def split: if_splits list.splits)
next
  case (finish j ws notify p)
  then show ?thesis using assms(2)
    by (auto simp: pool_inv_def pool_defs awake_def Let_def simp flip: nonempty_has_size
        split: if_splits)
next
  case wait_call
  then show ?thesis using assms(2) by (auto simp: pool_inv_def awake_def)
next
  case (wait_block us)
  then show ?thesis using assms(2) by (auto simp: pool_inv_def awake_def)
next
  case (wait_spurious us)
  then show ?thesis using assms(2) by (auto simp: pool_inv_def awake_def)
next
  case (wait_return us)
  then show ?thesis using assms(2) by (auto simp: pool_inv_def awake_def)
next
  case close
  then show ?thesis using assms(2)
    by (auto simp: pool_inv_def pool_defs awake_def)
next
  case notify_all
  then show ?thesis using assms(2) 
    by (auto simp: pool_inv_def pool_defs awake_def)
qed

lemma pool_reachable_inv: "pool_reachable n q s \<Longrightarrow> pool_inv n q s"
  by (induction rule: pool_reachable.induct) (auto intro: pool_inv_init pool_step_inv)

lemma pool_reachable_steps: "pool_step\<^sup>*\<^sup>* s t \<Longrightarrow> pool_reachable n q s \<Longrightarrow> pool_reachable n q t"
  by (induction rule: rtranclp_induct) (auto intro: pool_reachable.step)

section \<open>Progress\<close>

lemma start_ready:
  assumes "WReady \<in># workers s" and "tasks (shared s) = j # rest"
  shows "\<exists>t. pool_step s t \<and> started t = started s @ [j]"
proof -
  obtain ws where ws: "workers s = add_mset WReady ws" using assms(1) multi_member_split by metis
  have "ThreadPool_worker_lock (shared s) =
      Worker_runs j (shared s\<lparr>tasks := rest, activeTasks := activeTasks (shared s) + 1\<rparr>)"
    using assms(2) by (simp add: ThreadPool_worker_lock_def)
  from pool_step.start [OF ws this] show ?thesis by fastforce
qed

lemma finish_running:
  assumes "running s \<noteq> {#}"
  shows "\<exists>t. pool_step s t \<and> WReady \<in># workers t \<and> shared t = snd (ThreadPool_worker_done (shared s))
    \<and> started t = started s"
proof -
  obtain j ws where "workers s = add_mset (WRunning j) ws"
  proof -
    have "\<exists>j. WRunning j \<in># ws" if "running_in ws \<noteq> {#}" for ws :: "'a worker multiset"
      using that
    proof (induction ws)
      case (add w ws)
      then show ?case by (cases w) auto
    qed simp
    with assms that show thesis by (metis multi_member_split)
  qed
  from pool_step.finish [OF this prod.collapse [symmetric]] show ?thesis by fastforce
qed

lemma front_task_starts:
  assumes "pool_inv n q s" and "0 < n" and "tasks (shared s) = j # rest"
  shows "\<exists>t. pool_step\<^sup>*\<^sup>* s t \<and> started t = started s @ [j]"
proof -
  have *: "\<exists>t. pool_step\<^sup>*\<^sup>* s t \<and> started t = started s @ [j]"
    if aw: "awake s" and front: "tasks (shared s) = j # rest" for s :: "'a pool_sys"
  proof (cases "WReady \<in># workers s")
    case True
    obtain t where "pool_step s t" "started t = started s @ [j]"
      using start_ready [OF True front] by (elim exE conjE)
    then show ?thesis by (intro exI [of _ t] conjI r_into_rtranclp)
  next
    case False
    then have r: "running s \<noteq> {#}" using aw by (simp add: awake_def)
    obtain u where "pool_step s u" "WReady \<in># workers u" "started u = started s"
      "tasks (shared u) = j # rest"
      using finish_running [OF r] front by (auto simp: ThreadPool_worker_done_def Let_def)
    moreover obtain t where "pool_step u t" "started t = started u @ [j]"
      using start_ready [OF calculation(2,4)] by (elim exE conjE)
    ultimately have "pool_step\<^sup>*\<^sup>* s t \<and> started t = started s @ [j]"
      by (auto intro: converse_rtranclp_into_rtranclp)
    then show ?thesis ..
  qed
  show ?thesis
  proof (cases "awake s")
    case True
    then show ?thesis using * assms(3) by blast
  next
    case False
    then obtain k where k: "to_notify s = Suc k" using assms by (auto simp: pool_inv_def gr0_conv_Suc)
    have "workers s \<noteq> {#}" using assms(1,2) by (auto simp: pool_inv_def)
    from awake_cases [OF this False] have "WBlocked \<in># workers s"
      using assms(1,3) by (simp add: pool_inv_def)
    then obtain ws where ws: "workers s = add_mset WBlocked ws" using multi_member_split by metis
    let ?u = "s\<lparr>to_notify := k, workers := add_mset WReady ws\<rparr>"
    have u: "pool_step s ?u" by (rule pool_step.notify_blocked [OF k ws])
    obtain t where t: "pool_step\<^sup>*\<^sup>* ?u t" "started t = started ?u @ [j]"
      using * [of ?u] assms(3) by (elim meta_impE) (simp_all add: awake_def, blast)
    have "pool_step\<^sup>*\<^sup>* s t" by (rule converse_rtranclp_into_rtranclp [of pool_step, OF u t(1)])
    then show ?thesis using t(2) by auto
  qed
qed

text \<open>A closed pool drains: every step of this measure brings the join of the workers nearer.\<close>

definition drain_measure :: "'j pool_sys \<Rightarrow> nat" where
  "drain_measure s = 3 * length (tasks (shared s)) + 2 * size (running s) +
     count (workers s) WReady + count (workers s) WBlocked + (if to_notify_all s then 1 else 0)"

lemma count_wake: "count (image_mset (\<lambda>w. if w = WBlocked then WReady else w) ws) WReady +
    count (image_mset (\<lambda>w. if w = WBlocked then WReady else w) ws) WBlocked =
    count ws WReady + count ws WBlocked"
  by (induction ws) auto

lemma drain_step:
  assumes "pool_inv n q s" and "isClosed (shared s)" and "workers s \<noteq> replicate_mset n WReturned"
  shows "\<exists>t. pool_step s t \<and> isClosed (shared t) \<and> drain_measure t < drain_measure s"
proof (cases "to_notify_all s")
  case True
  from pool_step.notify_all [OF this] show ?thesis
    using assms(2) True count_wake [of "workers s"] by (fastforce simp: drain_measure_def)
next
  case False
  have nb: "WBlocked \<notin># workers s" using assms(1,2) False by (simp add: pool_inv_def)
  obtain w where w: "w \<in># workers s" "w \<noteq> WReturned"
  proof -
    have "size (workers s) = n" using assms(1) by (simp add: pool_inv_def)
    then have "\<not> (\<forall>w \<in># workers s. w = WReturned)"
      using assms(3) by (metis set_mset_subset_singletonD singletonD subsetI insertI1 insertCI singleton_iff)
    with that show thesis by blast
  qed
  obtain ws where ws: "workers s = add_mset w ws" using w(1) multi_member_split by metis
  show ?thesis
  proof (cases w)
    case WReady
    show ?thesis
    proof (cases "tasks (shared s)")
      case Nil
      have "ThreadPool_worker_lock (shared s) = Worker_returns"
        using Nil assms(2) by (simp add: ThreadPool_worker_lock_def)
      from pool_step.return [OF ws [unfolded WReady] this] show ?thesis
        using assms(2) ws WReady by (fastforce simp: drain_measure_def)
    next
      case (Cons j rest)
      have "ThreadPool_worker_lock (shared s) =
          Worker_runs j (shared s\<lparr>tasks := rest, activeTasks := activeTasks (shared s) + 1\<rparr>)"
        using Cons by (simp add: ThreadPool_worker_lock_def)
      from pool_step.start [OF ws [unfolded WReady] this] show ?thesis
        using assms(2) ws WReady Cons by (fastforce simp: drain_measure_def)
    qed
  next
    case (WRunning j)
    from pool_step.finish [OF ws [unfolded WRunning] prod.collapse [symmetric]] show ?thesis
      using assms(2) ws WRunning by (fastforce simp: drain_measure_def ThreadPool_worker_done_def Let_def)
  qed (use w nb in auto)
qed

lemma drain_all:
  assumes "pool_inv n q s" and "isClosed (shared s)"
  shows "\<exists>t. pool_step\<^sup>*\<^sup>* s t \<and> workers t = replicate_mset n WReturned"
  using assms
proof (induction "drain_measure s" arbitrary: s rule: less_induct)
  case less
  show ?case
  proof (cases "workers s = replicate_mset n WReturned")
    case True
    then show ?thesis by blast
  next
    case False
    obtain u where u: "pool_step s u" "isClosed (shared u)" "drain_measure u < drain_measure s"
      using drain_step [OF less.prems False] by blast
    from less.hyps [OF u(3) pool_step_inv [OF u(1) less.prems(1)] u(2)] u(1)
    show ?thesis by (meson converse_rtranclp_into_rtranclp)
  qed
qed

lemma size_running_in: "size (running_in ws) \<le> size ws"
proof (induction ws)
  case (add w ws)
  then show ?case by (cases w) auto
qed simp

lemma running_in_returned: "running_in (replicate_mset n WReturned) = {#}"
  by (induction n) auto

text \<open>Nothing is accepted once the pool is closed, and it stays closed.\<close>

lemma closed_step:
  "pool_step s t \<Longrightarrow> isClosed (shared s) \<Longrightarrow> isClosed (shared t) \<and> accepted t = accepted s"
  by (cases rule: pool_step.cases) (auto simp: pool_defs Let_def split: if_splits list.splits)

lemma closed_steps:
  "pool_step\<^sup>*\<^sup>* s t \<Longrightarrow> isClosed (shared s) \<Longrightarrow> isClosed (shared t) \<and> accepted t = accepted s"
  by (induction rule: rtranclp_induct) (auto dest: closed_step)

text \<open>The system with one worker and one accepted task, used by the witnesses.\<close>

lemma pool_one_task:
  "pool_reachable 1 2 (pool_init 1 2 \<lparr>shared := (ThreadPool_new 2)\<lparr>tasks := [j]\<rparr>, to_notify := 1,
     accepted := [j]\<rparr>)"
  using pool_reachable.step [OF pool_reachable.init
      pool_step.submit [of j "pool_init 1 2" "(ThreadPool_new 2)\<lparr>tasks := [j]\<rparr>"]]
  by (simp add: pool_init_def ThreadPool_new_def ThreadPool_TryAddTask_def)

lemma pool_one_task_closed:
  "pool_reachable 1 2 (pool_init 1 2 \<lparr>shared := (ThreadPool_new 2)\<lparr>tasks := [j], isClosed := True\<rparr>,
     to_notify := 1, to_notify_all := True, accepted := [j]\<rparr>)"
  using pool_reachable.step [OF pool_one_task pool_step.close]
  by (simp add: pool_init_def ThreadPool_new_def ThreadPool_close_def)

section \<open>Properties\<close>

text \<open>
  C12. Every accepted task is run exactly once, in the order of submission: in every reachable state
  the accepted tasks are the started ones followed by the queue, and the started ones are the
  finished ones plus the ones now running. \<open>activeTasks\<close> counts the running ones, at most one
  per worker, and the queue never exceeds \<open>maxQueueSize\<close>.
\<close>

theorem pool_exactly_once:
  assumes "pool_reachable n q s"
  shows "accepted s = started s @ tasks (shared s) \<and>
    mset (started s) = finished s + running_in (workers s) \<and>
    activeTasks (shared s) = size (running_in (workers s)) \<and> activeTasks (shared s) \<le> n \<and>
    length (tasks (shared s)) \<le> q"
  using pool_reachable_inv [OF assms] size_running_in [of "workers s"] by (simp add: pool_inv_def)

theorem pool_exactly_once_witness:
  "activeTasks (shared (pool_init 3 5 :: nat pool_sys)) \<le> 3"
  using pool_exactly_once [OF pool_reachable.init [of 3 5], where 'a = nat] by simp

text \<open>
  C29. \<open>WaitForTasks\<close> is a barrier: in the step in which a caller returns, every task accepted so
  far has finished.
\<close>

theorem WaitForTasks_barrier:
  assumes "pool_reachable n q s" and "pool_step s t"
    and "count (waiters t) WaitReturned = count (waiters s) WaitReturned + 1"
  shows "finished t = mset (accepted t)"
proof -
  have inv: "pool_inv n q t" using assms(1,2) by (blast intro: pool_reachable_inv pool_step_inv)
  have wake: "count (image_mset (\<lambda>w. if w = WaitBlocked then Checking else w) us) WaitReturned =
      count us WaitReturned" for us by (induction us) auto
  have "ThreadPool_WaitForTasks_pred (shared t)"
    using assms(2,3) by (cases rule: pool_step.cases) (auto simp: wake split: if_splits)
  then show ?thesis using inv by (simp add: pool_inv_def ThreadPool_WaitForTasks_pred_def)
qed

theorem WaitForTasks_barrier_witness:
  "\<exists>s t :: nat pool_sys. pool_step s t \<and> finished t = mset (accepted t)"
proof -
  let ?s = "pool_init 1 1 \<lparr>waiters := {#Checking#}\<rparr> :: nat pool_sys"
  have r: "pool_reachable 1 1 ?s"
    using pool_reachable.step [OF pool_reachable.init [of 1 1] pool_step.wait_call]
    by (simp add: pool_init_def)
  have st: "pool_step ?s (?s\<lparr>waiters := add_mset WaitReturned {#}\<rparr>)"
    by (rule pool_step.wait_return)
      (simp_all add: pool_init_def ThreadPool_new_def ThreadPool_WaitForTasks_pred_def)
  show ?thesis using WaitForTasks_barrier [OF r st] st by fastforce
qed





text \<open>
  \<open>AddTask\<close> and \<open>TryAddTask\<close> accept the same tasks with the same effect, exactly when the pool
  is open and the queue below its limit; they differ only in how they report a refusal, and then
  the pool is unchanged.
\<close>

theorem AddTask_agrees_TryAddTask:
  "ThreadPool_TryAddTask j p = (case ThreadPool_AddTask j p of Inl _ \<Rightarrow> (False, p) | Inr p' \<Rightarrow> (True, p')) \<and>
   (ThreadPool_AddTask j p = Inl Pool_is_closed \<longleftrightarrow> isClosed p) \<and>
   (ThreadPool_AddTask j p = Inl Queue_full \<longleftrightarrow> \<not> isClosed p \<and> maxQueueSize p \<le> length (tasks p)) \<and>
   (\<forall>p'. ThreadPool_AddTask j p = Inr p' \<longleftrightarrow>
      \<not> isClosed p \<and> length (tasks p) < maxQueueSize p \<and> p' = p\<lparr>tasks := tasks p @ [j]\<rparr>)"
  by (auto simp: ThreadPool_TryAddTask_def ThreadPool_AddTask_def)

end
