(* ===== verification/TimeWheelModel.thy ===== *)
theory TimeWheelModel
  imports LrPrelude
begin

text \<open>
  \<open>code/base/timer/timer.h\<close>, \<open>timer.cc\<close>: the hashed timing wheel behind \<open>EventLoop::AddTimer\<close>.

  A slot is a list of nodes; a list iterator is the node's \<open>tn_ref\<close>, unique over the life of the
  wheel. Times are nanoseconds, and \<open>clock k\<close> is what the \<open>k\<close>-th call of \<open>Clock::now()\<close> returns. A
  callback is a value \<open>c\<close>; \<open>run c s\<close> is what calling it does: the new state of the surrounding
  program and the timer operations it makes on this wheel. \<open>Tick\<close> need not return, because a
  callback may keep adding timers to the slot being scanned, so its loop is a partial function.
\<close>

section \<open>The wheel\<close>

record 'c timer_node =
  tn_id :: int
  tn_cb :: 'c
  tn_expire :: int
  tn_isDeleted :: bool
  tn_rounds :: int
  tn_ref :: nat

record 'c wheel =
  slots :: "'c timer_node list list"
  timer_map :: "int \<rightharpoonup> nat \<times> nat"
  current_slot :: int
  tick_ms :: int
  last_tick_time :: int
  clock_reads :: nat
  next_ref :: nat

definition WHEEL_SIZE :: int where "WHEEL_SIZE = 1024"

definition ns_per_ms :: int where "ns_per_ms = 1000000"

definition TimeWheel_new :: "(nat \<Rightarrow> int) \<Rightarrow> int \<Rightarrow> 'c wheel" where
  "TimeWheel_new clock tick =
     \<lparr>slots = replicate (nat WHEEL_SIZE) [], timer_map = Map.empty, current_slot = 0, tick_ms = tick,
      last_tick_time = clock 0, clock_reads = 1, next_ref = 0\<rparr>"

definition TimeWheel_AddTimer :: "(nat \<Rightarrow> int) \<Rightarrow> int \<Rightarrow> 'c \<Rightarrow> int \<Rightarrow> 'c wheel \<Rightarrow> 'c wheel" where
  "TimeWheel_AddTimer clock ident cb delay_ms w =
     (if delay_ms < 0 then w
      else if timer_map w ident \<noteq> None then w
      else
        let expire = clock (clock_reads w) + delay_ms * ns_per_ms;
            total_slots = delay_ms sdiv tick_ms w;
            rounds = total_slots sdiv WHEEL_SIZE;
            target_slot = nat ((current_slot w + total_slots) smod WHEEL_SIZE);
            node = \<lparr>tn_id = ident, tn_cb = cb, tn_expire = expire, tn_isDeleted = False,
                    tn_rounds = rounds, tn_ref = next_ref w\<rparr>
        in w\<lparr>slots := (slots w)[target_slot := slots w ! target_slot @ [node]],
             timer_map := (timer_map w)(ident \<mapsto> (target_slot, next_ref w)),
             clock_reads := clock_reads w + 1, next_ref := next_ref w + 1\<rparr>)"

text \<open>\<open>RemoveTimer\<close> marks the node through the stored iterator and forgets it.\<close>

definition mark_deleted :: "nat \<Rightarrow> 'c timer_node list \<Rightarrow> 'c timer_node list" where
  "mark_deleted r = map (\<lambda>n. if tn_ref n = r then n\<lparr>tn_isDeleted := True\<rparr> else n)"

definition TimeWheel_RemoveTimer :: "int \<Rightarrow> 'c wheel \<Rightarrow> 'c wheel" where
  "TimeWheel_RemoveTimer ident w =
     (case timer_map w ident of
        None \<Rightarrow> w
      | Some (slot, r) \<Rightarrow>
          w\<lparr>slots := (slots w)[slot := mark_deleted r (slots w ! slot)],
            timer_map := (timer_map w)(ident := None)\<rparr>)"

datatype 'c timer_op = Op_AddTimer int 'c int | Op_RemoveTimer int

fun apply_timer_op :: "(nat \<Rightarrow> int) \<Rightarrow> 'c timer_op \<Rightarrow> 'c wheel \<Rightarrow> 'c wheel" where
  "apply_timer_op clock (Op_AddTimer ident cb delay_ms) = TimeWheel_AddTimer clock ident cb delay_ms"
| "apply_timer_op clock (Op_RemoveTimer ident) = TimeWheel_RemoveTimer ident"

definition run_timer_ops :: "(nat \<Rightarrow> int) \<Rightarrow> 'c timer_op list \<Rightarrow> 'c wheel \<Rightarrow> 'c wheel" where
  "run_timer_ops clock ops w = fold (apply_timer_op clock) ops w"

section \<open>Tick\<close>

abbreviation cur_list :: "'c wheel \<Rightarrow> 'c timer_node list" where
  "cur_list w \<equiv> slots w ! nat (current_slot w)"

definition set_cur :: "'c timer_node list \<Rightarrow> 'c wheel \<Rightarrow> 'c wheel" where
  "set_cur l w = w\<lparr>slots := (slots w)[nat (current_slot w) := l]\<rparr>"

text \<open>\<open>timer_map_.erase(it->id); it = current_list.erase(it);\<close> for the node at position \<open>i\<close>.\<close>

definition erase_at :: "nat \<Rightarrow> 'c wheel \<Rightarrow> 'c wheel" where
  "erase_at i w =
     w\<lparr>slots := (slots w)[nat (current_slot w) := take i (cur_list w) @ drop (Suc i) (cur_list w)],
       timer_map := (timer_map w)(tn_id (cur_list w ! i) := None)\<rparr>"

definition skip_at :: "nat \<Rightarrow> 'c wheel \<Rightarrow> 'c wheel" where
  "skip_at i w =
     set_cur ((cur_list w)[i := (cur_list w ! i)\<lparr>tn_rounds := tn_rounds (cur_list w ! i) - 1\<rparr>]) w"

text \<open>\<open>it->rounds == 0 || Clock::now() >= it->expire\<close> reads the clock only if \<open>rounds\<close> is not zero.\<close>

definition expiry_test :: "(nat \<Rightarrow> int) \<Rightarrow> 'c timer_node \<Rightarrow> 'c wheel \<Rightarrow> bool \<times> 'c wheel" where
  "expiry_test clock n w =
     (if tn_rounds n = 0 then (True, w)
      else (tn_expire n \<le> clock (clock_reads w), w\<lparr>clock_reads := clock_reads w + 1\<rparr>))"

definition fire_at ::
  "(nat \<Rightarrow> int) \<Rightarrow> ('c \<Rightarrow> 's \<Rightarrow> 's \<times> 'c timer_op list) \<Rightarrow> nat \<Rightarrow> 'c wheel \<times> 's \<Rightarrow> 'c wheel \<times> 's" where
  "fire_at clock run i ws =
     (let (s', ops) = run (tn_cb (cur_list (fst ws) ! i)) (snd ws)
      in (erase_at i (run_timer_ops clock ops (fst ws)), s'))"

partial_function (option) tick_slot ::
  "(nat \<Rightarrow> int) \<Rightarrow> ('c \<Rightarrow> 's \<Rightarrow> 's \<times> 'c timer_op list) \<Rightarrow> nat \<Rightarrow> 'c wheel \<times> 's \<Rightarrow> ('c wheel \<times> 's) option"
where
  "tick_slot clock run i ws =
     (let w = fst ws; n = cur_list w ! i; test = expiry_test clock n w
      in if length (cur_list w) \<le> i then Some ws
         else if tn_isDeleted n then tick_slot clock run i (erase_at i w, snd ws)
         else if fst test then tick_slot clock run i (fire_at clock run i (snd test, snd ws))
         else tick_slot clock run (Suc i) (skip_at i (snd test), snd ws))"

fun tick_steps ::
  "(nat \<Rightarrow> int) \<Rightarrow> ('c \<Rightarrow> 's \<Rightarrow> 's \<times> 'c timer_op list) \<Rightarrow> nat \<Rightarrow> 'c wheel \<times> 's \<Rightarrow> ('c wheel \<times> 's) option"
where
  "tick_steps clock run 0 ws = Some ws"
| "tick_steps clock run (Suc k) ws =
     (case tick_slot clock run 0 ws of
        None \<Rightarrow> None
      | Some (w, s) \<Rightarrow>
          tick_steps clock run k (w\<lparr>current_slot := (current_slot w + 1) smod WHEEL_SIZE\<rparr>, s))"

text \<open>\<open>int elapsed_ms\<close> is the count of milliseconds narrowed to 32 bits.\<close>

definition elapsed_ticks :: "int \<Rightarrow> 'c wheel \<Rightarrow> int" where
  "elapsed_ticks now w =
     signed_take_bit 31 ((now - last_tick_time w) sdiv ns_per_ms) sdiv tick_ms w"

definition TimeWheel_Tick ::
  "(nat \<Rightarrow> int) \<Rightarrow> ('c \<Rightarrow> 's \<Rightarrow> 's \<times> 'c timer_op list) \<Rightarrow> 'c wheel \<times> 's \<Rightarrow> ('c wheel \<times> 's) option" where
  "TimeWheel_Tick clock run ws =
     (let w = fst ws; now = clock (clock_reads w); w' = w\<lparr>clock_reads := clock_reads w + 1\<rparr>
      in if elapsed_ticks now w = 0 then Some (w', snd ws)
         else case tick_steps clock run (nat (elapsed_ticks now w)) (w', snd ws) of
             None \<Rightarrow> None
           | Some (w'', s) \<Rightarrow> Some (w''\<lparr>last_tick_time := now\<rparr>, s))"

section \<open>Invariant: the stored iterators are valid\<close>

definition node_at :: "'c wheel \<Rightarrow> nat \<Rightarrow> 'c timer_node \<Rightarrow> bool" where
  "node_at w k n \<longleftrightarrow> k < length (slots w) \<and> n \<in> set (slots w ! k)"

definition wheel_inv :: "'c wheel \<Rightarrow> bool" where
  "wheel_inv w \<longleftrightarrow>
     length (slots w) = 1024 \<and> 0 \<le> current_slot w \<and> current_slot w < WHEEL_SIZE \<and> 0 < tick_ms w \<and>
     (\<forall>k n. node_at w k n \<longrightarrow> 0 \<le> tn_rounds n \<and> tn_ref n < next_ref w) \<and>
     (\<forall>k < 1024. distinct (map tn_ref (slots w ! k))) \<and>
     (\<forall>k k' n n'. node_at w k n \<longrightarrow> node_at w k' n' \<longrightarrow> tn_ref n = tn_ref n' \<longrightarrow> k = k') \<and>
     (\<forall>ident k r. timer_map w ident = Some (k, r) \<longrightarrow>
        (\<exists>n. node_at w k n \<and> tn_ref n = r \<and> tn_id n = ident \<and> \<not> tn_isDeleted n))"

lemma node_at_update:
  "k < length (slots w) \<Longrightarrow>
   node_at (w\<lparr>slots := (slots w)[k := l], timer_map := m\<rparr>) k' n \<longleftrightarrow>
     (if k' = k then n \<in> set l else node_at w k' n)"
  by (auto simp: node_at_def)

text \<open>
  An operation that rewrites one slot without new iterators, and keeps a live node for every map
  entry it keeps, preserves the invariant.
\<close>

lemma wheel_inv_update:
  assumes inv: "wheel_inv w" and k: "k < 1024"
    and refs: "set (map tn_ref l) \<subseteq> set (map tn_ref (slots w ! k))" "distinct (map tn_ref l)"
    and rounds: "\<forall>n \<in> set l. 0 \<le> tn_rounds n"
    and tm: "\<And>ident j r. m ident = Some (j, r) \<Longrightarrow> timer_map w ident = Some (j, r) \<and>
      (j = k \<longrightarrow> (\<exists>n \<in> set l. tn_ref n = r \<and> tn_id n = ident \<and> \<not> tn_isDeleted n))"
  shows "wheel_inv (w\<lparr>slots := (slots w)[k := l], timer_map := m\<rparr>)"
proof -
  have len: "k < length (slots w)" using inv k by (simp add: wheel_inv_def)
  have old: "\<exists>n'. node_at w k n' \<and> tn_ref n' = tn_ref n" if "n \<in> set l" for n
    using that refs(1) len by (fastforce simp: node_at_def)
  have fresh: "0 \<le> tn_rounds n \<and> tn_ref n < next_ref w" if "node_at w k' n" for k' n
    using inv that by (simp add: wheel_inv_def)
  have cross: "k' = k''" if "node_at w k' n" "node_at w k'' n'" "tn_ref n = tn_ref n'" for k' k'' n n'
    using inv that unfolding wheel_inv_def by blast
  show ?thesis
    unfolding wheel_inv_def node_at_update [OF len]
  proof (intro conjI allI impI, goal_cases)
    case (5 k' n)
    then show ?case using rounds fresh by (cases "k' = k") auto
  next
    case (6 k' n)
    obtain n' where "node_at w k' n'" "tn_ref n' = tn_ref n"
      using 6 old [of n] by (cases "k' = k") auto
    then show ?case using fresh [of k' n'] by simp
  next
    case (7 k')
    then have "distinct (map tn_ref (slots w ! k'))" using inv by (simp add: wheel_inv_def)
    then show ?case using refs(2) len by (cases "k' = k") simp_all
  next
    case (8 k' k'' n n')
    obtain m where m: "node_at w k' m" "tn_ref m = tn_ref n"
      using 8(1) old [of n] by (cases "k' = k") auto
    obtain m' where m': "node_at w k'' m'" "tn_ref m' = tn_ref n'"
      using 8(2) old [of n'] by (cases "k'' = k") auto
    show ?case by (rule cross [OF m(1) m'(1)]) (simp add: m m' 8(3))
  next
    case (9 ident j r)
    then have "m ident = Some (j, r)" by simp
    from tm [OF this] inv show ?case by (cases "j = k") (auto simp: wheel_inv_def)
  qed (use inv in \<open>auto simp: wheel_inv_def\<close>)
qed

lemma wheel_inv_new: "0 < tick \<Longrightarrow> wheel_inv (TimeWheel_new clock tick)"
  by (auto simp: wheel_inv_def TimeWheel_new_def WHEEL_SIZE_def node_at_def)

lemma wheel_inv_clock [simp]:
  "wheel_inv (w\<lparr>clock_reads := c\<rparr>) = wheel_inv w"
  "wheel_inv (w\<lparr>last_tick_time := d\<rparr>) = wheel_inv w"
  by (simp_all add: wheel_inv_def node_at_def)

lemma wheel_inv_AddTimer:
  assumes "wheel_inv w" shows "wheel_inv (TimeWheel_AddTimer clock ident cb delay_ms w)"
proof (cases "delay_ms < 0 \<or> timer_map w ident \<noteq> None")
  case True
  then show ?thesis using assms by (auto simp: TimeWheel_AddTimer_def)
next
  case False
  let ?total = "delay_ms sdiv tick_ms w"
  let ?k = "nat ((current_slot w + ?total) smod WHEEL_SIZE)"
  let ?n = "\<lparr>tn_id = ident, tn_cb = cb, tn_expire = clock (clock_reads w) + delay_ms * ns_per_ms,
    tn_isDeleted = False, tn_rounds = ?total sdiv WHEEL_SIZE, tn_ref = next_ref w\<rparr>"
  let ?w = "w\<lparr>slots := (slots w)[?k := slots w ! ?k @ [?n]],
    timer_map := (timer_map w)(ident \<mapsto> (?k, next_ref w)),
    clock_reads := clock_reads w + 1, next_ref := next_ref w + 1\<rparr>"
  have pos: "0 < tick_ms w" "0 \<le> current_slot w" using assms by (simp_all add: wheel_inv_def)
  have total: "0 \<le> ?total" using False pos by (simp add: sdiv_nonneg pos_imp_zdiv_nonneg_iff)
  have rounds: "0 \<le> ?total sdiv WHEEL_SIZE"
    using total by (simp add: sdiv_nonneg WHEEL_SIZE_def pos_imp_zdiv_nonneg_iff)
  have "(current_slot w + ?total) smod WHEEL_SIZE = (current_slot w + ?total) mod 1024"
    using total pos by (simp add: smod_nonneg WHEEL_SIZE_def)
  moreover have "0 \<le> (current_slot w + ?total) mod 1024" "(current_slot w + ?total) mod 1024 < 1024"
    by simp_all
  ultimately have k: "?k < 1024" by simp
  then have len: "?k < length (slots w)" using assms by (simp add: wheel_inv_def)
  have at: "node_at ?w k' n \<longleftrightarrow> node_at w k' n \<or> k' = ?k \<and> n = ?n" for k' n
    using len by (auto simp: node_at_def nth_list_update)
  have fresh: "tn_ref n < next_ref w" if "node_at w k' n" for k' n
    using assms that by (simp add: wheel_inv_def)
  have cross: "k' = k''" if "node_at w k' n" "node_at w k'' n'" "tn_ref n = tn_ref n'" for k' k'' n n'
    using assms that unfolding wheel_inv_def by blast
  have fresh_k: "next_ref w \<notin> set (map tn_ref (slots w ! ?k))"
    using fresh len by (force simp: node_at_def)
  have "wheel_inv ?w"
    unfolding wheel_inv_def at
  proof (intro conjI allI impI, goal_cases)
    case (5 k' n)
    then show ?case using assms rounds by (auto simp: wheel_inv_def)
  next
    case (6 k' n)
    then show ?case using fresh [of k' n] by auto
  next
    case (7 k')
    then have "distinct (map tn_ref (slots w ! k'))" using assms by (simp add: wheel_inv_def)
    then show ?case using fresh_k len by (cases "k' = ?k") simp_all
  next
    case (8 k' k'' n n')
    then show ?case using cross fresh [of k' n] fresh [of k'' n'] by auto
  next
    case (9 ident' j r)
    show ?case
    proof (cases "ident' = ident")
      case True
      then have "j = ?k" "r = next_ref w" using 9 by simp_all
      then show ?thesis using True by (intro exI [of _ ?n]) simp
    next
      case False
      then have "timer_map w ident' = Some (j, r)" using 9 by simp
      then have "\<exists>n. node_at w j n \<and> tn_ref n = r \<and> tn_id n = ident' \<and> \<not> tn_isDeleted n"
        using assms unfolding wheel_inv_def by blast
      then show ?thesis by blast
    qed
  qed (use assms in \<open>auto simp: wheel_inv_def\<close>)
  then show ?thesis using False by (simp add: TimeWheel_AddTimer_def Let_def)
qed

text \<open>One node per iterator, so the callback of an entry can be named by it.\<close>

lemma node_unique:
  assumes "wheel_inv w" and "node_at w k n" and "node_at w k' n'" and "tn_ref n = tn_ref n'"
  shows "n = n'"
proof -
  have "k = k'" using assms unfolding wheel_inv_def by blast
  moreover have "k < 1024" using assms(1,2) by (simp add: wheel_inv_def node_at_def)
  moreover from this have "distinct (map tn_ref (slots w ! k))" using assms(1) by (simp add: wheel_inv_def)
  ultimately show ?thesis using assms(2-4) by (auto simp: node_at_def distinct_map inj_on_def)
qed

lemma timer_mapD:
  assumes "wheel_inv w" and "timer_map w ident = Some (k, r)"
  obtains n where "node_at w k n" "tn_ref n = r" "tn_id n = ident" "\<not> tn_isDeleted n" "k < 1024"
  using assms unfolding wheel_inv_def node_at_def by metis

lemma mark_deleted_refs: "map tn_ref (mark_deleted r l) = map tn_ref l"
  by (simp add: mark_deleted_def)

lemma wheel_inv_RemoveTimer:
  assumes inv: "wheel_inv w" shows "wheel_inv (TimeWheel_RemoveTimer ident w)"
proof (cases "timer_map w ident")
  case None
  then show ?thesis using inv by (simp add: TimeWheel_RemoveTimer_def)
next
  case (Some kr)
  obtain k r where kr: "kr = (k, r)" by force
  obtain n where n: "node_at w k n" "tn_ref n = r" "tn_id n = ident" "k < 1024"
    using timer_mapD [OF inv Some [unfolded kr]] by metis
  have "wheel_inv (w\<lparr>slots := (slots w)[k := mark_deleted r (slots w ! k)],
      timer_map := (timer_map w)(ident := None)\<rparr>)"
  proof (rule wheel_inv_update [OF inv n(4)])
    show "set (map tn_ref (mark_deleted r (slots w ! k))) \<subseteq> set (map tn_ref (slots w ! k))"
      unfolding mark_deleted_refs ..
    show "distinct (map tn_ref (mark_deleted r (slots w ! k)))"
      using inv n(4) unfolding mark_deleted_refs by (simp add: wheel_inv_def)
    show "\<forall>m \<in> set (mark_deleted r (slots w ! k)). 0 \<le> tn_rounds m"
      using inv n(4) by (fastforce simp: mark_deleted_def wheel_inv_def node_at_def)
    fix ident' j r' assume m: "((timer_map w)(ident := None)) ident' = Some (j, r')"
    then have e: "timer_map w ident' = Some (j, r')" "ident' \<noteq> ident" by (auto split: if_splits)
    obtain n' where n': "node_at w j n'" "tn_ref n' = r'" "tn_id n' = ident'" "\<not> tn_isDeleted n'"
      using timer_mapD [OF inv e(1)] by metis
    have "r' \<noteq> r" using node_unique [OF inv n'(1) n(1)] n n' e(2) by auto
    then show "timer_map w ident' = Some (j, r') \<and> (j = k \<longrightarrow>
        (\<exists>n \<in> set (mark_deleted r (slots w ! k)). tn_ref n = r' \<and> tn_id n = ident' \<and> \<not> tn_isDeleted n))"
      using e(1) n' by (force simp: mark_deleted_def node_at_def)
  qed
  then show ?thesis using Some kr by (simp add: TimeWheel_RemoveTimer_def)
qed

lemma wheel_inv_ops: "wheel_inv w \<Longrightarrow> wheel_inv (run_timer_ops clock ops w)"
  unfolding run_timer_ops_def
proof (induction ops arbitrary: w)
  case (Cons a ops)
  then show ?case by (cases a) (simp_all add: wheel_inv_AddTimer wheel_inv_RemoveTimer)
qed simp

lemma cur_in_range: "wheel_inv w \<Longrightarrow> nat (current_slot w) < 1024"
  unfolding wheel_inv_def WHEEL_SIZE_def by (elim conjE) linarith

lemma wheel_inv_erase_at:
  assumes inv: "wheel_inv w" and i: "i < length (cur_list w)"
  shows "wheel_inv (erase_at i w)"
proof -
  let ?l = "cur_list w" and ?k = "nat (current_slot w)"
  have split: "?l = take i ?l @ ?l ! i # drop (Suc i) ?l" by (rule id_take_nth_drop [OF i])
  have sub: "set (take i ?l @ drop (Suc i) ?l) \<subseteq> set ?l"
    using set_take_subset [of i ?l] set_drop_subset [of "Suc i" ?l] by auto
  have len: "length (slots w) = 1024" using inv by (simp add: wheel_inv_def)
  have k: "?k < 1024" using cur_in_range [OF inv] .
  have "distinct (map tn_ref ?l)" using inv k by (simp add: wheel_inv_def)
  then have dist: "distinct (map tn_ref (take i ?l @ drop (Suc i) ?l))"
    by (subst (asm) split) auto
  have "wheel_inv (w\<lparr>slots := (slots w)[?k := take i ?l @ drop (Suc i) ?l],
      timer_map := (timer_map w)(tn_id (?l ! i) := None)\<rparr>)"
  proof (rule wheel_inv_update [OF inv k _ dist])
    show "set (map tn_ref (take i ?l @ drop (Suc i) ?l)) \<subseteq> set (map tn_ref ?l)"
      using sub by (metis image_mono set_map)
    show "\<forall>n \<in> set (take i ?l @ drop (Suc i) ?l). 0 \<le> tn_rounds n"
      using sub inv k by (auto simp: wheel_inv_def node_at_def)
    fix ident j r assume "((timer_map w)(tn_id (?l ! i) := None)) ident = Some (j, r)"
    then have e: "timer_map w ident = Some (j, r)" "ident \<noteq> tn_id (?l ! i)" by (auto split: if_splits)
    obtain n where n: "node_at w j n" "tn_ref n = r" "tn_id n = ident" "\<not> tn_isDeleted n"
      using timer_mapD [OF inv e(1)] by metis
    have "n \<in> set (take i ?l @ drop (Suc i) ?l)" if "j = ?k"
      using n(1) that n(3) e(2) split
      by (metis Un_iff insert_iff list.simps(15) node_at_def set_append)
    then show "timer_map w ident = Some (j, r) \<and> (j = ?k \<longrightarrow>
        (\<exists>n \<in> set (take i ?l @ drop (Suc i) ?l). tn_ref n = r \<and> tn_id n = ident \<and> \<not> tn_isDeleted n))"
      using e(1) n by blast
  qed
  then show ?thesis by (simp add: erase_at_def)
qed

lemma wheel_inv_skip_at:
  assumes inv: "wheel_inv w" and i: "i < length (cur_list w)" and r: "tn_rounds (cur_list w ! i) \<noteq> 0"
  shows "wheel_inv (skip_at i w)"
proof -
  let ?l = "cur_list w" and ?k = "nat (current_slot w)"
  let ?l' = "?l[i := (?l ! i)\<lparr>tn_rounds := tn_rounds (?l ! i) - 1\<rparr>]"
  have k: "?k < 1024" using cur_in_range [OF inv] .
  have refs: "map tn_ref ?l' = map tn_ref ?l" using i by (simp add: map_update list_update_same_conv)
  have live: "\<exists>n' \<in> set ?l'. tn_ref n' = tn_ref n \<and> tn_id n' = tn_id n \<and> tn_isDeleted n' = tn_isDeleted n"
    if n: "n \<in> set ?l" for n
  proof -
    obtain j where j: "j < length ?l" "n = ?l ! j" using n by (auto simp: in_set_conv_nth)
    then have "?l' ! j \<in> set ?l'" by simp
    then show ?thesis using j i by (intro bexI [of _ "?l' ! j"]) (auto simp: nth_list_update)
  qed
  have "wheel_inv (w\<lparr>slots := (slots w)[?k := ?l'], timer_map := timer_map w\<rparr>)"
  proof (rule wheel_inv_update [OF inv k])
    show "set (map tn_ref ?l') \<subseteq> set (map tn_ref ?l)" unfolding refs ..
    show "distinct (map tn_ref ?l')" using inv k unfolding refs by (simp add: wheel_inv_def)
    have pos: "0 \<le> tn_rounds n" if "n \<in> set ?l" for n
      using inv k that by (simp add: wheel_inv_def node_at_def)
    have "0 \<le> tn_rounds (?l ! i)" using pos i by simp
    then show "\<forall>n \<in> set ?l'. 0 \<le> tn_rounds n"
      using pos r by (auto dest!: set_update_subset_insert [THEN subsetD])
    fix ident j r assume e: "timer_map w ident = Some (j, r)"
    obtain n where n: "node_at w j n" "tn_ref n = r" "tn_id n = ident" "\<not> tn_isDeleted n"
      using timer_mapD [OF inv e] by metis
    then show "timer_map w ident = Some (j, r) \<and>
        (j = ?k \<longrightarrow> (\<exists>n \<in> set ?l'. tn_ref n = r \<and> tn_id n = ident \<and> \<not> tn_isDeleted n))"
      using e live [of n] by (auto simp: node_at_def)
  qed
  then show ?thesis by (simp add: skip_at_def set_cur_def)
qed

text \<open>Operations made during the scan only append to the scanned slot or mark nodes in place.\<close>

lemma AddTimer_frame:
  "current_slot (TimeWheel_AddTimer clock ident cb d w) = current_slot w \<and>
   tick_ms (TimeWheel_AddTimer clock ident cb d w) = tick_ms w \<and>
   length (slots (TimeWheel_AddTimer clock ident cb d w)) = length (slots w)"
  by (simp add: TimeWheel_AddTimer_def Let_def)

lemma RemoveTimer_frame:
  "current_slot (TimeWheel_RemoveTimer ident w) = current_slot w \<and>
   tick_ms (TimeWheel_RemoveTimer ident w) = tick_ms w \<and>
   length (slots (TimeWheel_RemoveTimer ident w)) = length (slots w)"
  by (simp add: TimeWheel_RemoveTimer_def split: option.splits)

lemma AddTimer_length:
  "length (slots w ! k) \<le> length (slots (TimeWheel_AddTimer clock ident cb d w) ! k)"
  by (simp add: TimeWheel_AddTimer_def Let_def nth_update_if)

lemma RemoveTimer_length:
  "length (slots (TimeWheel_RemoveTimer ident w) ! k) = length (slots w ! k)"
  by (auto simp: TimeWheel_RemoveTimer_def nth_update_if mark_deleted_def split: option.splits)

lemma apply_op_frame:
  "current_slot (apply_timer_op clock a w) = current_slot w \<and>
   tick_ms (apply_timer_op clock a w) = tick_ms w \<and>
   length (slots w ! k) \<le> length (slots (apply_timer_op clock a w) ! k)"
  by (cases a) (simp_all add: AddTimer_frame RemoveTimer_frame AddTimer_length RemoveTimer_length)

lemma ops_frame:
  "current_slot (run_timer_ops clock ops w) = current_slot w \<and>
   tick_ms (run_timer_ops clock ops w) = tick_ms w \<and>
   length (slots w ! k) \<le> length (slots (run_timer_ops clock ops w) ! k)"
  unfolding run_timer_ops_def
proof (induction ops arbitrary: w)
  case (Cons a ops)
  show ?case
    using Cons.IH [of "apply_timer_op clock a w"] apply_op_frame [of clock a w k] by simp
qed simp

lemma expiry_test_frame [simp]:
  "slots (snd (expiry_test clock n w)) = slots w"
  "current_slot (snd (expiry_test clock n w)) = current_slot w"
  "tick_ms (snd (expiry_test clock n w)) = tick_ms w"
  "wheel_inv (snd (expiry_test clock n w)) = wheel_inv w"
  by (simp_all add: expiry_test_def)

lemma wheel_inv_fire_at:
  assumes "wheel_inv (fst ws)" and "i < length (cur_list (fst ws))"
  shows "wheel_inv (fst (fire_at clock run i ws))"
proof -
  obtain s' ops where r: "run (tn_cb (cur_list (fst ws) ! i)) (snd ws) = (s', ops)" by force
  have "i < length (cur_list (run_timer_ops clock ops (fst ws)))"
    using assms(2) ops_frame [of clock ops "fst ws" "nat (current_slot (fst ws))"] by simp
  then show ?thesis using wheel_inv_erase_at [OF wheel_inv_ops [OF assms(1)]] r
    by (simp add: fire_at_def)
qed

lemma tick_slot_inv:
  assumes "tick_slot clock run i ws = Some ws'" and "wheel_inv (fst ws)"
  shows "wheel_inv (fst ws')"
proof -
  have "wheel_inv (fst ws) \<longrightarrow> wheel_inv (fst ws')"
  proof (rule tick_slot.raw_induct
      [where P = "\<lambda>_ _ _ ws ws'. wheel_inv (fst ws) \<longrightarrow> wheel_inv (fst ws')", OF _ assms(1)], goal_cases)
    case (1 ts clock run i ws ws')
    show ?case
    proof
      assume inv: "wheel_inv (fst ws)"
      let ?n = "cur_list (fst ws) ! i"
      show "wheel_inv (fst ws')"
      proof (cases "length (cur_list (fst ws)) \<le> i")
        case True
        then show ?thesis using 1(2) inv by (simp add: Let_def)
      next
        case False
        then have i: "i < length (cur_list (fst ws))" by simp
        show ?thesis
        proof (cases "tn_isDeleted ?n")
          case True
          then have "ts clock run i (erase_at i (fst ws), snd ws) = Some ws'"
            using 1(2) i by (simp add: Let_def)
          from 1(1) [OF this] show ?thesis using wheel_inv_erase_at [OF inv i] by simp
        next
          case alive: False
          let ?t = "expiry_test clock ?n (fst ws)"
          show ?thesis
          proof (cases "fst ?t")
            case True
            then have "ts clock run i (fire_at clock run i (snd ?t, snd ws)) = Some ws'"
              using 1(2) i alive by (simp add: Let_def)
            from 1(1) [OF this] show ?thesis
              using wheel_inv_fire_at [of "(snd ?t, snd ws)" i] inv i by simp
          next
            case False
            then have "ts clock run (Suc i) (skip_at i (snd ?t), snd ws) = Some ws'"
              using 1(2) i alive by (simp add: Let_def)
            moreover have "tn_rounds ?n \<noteq> 0" using False by (auto simp: expiry_test_def)
            ultimately show ?thesis
              using 1(1) wheel_inv_skip_at [of "snd ?t" i] inv i by fastforce
          qed
        qed
      qed
    qed
  qed
  then show ?thesis using assms(2) by blast
qed

lemma wheel_inv_advance:
  "wheel_inv w \<Longrightarrow> wheel_inv (w\<lparr>current_slot := (current_slot w + 1) smod WHEEL_SIZE\<rparr>)"
  by (auto simp: wheel_inv_def WHEEL_SIZE_def node_at_def smod_nonneg)

lemma tick_steps_inv:
  "tick_steps clock run k ws = Some ws' \<Longrightarrow> wheel_inv (fst ws) \<Longrightarrow> wheel_inv (fst ws')"
proof (induction k arbitrary: ws)
  case (Suc k)
  obtain w s where ts: "tick_slot clock run 0 ws = Some (w, s)"
    using Suc.prems(1) by (auto split: option.splits)
  have "wheel_inv w" using tick_slot_inv [OF ts Suc.prems(2)] by simp
  then show ?case using Suc.IH Suc.prems(1) ts wheel_inv_advance by fastforce
qed simp

lemma wheel_inv_Tick:
  "TimeWheel_Tick clock run ws = Some ws' \<Longrightarrow> wheel_inv (fst ws) \<Longrightarrow> wheel_inv (fst ws')"
  by (auto simp: TimeWheel_Tick_def Let_def dest!: tick_steps_inv split: if_splits option.splits)

section \<open>When the scan returns\<close>

text \<open>An operation that adds nothing to the slot being scanned.\<close>

fun adds_elsewhere :: "int \<Rightarrow> 'c timer_op \<Rightarrow> bool" where
  "adds_elsewhere tick (Op_AddTimer ident cb d) \<longleftrightarrow> d < 0 \<or> (d sdiv tick) smod WHEEL_SIZE \<noteq> 0"
| "adds_elsewhere tick (Op_RemoveTimer ident) \<longleftrightarrow> True"

lemma AddTimer_target:
  assumes "wheel_inv w" and "0 \<le> d"
  shows "nat ((current_slot w + d sdiv tick_ms w) smod WHEEL_SIZE) =
      nat ((current_slot w + d div tick_ms w) mod 1024)"
    and "d sdiv tick_ms w = d div tick_ms w" and "d div tick_ms w sdiv WHEEL_SIZE = d div tick_ms w div 1024"
    and "0 \<le> d div tick_ms w"
proof -
  have pos: "0 < tick_ms w" "0 \<le> current_slot w" using assms by (simp_all add: wheel_inv_def)
  show q: "0 \<le> d div tick_ms w" using assms(2) pos by (simp add: pos_imp_zdiv_nonneg_iff)
  show e: "d sdiv tick_ms w = d div tick_ms w" using assms(2) pos by (simp add: sdiv_nonneg)
  show "d div tick_ms w sdiv WHEEL_SIZE = d div tick_ms w div 1024"
    using q by (simp add: sdiv_nonneg WHEEL_SIZE_def)
  show "nat ((current_slot w + d sdiv tick_ms w) smod WHEEL_SIZE) =
      nat ((current_slot w + d div tick_ms w) mod 1024)"
    using q e pos by (simp add: smod_nonneg WHEEL_SIZE_def)
qed

lemma slot_shift:
  fixes c q :: int
  assumes "0 \<le> c" and "c < 1024" and "q mod 1024 \<noteq> 0"
  shows "nat ((c + q) mod 1024) \<noteq> nat c"
proof
  assume "nat ((c + q) mod 1024) = nat c"
  then have "(c + q) mod 1024 = c mod 1024" using assms(1,2) by simp
  then have "1024 dvd ((c + q) - c)" by (rule mod_eq_dvd_iff [THEN iffD1])
  then have "1024 dvd q" by (simp only: add_diff_cancel_left')
  then show False using assms(3) by (simp add: dvd_eq_mod_eq_0)
qed

lemma apply_op_cur_length:
  assumes "wheel_inv w" and "adds_elsewhere (tick_ms w) a"
  shows "length (cur_list (apply_timer_op clock a w)) = length (cur_list w)"
proof (cases a)
  case (Op_AddTimer ident cb d)
  show ?thesis
  proof (cases "d < 0")
    case False
    then have d: "0 \<le> d" by simp
    have "(d div tick_ms w) mod 1024 \<noteq> 0"
      using assms(2) Op_AddTimer False AddTimer_target [OF assms(1) d]
      by (simp add: WHEEL_SIZE_def smod_nonneg)
    then have "nat ((current_slot w + d div tick_ms w) mod 1024) \<noteq> nat (current_slot w)"
      using slot_shift [of "current_slot w" "d div tick_ms w"] assms(1)
      by (simp add: wheel_inv_def WHEEL_SIZE_def)
    then show ?thesis using Op_AddTimer AddTimer_target [OF assms(1) d]
      by (simp add: TimeWheel_AddTimer_def Let_def)
  qed (simp add: Op_AddTimer TimeWheel_AddTimer_def)
qed (simp add: RemoveTimer_length RemoveTimer_frame)

lemma ops_cur_length:
  assumes "wheel_inv w" and "\<forall>a \<in> set ops. adds_elsewhere (tick_ms w) a"
  shows "length (cur_list (run_timer_ops clock ops w)) = length (cur_list w)"
  using assms
proof (induction ops arbitrary: w)
  case Nil
  then show ?case by (simp add: run_timer_ops_def)
next
  case (Cons a ops)
  let ?w = "apply_timer_op clock a w"
  have "wheel_inv ?w" using wheel_inv_ops [OF Cons.prems(1), of clock "[a]"] by (simp add: run_timer_ops_def)
  moreover have "tick_ms ?w = tick_ms w" by (simp add: apply_op_frame)
  ultimately have "length (cur_list (run_timer_ops clock ops ?w)) = length (cur_list ?w)"
    using Cons.IH [of ?w] Cons.prems(2) by simp
  then show ?case using apply_op_cur_length [OF Cons.prems(1)] Cons.prems(2)
    by (simp add: run_timer_ops_def)
qed

lemma erase_skip_frame [simp]:
  "tick_ms (erase_at i w) = tick_ms w" "current_slot (erase_at i w) = current_slot w"
  "tick_ms (skip_at i w) = tick_ms w" "current_slot (skip_at i w) = current_slot w"
  by (simp_all add: erase_at_def skip_at_def set_cur_def)

lemma erase_at_length:
  assumes "wheel_inv w" and "i < length (cur_list w)"
  shows "length (cur_list (erase_at i w)) = length (cur_list w) - 1"
proof -
  have "nat (current_slot w) < length (slots w)"
    using cur_in_range [OF assms(1)] assms(1) by (simp add: wheel_inv_def)
  then show ?thesis using assms(2) by (simp add: erase_at_def)
qed

lemma skip_at_length:
  assumes "wheel_inv w" shows "length (cur_list (skip_at i w)) = length (cur_list w)"
proof -
  have "nat (current_slot w) < length (slots w)"
    using cur_in_range [OF assms(1)] assms(1) by (simp add: wheel_inv_def)
  then show ?thesis by (simp add: skip_at_def set_cur_def)
qed

lemma fire_at_frame:
  "tick_ms (fst (fire_at clock run i ws)) = tick_ms (fst ws)"
  "current_slot (fst (fire_at clock run i ws)) = current_slot (fst ws)"
  by (simp_all add: fire_at_def ops_frame split: prod.splits)

lemma fire_at_length:
  assumes "wheel_inv (fst ws)" and "i < length (cur_list (fst ws))"
    and "\<forall>a \<in> set (snd (run (tn_cb (cur_list (fst ws) ! i)) (snd ws))). adds_elsewhere (tick_ms (fst ws)) a"
  shows "length (cur_list (fst (fire_at clock run i ws))) = length (cur_list (fst ws)) - 1"
proof -
  obtain s' ops where r: "run (tn_cb (cur_list (fst ws) ! i)) (snd ws) = (s', ops)" by force
  have "length (cur_list (run_timer_ops clock ops (fst ws))) = length (cur_list (fst ws))"
    using ops_cur_length [OF assms(1)] assms(3) r by simp
  then show ?thesis using erase_at_length [OF wheel_inv_ops [OF assms(1)]] assms(2) r
    by (simp add: fire_at_def)
qed

lemma tick_slot_returns:
  assumes "wheel_inv (fst ws)"
    and "\<And>c s. \<forall>a \<in> set (snd (run c s)). adds_elsewhere (tick_ms (fst ws)) a"
  shows "\<exists>ws'. tick_slot clock run i ws = Some ws' \<and> tick_ms (fst ws') = tick_ms (fst ws)"
  using assms
proof (induction "length (cur_list (fst ws)) - i" arbitrary: i ws rule: less_induct)
  case less
  let ?n = "cur_list (fst ws) ! i"
  let ?t = "expiry_test clock ?n (fst ws)"
  show ?case
  proof (cases "length (cur_list (fst ws)) \<le> i")
    case True
    then show ?thesis by (subst tick_slot.simps) (simp add: Let_def)
  next
    case False
    then have i: "i < length (cur_list (fst ws))" by simp
    consider (del) "tn_isDeleted ?n" | (fire) "\<not> tn_isDeleted ?n" "fst ?t"
      | (skip) "\<not> tn_isDeleted ?n" "\<not> fst ?t" by blast
    then show ?thesis
    proof cases
      case del
      have "\<exists>ws'. tick_slot clock run i (erase_at i (fst ws), snd ws) = Some ws' \<and>
          tick_ms (fst ws') = tick_ms (fst ws)"
        using less.hyps [of "(erase_at i (fst ws), snd ws)" i] less.prems i
        by (simp add: erase_at_length [simplified] wheel_inv_erase_at)
      then show ?thesis using del i by (subst tick_slot.simps) (simp add: Let_def)
    next
      case fire
      let ?ws = "(snd ?t, snd ws)"
      have "\<exists>ws'. tick_slot clock run i (fire_at clock run i ?ws) = Some ws' \<and>
          tick_ms (fst ws') = tick_ms (fst ws)"
        using less.hyps [of "fire_at clock run i ?ws" i] less.prems i
          wheel_inv_fire_at [of ?ws i clock run] fire_at_length [of ?ws i run clock]
        by (simp add: fire_at_frame)
      then show ?thesis using fire i by (subst tick_slot.simps) (simp add: Let_def)
    next
      case skip
      have "tn_rounds ?n \<noteq> 0" using skip by (auto simp: expiry_test_def)
      then have "\<exists>ws'. tick_slot clock run (Suc i) (skip_at i (snd ?t), snd ws) = Some ws' \<and>
          tick_ms (fst ws') = tick_ms (fst ws)"
        using less.hyps [of "(skip_at i (snd ?t), snd ws)" "Suc i"] less.prems i
          wheel_inv_skip_at [of "snd ?t" i] skip_at_length [of "snd ?t" i] diff_less_mono2 [OF lessI i]
        by simp
      then show ?thesis using skip i by (subst tick_slot.simps) (simp add: Let_def)
    qed
  qed
qed

lemma tick_steps_returns:
  assumes "wheel_inv (fst ws)"
    and "\<And>c s. \<forall>a \<in> set (snd (run c s)). adds_elsewhere (tick_ms (fst ws)) a"
  shows "\<exists>ws'. tick_steps clock run k ws = Some ws'"
  using assms
proof (induction k arbitrary: ws)
  case (Suc k)
  obtain w s where ts: "tick_slot clock run 0 ws = Some (w, s)" "tick_ms w = tick_ms (fst ws)"
    using tick_slot_returns [OF Suc.prems] by fastforce
  have "wheel_inv w" using tick_slot_inv [OF ts(1) Suc.prems(1)] by simp
  then show ?case using Suc.IH [of "(w\<lparr>current_slot := (current_slot w + 1) smod WHEEL_SIZE\<rparr>, s)"]
    Suc.prems(2) ts by (simp add: wheel_inv_advance)
qed simp

text \<open>
  A callback that adds a timer shorter than a tick puts it in the slot being scanned, where the
  same scan reaches it. \<open>feeding\<close> holds before every turn of such a scan.
\<close>

definition feeding :: "nat \<Rightarrow> 'c wheel \<times> int \<Rightarrow> bool" where
  "feeding i ws \<longleftrightarrow> wheel_inv (fst ws) \<and> i < length (cur_list (fst ws)) \<and>
     \<not> tn_isDeleted (last (cur_list (fst ws))) \<and> tn_rounds (last (cur_list (fst ws))) = 0 \<and>
     (\<forall>ident \<in> dom (timer_map (fst ws)). ident < snd ws)"

lemma feedingI:
  assumes "wheel_inv w" and "cur_list w = l" and "i < length l" and "\<not> tn_isDeleted (last l)"
    and "tn_rounds (last l) = 0" and "\<And>ident. ident \<in> dom (timer_map w) \<Longrightarrow> ident < s"
  shows "feeding i (w, s)"
  using assms by (simp add: feeding_def)

lemma cur_update:
  assumes "wheel_inv w" shows "(slots w)[nat (current_slot w) := l] ! nat (current_slot w) = l"
  using cur_in_range [OF assms] assms by (simp add: wheel_inv_def)

lemma last_erase:
  assumes "Suc i < length l"
  shows "last (take i l @ drop (Suc i) l) = last l \<and> i < length (take i l @ drop (Suc i) l)"
  using assms by (simp add: last_append)

lemma feeding_erase:
  assumes "feeding i ws" and "tn_isDeleted (cur_list (fst ws) ! i)"
  shows "feeding i (erase_at i (fst ws), snd ws)"
proof -
  obtain w s where ws: "ws = (w, s)" by force
  have f: "wheel_inv w" "i < length (cur_list w)" "\<not> tn_isDeleted (last (cur_list w))"
    "tn_rounds (last (cur_list w)) = 0" "\<forall>ident \<in> dom (timer_map w). ident < s"
    using assms(1) ws by (simp_all add: feeding_def)
  have "cur_list w \<noteq> []" using f(2) by auto
  then have "i \<noteq> length (cur_list w) - 1" using f(3) assms(2) ws last_conv_nth [of "cur_list w"] by auto
  then have i: "Suc i < length (cur_list w)" using f(2) by simp
  have cur: "cur_list (erase_at i w) = take i (cur_list w) @ drop (Suc i) (cur_list w)"
    using cur_update [OF f(1)] by (simp add: erase_at_def)
  have dom: "dom (timer_map (erase_at i w)) \<subseteq> dom (timer_map w)" by (auto simp: erase_at_def)
  have "feeding i (erase_at i w, s)"
    by (rule feedingI [OF wheel_inv_erase_at [OF f(1,2)] cur]) (use last_erase [OF i] f(3,4) subsetD [OF dom] f(5) in \<open>simp_all add: domIff\<close>)
  then show ?thesis using ws by simp
qed

lemma feeding_skip:
  assumes "feeding i ws" and "tn_rounds (cur_list (fst ws) ! i) \<noteq> 0"
  shows "feeding (Suc i) (skip_at i (snd (expiry_test clock n (fst ws))), snd ws)"
proof -
  obtain w s where ws: "ws = (w, s)" by force
  let ?w = "snd (expiry_test clock n w)"
  have f: "wheel_inv w" "i < length (cur_list w)" "\<not> tn_isDeleted (last (cur_list w))"
    "tn_rounds (last (cur_list w)) = 0" "\<forall>ident \<in> dom (timer_map w). ident < s"
    using assms(1) ws by (simp_all add: feeding_def)
  have ne: "cur_list w \<noteq> []" using f(2) by auto
  then have "i \<noteq> length (cur_list w) - 1" using f(4) assms(2) ws last_conv_nth [of "cur_list w"] by auto
  then have i: "Suc i < length (cur_list w)" using f(2) by simp
  let ?l = "(cur_list w)[i := (cur_list w ! i)\<lparr>tn_rounds := tn_rounds (cur_list w ! i) - 1\<rparr>]"
  have cur: "cur_list (skip_at i ?w) = ?l"
    using cur_update [of ?w] f(1) by (simp add: skip_at_def set_cur_def)
  have "last ?l = last (cur_list w)" using i ne by (simp add: last_conv_nth nth_list_update)
  moreover have "timer_map (skip_at i ?w) = timer_map w"
    by (simp add: skip_at_def set_cur_def expiry_test_def)
  moreover have "wheel_inv (skip_at i ?w)" using wheel_inv_skip_at [of ?w i] f(1,2) assms(2) ws by simp
  ultimately have "feeding (Suc i) (skip_at i ?w, s)"
    by (intro feedingI [OF _ cur]) (use f(3-5) i in auto)
  then show ?thesis using ws by simp
qed

lemma feeding_fire:
  assumes f: "feeding i ws" and d: "0 \<le> d" "d < tick_ms (fst ws)"
  shows "feeding i (fire_at clock (\<lambda>c s. (s + 1, [Op_AddTimer s c d])) i ws)"
proof -
  obtain w s where ws: "ws = (w, s)" by force
  have inv: "wheel_inv w" and i: "i < length (cur_list w)"
    and dom: "\<forall>ident \<in> dom (timer_map w). ident < s" using f ws by (simp_all add: feeding_def)
  let ?c = "tn_cb (cur_list w ! i)"
  let ?w = "TimeWheel_AddTimer clock s ?c d w"
  have fresh: "timer_map w s = None" using dom by (metis domI less_irrefl option.exhaust)
  have dv: "d div tick_ms w = 0" using d ws by simp
  have c: "current_slot w mod 1024 = current_slot w" using inv by (simp add: wheel_inv_def WHEEL_SIZE_def)
  obtain n where n: "cur_list ?w = cur_list w @ [n]" "\<not> tn_isDeleted n" "tn_rounds n = 0"
    using fresh d(1) AddTimer_target [OF inv d(1)] cur_update [OF inv] dv c
    by (fastforce simp: TimeWheel_AddTimer_def Let_def)
  have invw: "wheel_inv ?w" by (rule wheel_inv_AddTimer [OF inv])
  have cur: "cur_list (erase_at i ?w) = take i (cur_list ?w) @ drop (Suc i) (cur_list ?w)"
    using cur_update [OF invw] by (simp add: erase_at_def)
  have "Suc i < length (cur_list ?w)" using n(1) i by simp
  note le = last_erase [OF this] and ei = wheel_inv_erase_at [OF invw Suc_lessD [OF this]]
  have old: "timer_map (erase_at i ?w) ident = None" if "ident \<noteq> s" "timer_map w ident = None" for ident
    using that by (simp add: erase_at_def TimeWheel_AddTimer_def Let_def)
  then have less: "ident < s + 1" if "ident \<in> dom (timer_map (erase_at i ?w))" for ident
  proof (cases "ident = s")
    case False
    then have "ident \<in> dom (timer_map w)" using that old [of ident] by (cases "timer_map w ident") (simp_all add: domIff)
    from bspec [OF dom this] show ?thesis by simp
  qed simp
  have "last (cur_list ?w) = n" using n(1) by simp
  then have "feeding i (erase_at i ?w, s + 1)"
    by (intro feedingI [OF ei cur]) (use le n(2,3) less in simp_all)
  moreover have "fire_at clock (\<lambda>c s. (s + 1, [Op_AddTimer s c d])) i ws = (erase_at i ?w, s + 1)"
    using ws by (simp add: fire_at_def run_timer_ops_def)
  ultimately show ?thesis by simp
qed

lemma tick_slot_diverges:
  assumes "feeding i ws" and "0 \<le> d" and "d < tick_ms (fst ws)"
  shows "tick_slot clock (\<lambda>c s. (s + 1, [Op_AddTimer s c d])) i ws = None"
proof (rule ccontr)
  let ?run = "\<lambda>c s. (s + 1, [Op_AddTimer s c d])"
  assume "tick_slot clock ?run i ws \<noteq> None"
  then obtain ws' where ret: "tick_slot clock ?run i ws = Some ws'" by blast
  have "run = ?run \<longrightarrow> \<not> (feeding i ws \<and> d < tick_ms (fst ws))"
    if "tick_slot clock run i ws = Some ws'" for run
  proof (rule tick_slot.raw_induct [where P = "\<lambda>_ run i ws _. run = ?run \<longrightarrow>
        \<not> (feeding i ws \<and> d < tick_ms (fst ws))", OF _ that], goal_cases)
    case (1 ts clock run i ws ws')
    show ?case
    proof (intro impI notI)
      assume run: "run = ?run" and fd: "feeding i ws \<and> d < tick_ms (fst ws)"
      let ?n = "cur_list (fst ws) ! i"
      let ?t = "expiry_test clock ?n (fst ws)"
      have i: "i < length (cur_list (fst ws))" using fd by (simp add: feeding_def)
      have fe: "feeding i (snd ?t, snd ws)" using fd by (simp add: feeding_def expiry_test_def)
      consider (del) "tn_isDeleted ?n" | (fire) "\<not> tn_isDeleted ?n" "fst ?t"
        | (skip) "\<not> tn_isDeleted ?n" "\<not> fst ?t" by blast
      then show False
      proof cases
        case del
        then have "ts clock run i (erase_at i (fst ws), snd ws) = Some ws'"
          using 1(2) i by (simp add: Let_def)
        from 1(1) [OF this] show ?thesis using feeding_erase [OF conjunct1 [OF fd] del] run fd by simp
      next
        case fire
        then have "ts clock run i (fire_at clock run i (snd ?t, snd ws)) = Some ws'"
          using 1(2) i by (simp add: Let_def)
        from 1(1) [OF this] show ?thesis using feeding_fire [OF fe, of d clock] run fd assms(2)
          by (simp add: fire_at_frame)
      next
        case skip
        then have "ts clock run (Suc i) (skip_at i (snd ?t), snd ws) = Some ws'"
          using 1(2) i by (simp add: Let_def)
        moreover have "tn_rounds ?n \<noteq> 0" using skip by (auto simp: expiry_test_def)
        ultimately show ?thesis using 1(1) feeding_skip [OF conjunct1 [OF fd]] run fd by fastforce
      qed
    qed
  qed
  from this [OF ret] show False using assms by blast
qed

section \<open>The wheel is a set of countdown timers\<close>

text \<open>
  The abstract timer is a number of turns still to go. A node's number is the distance of its slot
  from the current one plus a full revolution per round.
\<close>

definition turns_left :: "'c wheel \<Rightarrow> nat \<Rightarrow> 'c timer_node \<Rightarrow> int" where
  "turns_left w k n = (int k - current_slot w) mod 1024 + 1024 * tn_rounds n"

definition countdown :: "'c wheel \<Rightarrow> (nat \<times> int) set" where
  "countdown w = {(tn_ref n, turns_left w k n) | k n. node_at w k n \<and> \<not> tn_isDeleted n}"

lemma countdown_AddTimer:
  assumes inv: "wheel_inv w" and d: "0 \<le> d" and new: "timer_map w ident = None"
  shows "countdown (TimeWheel_AddTimer clock ident cb d w) =
    insert (next_ref w, d div tick_ms w) (countdown w)"
proof -
  let ?q = "d div tick_ms w" and ?w = "TimeWheel_AddTimer clock ident cb d w"
  let ?k = "nat ((current_slot w + ?q) mod 1024)"
  let ?n = "\<lparr>tn_id = ident, tn_cb = cb, tn_expire = clock (clock_reads w) + d * ns_per_ms,
    tn_isDeleted = False, tn_rounds = ?q div 1024, tn_ref = next_ref w\<rparr>"
  note tgt = AddTimer_target [OF inv d]
  have k: "?k < length (slots w)" using inv by (simp add: wheel_inv_def)
  have w: "slots ?w = (slots w)[?k := slots w ! ?k @ [?n]]" "current_slot ?w = current_slot w"
    using d new tgt by (simp_all add: TimeWheel_AddTimer_def Let_def)
  have at: "node_at ?w j n \<longleftrightarrow> node_at w j n \<or> j = ?k \<and> n = ?n" for j n
    using k by (auto simp: node_at_def w nth_list_update)
  have left: "turns_left ?w j n = turns_left w j n" for j n by (simp add: turns_left_def w)
  have "int ?k = (current_slot w + ?q) mod 1024" by simp
  then have "(int ?k - current_slot w) mod 1024 = ?q mod 1024" by (simp add: mod_diff_left_eq)
  then have "turns_left w ?k ?n = ?q" by (simp add: turns_left_def)
  then have "countdown ?w = insert (tn_ref ?n, ?q) (countdown w)"
    unfolding countdown_def at left by force
  then show ?thesis by simp
qed

lemma countdown_RemoveTimer:
  assumes inv: "wheel_inv w" and m: "timer_map w ident = Some (k, r)"
  shows "countdown (TimeWheel_RemoveTimer ident w) = {x \<in> countdown w. fst x \<noteq> r}"
proof -
  let ?w = "TimeWheel_RemoveTimer ident w"
  obtain m where n: "node_at w k m" "tn_ref m = r" using timer_mapD [OF inv m] by metis
  have w: "slots ?w = (slots w)[k := mark_deleted r (slots w ! k)]" "current_slot ?w = current_slot w"
    using m by (simp_all add: TimeWheel_RemoveTimer_def)
  have at: "node_at ?w j x \<and> \<not> tn_isDeleted x \<longleftrightarrow> node_at w j x \<and> \<not> tn_isDeleted x \<and> tn_ref x \<noteq> r" for j x
  proof (cases "j = k")
    case True
    then show ?thesis using n(1) by (force simp: node_at_def w mark_deleted_def)
  next
    case False
    have "j = k" if "node_at w j x" "tn_ref x = r" using inv n that unfolding wheel_inv_def by blast
    then show ?thesis using False by (auto simp: node_at_def w)
  qed
  have left: "turns_left ?w j x = turns_left w j x" for j x by (simp add: turns_left_def w)
  show ?thesis unfolding countdown_def at left by (auto; blast)
qed

text \<open>
  The scan of a slot when the callbacks leave the wheel alone and no waiting node is past its
  deadline: the due nodes are called in list order, the others lose a round.
\<close>

definition due :: "'c timer_node \<Rightarrow> bool" where
  "due n \<longleftrightarrow> \<not> tn_isDeleted n \<and> tn_rounds n = 0"

definition waits :: "'c timer_node \<Rightarrow> bool" where
  "waits n \<longleftrightarrow> \<not> tn_isDeleted n \<and> tn_rounds n \<noteq> 0"

definition next_round :: "'c timer_node \<Rightarrow> 'c timer_node" where
  "next_round n = n\<lparr>tn_rounds := tn_rounds n - 1\<rparr>"

definition quiet :: "('c \<Rightarrow> 's \<Rightarrow> 's) \<Rightarrow> 'c \<Rightarrow> 's \<Rightarrow> 's \<times> 'c timer_op list" where
  "quiet f c s = (f c s, [])"

lemma tick_slot_quiet:
  assumes "wheel_inv w" and "drop i (cur_list w) = l" and "i \<le> length (cur_list w)"
    and "\<And>n j. n \<in> set l \<Longrightarrow> waits n \<Longrightarrow> clock j < tn_expire n"
  shows "\<exists>w'. tick_slot clock (quiet f) i (w, s) = Some (w', fold f (map tn_cb (filter due l)) s) \<and>
    slots w' = (slots w)[nat (current_slot w) := take i (cur_list w) @ map next_round (filter waits l)] \<and>
    current_slot w' = current_slot w"
  using assms
proof (induction l arbitrary: i w s)
  case Nil
  then have "take i (cur_list w) = cur_list w" by simp
  then show ?case using Nil by (subst tick_slot.simps) (simp add: Let_def)
next
  case (Cons n l)
  have i: "i < length (cur_list w)" using Cons.prems(2) by (metis drop_all leI list.distinct(1))
  have n: "cur_list w ! i = n" "drop (Suc i) (cur_list w) = l"
    using Cons.prems(2) i by (simp_all add: Cons_nth_drop_Suc [symmetric])
  let ?t = "expiry_test clock n w"
  have upd: "(slots w)[nat (current_slot w) := x] ! nat (current_slot w) = x" for x
    by (rule cur_update [OF Cons.prems(1)])
  have ti: "take i (take i (cur_list w) @ x) = take i (cur_list w)" for x using i by simp
  consider (del) "tn_isDeleted n" | (fire) "due n" "fst ?t" | (skip) "waits n" "\<not> fst ?t" "\<not> tn_isDeleted n"
  proof (cases "tn_isDeleted n \<or> tn_rounds n = 0")
    case False
    then have "\<not> tn_expire n \<le> clock (clock_reads w)"
      using Cons.prems(4) [of n "clock_reads w"] by (simp add: waits_def)
    then show thesis using skip False by (simp add: waits_def expiry_test_def)
  qed (use del fire in \<open>auto simp: due_def expiry_test_def\<close>)
  then show ?case
  proof cases
    case del
    let ?w = "erase_at i w"
    have cur: "cur_list ?w = take i (cur_list w) @ l" using n upd by (simp add: erase_at_def)
    have dl: "drop i (cur_list ?w) = l" "i \<le> length (cur_list ?w)" unfolding cur using i by simp_all
    have inv': "wheel_inv ?w" using wheel_inv_erase_at [of w i] Cons.prems(1) i by simp
    have "\<exists>w'. tick_slot clock (quiet f) i (?w, s) = Some (w', fold f (map tn_cb (filter due l)) s) \<and>
      slots w' = (slots ?w)[nat (current_slot ?w) := take i (cur_list ?w) @ map next_round (filter waits l)] \<and>
      current_slot w' = current_slot ?w"
      by (rule Cons.IH [OF inv' dl]) (use Cons.prems(4) in auto)
    then show ?thesis using del i n unfolding cur ti
      by (subst tick_slot.simps) (simp add: Let_def due_def waits_def erase_at_def)
  next
    case fire
    let ?w = "erase_at i (snd ?t)"
    have cur: "cur_list ?w = take i (cur_list w) @ l" using n upd by (simp add: erase_at_def)
    have dl: "drop i (cur_list ?w) = l" "i \<le> length (cur_list ?w)" unfolding cur using i by simp_all
    have inv': "wheel_inv ?w" using wheel_inv_erase_at [of "snd ?t" i] Cons.prems(1) i by simp
    have "\<exists>w'. tick_slot clock (quiet f) i (?w, f (tn_cb n) s) =
        Some (w', fold f (map tn_cb (filter due l)) (f (tn_cb n) s)) \<and>
      slots w' = (slots ?w)[nat (current_slot ?w) := take i (cur_list ?w) @ map next_round (filter waits l)] \<and>
      current_slot w' = current_slot ?w"
      by (rule Cons.IH [OF inv' dl]) (use Cons.prems(4) in auto)
    moreover have "fire_at clock (quiet f) i (snd ?t, s) = (?w, f (tn_cb n) s)"
      using n by (simp add: fire_at_def quiet_def run_timer_ops_def)
    ultimately show ?thesis using fire i n unfolding cur ti
      by (subst tick_slot.simps) (simp add: Let_def due_def waits_def erase_at_def)
  next
    case skip
    let ?w = "skip_at i (snd ?t)"
    have cur: "cur_list ?w = take i (cur_list w) @ next_round n # l"
      using n upd i by (simp add: skip_at_def set_cur_def next_round_def upd_conv_take_nth_drop)
    have len: "length (take i (cur_list w)) = i" using i by simp
    have r: "tn_rounds (cur_list (snd ?t) ! i) \<noteq> 0" using skip n by (simp add: waits_def)
    have dl: "drop (Suc i) (cur_list ?w) = l" "Suc i \<le> length (cur_list ?w)" unfolding cur using i by simp_all
    have inv': "wheel_inv ?w" using wheel_inv_skip_at [OF _ _ r] Cons.prems(1) i by simp
    have "\<exists>w'. tick_slot clock (quiet f) (Suc i) (?w, s) = Some (w', fold f (map tn_cb (filter due l)) s) \<and>
      slots w' = (slots ?w)[nat (current_slot ?w) := take (Suc i) (cur_list ?w) @ map next_round (filter waits l)] \<and>
      current_slot w' = current_slot ?w"
      by (rule Cons.IH [OF inv' dl]) (use Cons.prems(4) in auto)
    moreover have "take (Suc i) (cur_list ?w) = take i (cur_list w) @ [next_round n]"
      unfolding cur using len by simp
    ultimately show ?thesis using skip i n
      by (subst tick_slot.simps) (simp add: Let_def due_def waits_def skip_at_def set_cur_def)
  qed
qed

text \<open>No node waiting for another revolution is past its deadline at any reading of the clock.\<close>

definition on_time :: "(nat \<Rightarrow> int) \<Rightarrow> 'c wheel \<Rightarrow> bool" where
  "on_time clock w \<longleftrightarrow> (\<forall>k n j. node_at w k n \<longrightarrow> waits n \<longrightarrow> clock j < tn_expire n)"

lemma shift_mod:
  fixes a c :: int
  shows "(a - c) mod 1024 = 0 \<Longrightarrow> (a - ((c + 1) mod 1024)) mod 1024 = 1023"
    and "(a - c) mod 1024 \<noteq> 0 \<Longrightarrow> (a - ((c + 1) mod 1024)) mod 1024 = (a - c) mod 1024 - 1"
proof -
  have "(a - ((c + 1) mod 1024)) mod 1024 = (a - c - 1) mod 1024" by (simp add: mod_diff_right_eq algebra_simps)
  also have "\<dots> = ((a - c) mod 1024 - 1) mod 1024" by (simp add: mod_diff_left_eq)
  finally have e: "(a - ((c + 1) mod 1024)) mod 1024 = ((a - c) mod 1024 - 1) mod 1024" .
  have r: "0 \<le> (a - c) mod 1024" "(a - c) mod 1024 < 1024" by simp_all
  show "(a - c) mod 1024 = 0 \<Longrightarrow> (a - ((c + 1) mod 1024)) mod 1024 = 1023" unfolding e by simp
  show "(a - c) mod 1024 \<noteq> 0 \<Longrightarrow> (a - ((c + 1) mod 1024)) mod 1024 = (a - c) mod 1024 - 1"
    unfolding e using r by (intro mod_pos_pos_trivial) linarith+
qed

lemma slot_at_cur:
  assumes "0 \<le> c" and "c < 1024" and "k < 1024"
  shows "(int k - c) mod 1024 = 0 \<longleftrightarrow> k = nat c"
proof
  assume "(int k - c) mod 1024 = 0"
  then have "int k mod 1024 = c mod 1024" by (simp add: mod_eq_dvd_iff dvd_eq_mod_eq_0)
  then show "k = nat c" using assms by simp
qed (use assms in simp)

lemma countdownI:
  "node_at w k n \<Longrightarrow> \<not> tn_isDeleted n \<Longrightarrow> (tn_ref n, turns_left w k n) \<in> countdown w"
  by (auto simp: countdown_def)

lemma one_turn:
  assumes inv: "wheel_inv w" and ot: "on_time clock w"
  shows "\<exists>w'. tick_slot clock (quiet f) 0 (w, s) =
      Some (w', fold f (map tn_cb (filter due (cur_list w))) s) \<and>
    (let v = w'\<lparr>current_slot := (current_slot w' + 1) smod WHEEL_SIZE\<rparr> in wheel_inv v \<and>
      countdown v = {(r, k - 1) | r k. (r, k) \<in> countdown w \<and> 1 \<le> k} \<and>
      (\<forall>k n. node_at v k n \<longrightarrow> (\<exists>n'. node_at w k n' \<and> n = next_round n' \<and> waits n') \<or> node_at w k n))"
proof -
  have c: "0 \<le> current_slot w" "current_slot w < 1024" using inv by (simp_all add: wheel_inv_def WHEEL_SIZE_def)
  let ?k = "nat (current_slot w)" and ?l = "map next_round (filter waits (cur_list w))"
  have len: "?k < length (slots w)" "length (slots w) = 1024"
    using cur_in_range [OF inv] inv by (simp_all add: wheel_inv_def)
  have "\<exists>w'. tick_slot clock (quiet f) 0 (w, s) =
      Some (w', fold f (map tn_cb (filter due (cur_list w))) s) \<and>
    slots w' = (slots w)[?k := take 0 (cur_list w) @ ?l] \<and> current_slot w' = current_slot w"
    using ot len by (intro tick_slot_quiet [OF inv]) (auto simp: on_time_def node_at_def)
  then obtain w' where w': "tick_slot clock (quiet f) 0 (w, s) =
      Some (w', fold f (map tn_cb (filter due (cur_list w))) s)"
    "slots w' = (slots w)[?k := ?l]" "current_slot w' = current_slot w" by auto
  let ?v = "w'\<lparr>current_slot := (current_slot w' + 1) smod WHEEL_SIZE\<rparr>"
  have invv: "wheel_inv ?v" using tick_slot_inv [OF w'(1)] inv wheel_inv_advance by simp
  have cv: "current_slot ?v = (current_slot w + 1) mod 1024"
    using c by (simp add: w' smod_nonneg WHEEL_SIZE_def)
  have at: "node_at ?v k n \<longleftrightarrow> (if k = ?k then n \<in> set ?l else node_at w k n)" for k n
    using len by (auto simp: node_at_def w')
  have atl: "n \<in> set ?l \<longleftrightarrow> (\<exists>n'. node_at w ?k n' \<and> waits n' \<and> n = next_round n')" for n
    using len by (auto simp: node_at_def)
  have at_cur: "turns_left ?v ?k (next_round n) = turns_left w ?k n - 1" for n
    using shift_mod(1) [of "int ?k" "current_slot w"] c by (simp add: turns_left_def cv next_round_def)
  have at_other: "turns_left ?v k n = turns_left w k n - 1 \<and> (0 \<le> tn_rounds n \<longrightarrow> 1 \<le> turns_left w k n)"
    if "k \<noteq> ?k" "k < 1024" for k n
  proof -
    have nz: "(int k - current_slot w) mod 1024 \<noteq> 0" using slot_at_cur [OF c that(2)] that(1) by simp
    moreover have "0 \<le> (int k - current_slot w) mod 1024" by simp
    ultimately have "1 \<le> (int k - current_slot w) mod 1024" by linarith
    then show ?thesis using shift_mod(2) [OF nz] by (simp add: turns_left_def cv)
  qed
  have pos: "0 \<le> tn_rounds n \<and> k < 1024" if "node_at w k n" for k n
    using inv that by (simp add: wheel_inv_def node_at_def)
  have cur_left: "turns_left w ?k n = 1024 * tn_rounds n" for n using c by (simp add: turns_left_def)
  have "countdown ?v = {(r, k - 1) | r k. (r, k) \<in> countdown w \<and> 1 \<le> k}"
  proof (intro set_eqI iffI)
    fix x assume "x \<in> countdown ?v"
    then obtain k n where n: "x = (tn_ref n, turns_left ?v k n)" "node_at ?v k n" "\<not> tn_isDeleted n"
      by (auto simp: countdown_def)
    show "x \<in> {(r, k - 1) | r k. (r, k) \<in> countdown w \<and> 1 \<le> k}"
    proof (cases "k = ?k")
      case True
      then obtain n' where n': "node_at w ?k n'" "waits n'" "n = next_round n'" using n(2) at atl by auto
      have "1 \<le> turns_left w ?k n'" using pos [OF n'(1)] n'(2) by (simp add: cur_left waits_def)
      moreover have "(tn_ref n', turns_left w ?k n') \<in> countdown w"
        using n' by (auto simp: countdown_def waits_def)
      moreover have "x = (tn_ref n', turns_left w ?k n' - 1)"
        using n(1) n'(3) True at_cur by (simp add: next_round_def)
      ultimately show ?thesis by blast
    next
      case False
      then have "node_at w k n" using n(2) at by simp
      then have "(tn_ref n, turns_left w k n) \<in> countdown w" using n(3) by (auto simp: countdown_def)
      then show ?thesis using at_other [OF False] pos [OF \<open>node_at w k n\<close>] n(1) by auto
    qed
  next
    fix x assume "x \<in> {(r, k - 1) | r k. (r, k) \<in> countdown w \<and> 1 \<le> k}"
    then obtain k n where n: "x = (tn_ref n, turns_left w k n - 1)" "node_at w k n" "\<not> tn_isDeleted n"
      "1 \<le> turns_left w k n" by (auto simp: countdown_def)
    show "x \<in> countdown ?v"
    proof (cases "k = ?k")
      case True
      then have "waits n" using n(3,4) cur_left by (auto simp: waits_def)
      then have "node_at ?v ?k (next_round n)" using n(2) True at atl by auto
      then have "(tn_ref (next_round n), turns_left ?v ?k (next_round n)) \<in> countdown ?v"
        by (rule countdownI) (simp add: n(3) next_round_def)
      then show ?thesis using at_cur n(1) True by (simp add: next_round_def)
    next
      case False
      then have "node_at ?v k n" using n(2) at by simp
      then have "(tn_ref n, turns_left ?v k n) \<in> countdown ?v" using n(3) unfolding countdown_def by blast
      then show ?thesis using at_other [OF False] pos [OF n(2)] n(1) by simp
    qed
  qed
  moreover have "(\<exists>n'. node_at w k n' \<and> n = next_round n' \<and> waits n') \<or> node_at w k n" if "node_at ?v k n" for k n
    using that at atl by (auto split: if_splits)
  ultimately show ?thesis using w'(1) invv by (auto simp: Let_def)
qed

lemma countdown_functional:
  assumes "wheel_inv w" and "(r, a) \<in> countdown w" and "(r, b) \<in> countdown w"
  shows "a = b"
proof -
  obtain k n k' n' where n: "node_at w k n" "tn_ref n = r" "a = turns_left w k n"
    "node_at w k' n'" "tn_ref n' = r" "b = turns_left w k' n'"
    using assms(2,3) by (auto simp: countdown_def)
  have "n = n'" using node_unique [OF assms(1) n(1,4)] n(2,5) by simp
  moreover have "k = k'" using assms(1) n(1,2,4,5) unfolding wheel_inv_def by metis
  ultimately show ?thesis using n(3,6) by simp
qed

lemma due_refs:
  assumes inv: "wheel_inv w"
  shows "set (map tn_ref (filter due (cur_list w))) = {r. (r, 0) \<in> countdown w}"
proof -
  have c: "0 \<le> current_slot w" "current_slot w < 1024" using inv by (simp_all add: wheel_inv_def WHEEL_SIZE_def)
  have len: "nat (current_slot w) < length (slots w)"
    using cur_in_range [OF inv] inv by (simp add: wheel_inv_def)
  have zero: "turns_left w k n = 0 \<longleftrightarrow> k = nat (current_slot w) \<and> tn_rounds n = 0" if "node_at w k n" for k n
  proof -
    have k: "k < 1024" "0 \<le> tn_rounds n" using inv that by (simp_all add: wheel_inv_def node_at_def)
    have "0 \<le> (int k - current_slot w) mod 1024" by simp
    then show ?thesis using slot_at_cur [OF c k(1)] k(2) by (auto simp: turns_left_def)
  qed
  show ?thesis
  proof (intro set_eqI iffI)
    fix r assume "r \<in> set (map tn_ref (filter due (cur_list w)))"
    then obtain n where n: "n \<in> set (cur_list w)" "due n" "tn_ref n = r" by auto
    then have at: "node_at w (nat (current_slot w)) n" using len by (simp add: node_at_def)
    then show "r \<in> {r. (r, 0) \<in> countdown w}" using countdownI [OF at] zero [OF at] n by (auto simp: due_def)
  next
    fix r assume "r \<in> {r. (r, 0) \<in> countdown w}"
    then obtain k n where n: "node_at w k n" "tn_ref n = r" "turns_left w k n = 0" "\<not> tn_isDeleted n"
      unfolding countdown_def by force
    then show "r \<in> set (map tn_ref (filter due (cur_list w)))"
      using zero [OF n(1)] by (force simp: node_at_def due_def)
  qed
qed

text \<open>The callback registered for an iterator.\<close>

definition registered :: "'c wheel \<Rightarrow> (nat \<times> int \<times> 'c) set" where
  "registered w = {(tn_ref n, tn_id n, tn_cb n) | k n. node_at w k n}"

lemma tick_steps_quiet:
  fixes w :: "'c wheel"
  assumes "wheel_inv w" and "on_time clock w"
  shows "\<exists>w' (fired :: 'c timer_node list). tick_steps clock (quiet f) m (w, s) = Some (w', fold f (map tn_cb fired) s) \<and>
    countdown w' = {(r, k). 0 \<le> k \<and> (r, k + int m) \<in> countdown w} \<and>
    distinct (map tn_ref fired) \<and>
    set (map tn_ref fired) = {r. \<exists>k < int m. (r, k) \<in> countdown w} \<and>
    (\<lambda>n. (tn_ref n, tn_id n, tn_cb n)) ` set fired \<subseteq> registered w"
  using assms
proof (induction m arbitrary: w s)
  case 0
  have "0 \<le> k" if "(r, k) \<in> countdown w" for r k
    using that 0(1) by (auto simp: countdown_def wheel_inv_def turns_left_def)
  then have "countdown w = {(r, k). 0 \<le> k \<and> (r, k + int 0) \<in> countdown w}"
    "set (map tn_ref []) = {r. \<exists>k < int 0. (r, k) \<in> countdown w}" by force+
  then show ?case by (intro exI [of _ w] exI [of _ "[]"]) simp
next
  case (Suc m)
  obtain w1 where w1: "tick_slot clock (quiet f) 0 (w, s) =
      Some (w1, fold f (map tn_cb (filter due (cur_list w))) s)"
    and v: "let v = w1\<lparr>current_slot := (current_slot w1 + 1) smod WHEEL_SIZE\<rparr> in wheel_inv v \<and>
      countdown v = {(r, k - 1) | r k. (r, k) \<in> countdown w \<and> 1 \<le> k} \<and>
      (\<forall>k n. node_at v k n \<longrightarrow> (\<exists>n'. node_at w k n' \<and> n = next_round n' \<and> waits n') \<or> node_at w k n)"
    using one_turn [OF Suc.prems, of f s] by blast
  let ?v = "w1\<lparr>current_slot := (current_slot w1 + 1) smod WHEEL_SIZE\<rparr>"
  let ?fd = "filter due (cur_list w)"
  have inv: "wheel_inv ?v" and cd: "countdown ?v = {(r, k - 1) | r k. (r, k) \<in> countdown w \<and> 1 \<le> k}"
    and nodes: "\<And>k n. node_at ?v k n \<Longrightarrow> (\<exists>n'. node_at w k n' \<and> n = next_round n' \<and> waits n') \<or> node_at w k n"
    using v by (simp_all add: Let_def)
  have cdv: "(r, k) \<in> countdown ?v \<longleftrightarrow> 0 \<le> k \<and> (r, k + 1) \<in> countdown w" for r k
    unfolding cd by (auto intro!: exI [of _ "k + 1"])
  have "on_time clock ?v"
    unfolding on_time_def
  proof (intro allI impI)
    fix k n j assume "node_at ?v k n" "waits n"
    then show "clock j < tn_expire n"
      using nodes [of k n] Suc.prems(2) unfolding on_time_def by (auto simp: next_round_def)
  qed
  from Suc.IH [OF inv this, of "fold f (map tn_cb ?fd) s"] obtain w' and fired :: "'c timer_node list" where IH:
    "tick_steps clock (quiet f) m (?v, fold f (map tn_cb ?fd) s) =
       Some (w', fold f (map tn_cb fired) (fold f (map tn_cb ?fd) s))"
    "countdown w' = {(r, k). 0 \<le> k \<and> (r, k + int m) \<in> countdown ?v}"
    "distinct (map tn_ref fired)"
    "set (map tn_ref fired) = {r. \<exists>k < int m. (r, k) \<in> countdown ?v}"
    "(\<lambda>n. (tn_ref n, tn_id n, tn_cb n)) ` set fired \<subseteq> registered ?v" by blast
  have len: "nat (current_slot w) < length (slots w)" and lk: "nat (current_slot w) < 1024"
    using cur_in_range [OF Suc.prems(1)] Suc.prems(1) by (simp_all add: wheel_inv_def)
  note dr = due_refs [OF Suc.prems(1)]
  have c1: "tick_steps clock (quiet f) (Suc m) (w, s) = Some (w', fold f (map tn_cb (?fd @ fired)) s)"
    using w1 IH(1) by simp
  have pos: "0 \<le> k" if "(r, k) \<in> countdown w" for r k
    using that Suc.prems(1) by (auto simp: countdown_def wheel_inv_def turns_left_def)
  have c2: "countdown w' = {(r, k). 0 \<le> k \<and> (r, k + int (Suc m)) \<in> countdown w}"
  proof -
    have e: "k + int m + 1 = k + int (Suc m)" for k by simp
    show ?thesis unfolding IH(2) cdv e by (simp only: of_nat_Suc) auto
  qed
  have d1: "distinct (map tn_ref ?fd)"
    using Suc.prems(1) lk by (simp add: wheel_inv_def distinct_map_filter)
  have disj: "set (map tn_ref ?fd) \<inter> set (map tn_ref fired) = {}"
  proof -
    have "\<not> ((r, 0) \<in> countdown w \<and> 0 \<le> k \<and> (r, k + 1) \<in> countdown w)" for r k
      using countdown_functional [OF Suc.prems(1), of r 0 "k + 1"] by auto
    then show ?thesis unfolding dr IH(4) cdv by blast
  qed
  have c3: "distinct (map tn_ref (?fd @ fired))" using d1 disj IH(3) by simp
  have c4: "set (map tn_ref (?fd @ fired)) = {r. \<exists>k < int (Suc m). (r, k) \<in> countdown w}"
  proof -
    have "set (map tn_ref (?fd @ fired)) = set (map tn_ref ?fd) \<union> set (map tn_ref fired)" by simp
    also have "\<dots> = {r. (r, 0) \<in> countdown w} \<union> {r. \<exists>k < int m. (r, k + 1) \<in> countdown w \<and> 0 \<le> k}"
      unfolding dr IH(4) cdv by blast
    also have "\<dots> = {r. \<exists>k < int (Suc m). (r, k) \<in> countdown w}"
    proof (intro set_eqI iffI)
      fix r assume "r \<in> {r. \<exists>k < int (Suc m). (r, k) \<in> countdown w}"
      then obtain k where k: "k < int (Suc m)" "(r, k) \<in> countdown w" by blast
      show "r \<in> {r. (r, 0) \<in> countdown w} \<union> {r. \<exists>k < int m. (r, k + 1) \<in> countdown w \<and> 0 \<le> k}"
      proof (cases "k = 0")
        case False
        then show ?thesis using k pos [OF k(2)] by (intro UnI2 CollectI exI [of _ "k - 1"]) simp
      qed (use k in simp)
    next
      fix r assume "r \<in> {r. (r, 0) \<in> countdown w} \<union> {r. \<exists>k < int m. (r, k + 1) \<in> countdown w \<and> 0 \<le> k}"
      then consider "(r, 0) \<in> countdown w" | k where "k < int m" "(r, k + 1) \<in> countdown w" by blast
      then show "r \<in> {r. \<exists>k < int (Suc m). (r, k) \<in> countdown w}"
      proof cases
        case 1
        then show ?thesis by (intro CollectI exI [of _ 0]) simp
      next
        case (2 k)
        then show ?thesis by (intro CollectI exI [of _ "k + 1"]) simp
      qed
    qed
    finally show ?thesis .
  qed
  have "registered ?v \<subseteq> registered w"
    unfolding registered_def using nodes by (force simp: next_round_def)
  moreover have "(\<lambda>n. (tn_ref n, tn_id n, tn_cb n)) ` set ?fd \<subseteq> registered w"
    using len by (auto simp: registered_def node_at_def)
  ultimately have c5: "(\<lambda>n. (tn_ref n, tn_id n, tn_cb n)) ` set (?fd @ fired) \<subseteq> registered w"
    using IH(5) by (simp add: image_Un)
  show ?case using c1 c2 c3 c4 c5 by blast
qed

section \<open>Properties\<close>

text \<open>
  C19. A stored iterator never dangles: every operation, and \<open>Tick\<close> with callbacks that add and
  remove timers at will, keeps each entry of \<open>timer_map_\<close> pointing at a node of its slot with that
  id which is not marked deleted.
\<close>

theorem timer_map_never_dangles:
  assumes "wheel_inv w"
  shows "wheel_inv (TimeWheel_AddTimer clock ident cb d w) \<and> wheel_inv (TimeWheel_RemoveTimer ident w) \<and>
    (\<forall>w' s'. TimeWheel_Tick clock run (w, s) = Some (w', s') \<longrightarrow> wheel_inv w') \<and>
    (timer_map w ident = Some (k, r) \<longrightarrow>
      (\<exists>n \<in> set (slots w ! k). tn_ref n = r \<and> tn_id n = ident \<and> \<not> tn_isDeleted n))"
proof (intro conjI allI impI)
  fix w' s' assume "TimeWheel_Tick clock run (w, s) = Some (w', s')"
  from wheel_inv_Tick [OF this] assms show "wheel_inv w'" by simp
next
  assume "timer_map w ident = Some (k, r)"
  from timer_mapD [OF assms this]
  show "\<exists>n \<in> set (slots w ! k). tn_ref n = r \<and> tn_id n = ident \<and> \<not> tn_isDeleted n"
    unfolding node_at_def by metis
qed (use assms in \<open>simp_all add: wheel_inv_AddTimer wheel_inv_RemoveTimer\<close>)

theorem timer_map_never_dangles_witness:
  "\<exists>n \<in> set (slots (TimeWheel_AddTimer (\<lambda>_. 0) 4 () 50 (TimeWheel_new (\<lambda>_. 0) 10)) ! 5). tn_id n = 4"
  using timer_map_never_dangles [where ident = 4 and k = 5 and r = 0,
      OF wheel_inv_AddTimer [OF wheel_inv_new [of 10 "\<lambda>_. 0"], of "\<lambda>_. 0" 4 "()" 50]]
  by (auto simp: TimeWheel_AddTimer_def TimeWheel_new_def WHEEL_SIZE_def Let_def sdiv_nonneg smod_nonneg)


lemma on_time_new: "on_time clock (TimeWheel_new c tick)"
  by (auto simp: on_time_def node_at_def TimeWheel_new_def)


text \<open>
  \<open>Tick\<close> returns when no callback adds a timer to the slot being scanned, that is with a delay
  whose number of ticks is a multiple of the wheel size; adding and removing timers elsewhere, and
  removing the ones being scanned, is safe.
\<close>

theorem Tick_returns:
  assumes "wheel_inv w" and "\<forall>c s. \<forall>a \<in> set (snd (run c s)). adds_elsewhere (tick_ms w) a"
  shows "\<exists>w' s'. TimeWheel_Tick clock run (w, s) = Some (w', s')"
proof -
  let ?ws = "(w\<lparr>clock_reads := clock_reads w + 1\<rparr>, s)"
  have "\<exists>ws'. tick_steps clock run m ?ws = Some ws'" for m
    using assms by (intro tick_steps_returns) simp_all
  then obtain ws' where "tick_steps clock run (nat (elapsed_ticks (clock (clock_reads w)) w)) ?ws = Some ws'"
    by blast
  then show ?thesis by (cases ws') (simp add: TimeWheel_Tick_def Let_def)
qed

theorem Tick_returns_witness:
  "\<exists>w' s'. TimeWheel_Tick (\<lambda>k. int k * 20000000) (\<lambda>c s. (Suc s, [Op_RemoveTimer 4, Op_AddTimer 4 c 30]))
      (TimeWheel_new (\<lambda>_. 0) 10 :: unit wheel, 0 :: nat) = Some (w', s')"
  by (rule Tick_returns [OF wheel_inv_new])
    (simp_all add: TimeWheel_new_def WHEEL_SIZE_def sdiv_nonneg smod_nonneg)

text \<open>
  A callback that keeps adding a timer shorter than one tick, each time under a new id, as a
  retry from a timeout callback does, keeps \<open>Tick\<close> from ever returning: the event loop hangs.
\<close>

theorem Tick_diverges:
  assumes "wheel_inv w" and "cur_list w \<noteq> []" and "due (last (cur_list w))"
    and "\<forall>ident \<in> dom (timer_map w). ident < s" and "0 \<le> d" and "d < tick_ms w"
    and "0 < elapsed_ticks (clock (clock_reads w)) w"
  shows "TimeWheel_Tick clock (\<lambda>c s. (s + 1, [Op_AddTimer s c d])) (w, s) = None"
proof -
  have f: "feeding 0 (w\<lparr>clock_reads := clock_reads w + 1\<rparr>, s)"
    using assms(1-4) by (simp add: feeding_def due_def)
  obtain k where k: "nat (elapsed_ticks (clock (clock_reads w)) w) = Suc k"
    using assms(7) by (metis gr0_implies_Suc zero_less_nat_eq)
  show ?thesis using tick_slot_diverges [OF f assms(5)] assms(6,7) k
    by (simp add: TimeWheel_Tick_def Let_def)
qed

theorem Tick_diverges_witness:
  "TimeWheel_Tick (\<lambda>k. int k * 10000000) (\<lambda>c s. (s + 1, [Op_AddTimer s c 0]))
     (TimeWheel_AddTimer (\<lambda>k. int k * 10000000) 0 () 5 (TimeWheel_new (\<lambda>k. int k * 10000000) 10), 1) = None"
  by (rule Tick_diverges [OF wheel_inv_AddTimer [OF wheel_inv_new]])
    (auto simp: TimeWheel_AddTimer_def TimeWheel_new_def WHEEL_SIZE_def Let_def sdiv_nonneg smod_nonneg
      due_def elapsed_ticks_def ns_per_ms_def signed_take_bit_int_eq_self split: if_splits)

text \<open>
  A timer can fire early: its turns are counted from the last \<open>Tick\<close>, not from the time it was
  added, so if the next \<open>Tick\<close> covers more ticks than the delay then it fires the timer, whatever
  the clock read when the timer was added. In the witness a 50 ms timer fires after 1 ms.
\<close>

theorem Tick_fires_early:
  fixes w :: "'c wheel" and d :: int and clock :: "nat \<Rightarrow> int" and ident :: int and cb :: 'c
  defines "w1 \<equiv> TimeWheel_AddTimer clock ident cb d w"
  assumes "wheel_inv w" and "on_time clock w" and "timer_map w ident = None" and "0 \<le> d"
    and "d div tick_ms w < 1024" and "d div tick_ms w < elapsed_ticks (clock (clock_reads w1)) w1"
  shows "\<exists>w' (fired :: 'c timer_node list).
    TimeWheel_Tick clock (quiet f) (w1, s) = Some (w', fold f (map tn_cb fired) s) \<and>
    next_ref w \<in> set (map tn_ref fired)"
proof -
  let ?w = "w1\<lparr>clock_reads := clock_reads w1 + 1\<rparr>"
  let ?m = "nat (elapsed_ticks (clock (clock_reads w1)) w1)"
  have inv: "wheel_inv ?w" using wheel_inv_AddTimer [OF assms(2)] by (simp add: w1_def)
  have q: "0 \<le> d div tick_ms w" using AddTimer_target(4) [OF assms(2,5)] .
  then have r0: "d sdiv tick_ms w sdiv WHEEL_SIZE = 0"
    using AddTimer_target [OF assms(2,5)] assms(6) by simp
  have old: "node_at w k n \<or> tn_rounds n = 0" if "node_at ?w k n" for k n
    using that r0 assms(4,5)
    by (auto simp: w1_def TimeWheel_AddTimer_def Let_def node_at_def nth_update_if split: if_splits)
  have ot: "on_time clock ?w"
    unfolding on_time_def
  proof (intro allI impI)
    fix k n j assume "node_at ?w k n" "waits n"
    then show "clock j < tn_expire n" using old [of k n] assms(3) by (auto simp: on_time_def waits_def)
  qed
  have "countdown ?w = countdown w1" by (simp add: countdown_def node_at_def turns_left_def)
  then have cd: "(next_ref w, d div tick_ms w) \<in> countdown ?w"
    using countdown_AddTimer [OF assms(2,5,4)] by (simp add: w1_def)
  obtain w' and fired :: "'c timer_node list" where
    ts: "tick_steps clock (quiet f) ?m (?w, s) = Some (w', fold f (map tn_cb fired) s)"
    and fd: "set (map tn_ref fired) = {r. \<exists>k < int ?m. (r, k) \<in> countdown ?w}"
    using tick_steps_quiet [OF inv ot, of f ?m s] by blast
  have "next_ref w \<in> set (map tn_ref fired)" unfolding fd using cd assms(7) q by force
  moreover have "elapsed_ticks (clock (clock_reads w1)) w1 \<noteq> 0" using assms(7) q by simp
  ultimately show ?thesis using ts by (auto simp: TimeWheel_Tick_def Let_def)
qed

lemma fold_Suc: "fold (\<lambda>_. Suc) xs n = n + length xs"
  by (induction xs arbitrary: n) simp_all

theorem Tick_fires_early_witness:
  "let clock = (\<lambda>k. [0, 99, 100] ! k * 1000000);
       w1 = TimeWheel_AddTimer clock 4 () 50 (TimeWheel_new clock 10)
   in tn_expire (slots w1 ! 5 ! 0) = 149000000 \<and> clock (clock_reads w1) = 100000000 \<and>
     (\<exists>w' calls. TimeWheel_Tick clock (quiet (\<lambda>_. Suc)) (w1, 0) = Some (w', calls) \<and> 1 \<le> calls)"
proof -
  let ?clock = "\<lambda>k. [0, 99, 100] ! k * 1000000 :: int"
  let ?w = "TimeWheel_new ?clock 10 :: unit wheel"
  let ?w1 = "TimeWheel_AddTimer ?clock 4 () 50 ?w"
  have "elapsed_ticks (?clock (clock_reads ?w1)) ?w1 = 10"
    by (simp add: TimeWheel_AddTimer_def TimeWheel_new_def WHEEL_SIZE_def Let_def elapsed_ticks_def
        ns_per_ms_def sdiv_nonneg signed_take_bit_int_eq_self)
  then have "\<exists>w' (fired :: unit timer_node list). TimeWheel_Tick ?clock (quiet (\<lambda>_. Suc)) (?w1, 0) =
      Some (w', fold (\<lambda>_. Suc) (map tn_cb fired) 0) \<and> next_ref ?w \<in> set (map tn_ref fired)"
    by (intro Tick_fires_early wheel_inv_new on_time_new) (simp_all add: TimeWheel_new_def)
  then obtain w' and fired :: "unit timer_node list" where
    r: "TimeWheel_Tick ?clock (quiet (\<lambda>_. Suc)) (?w1, 0) = Some (w', fold (\<lambda>_. Suc) (map tn_cb fired) 0)"
      "next_ref ?w \<in> set (map tn_ref fired)" by blast
  have "1 \<le> length fired" using r(2) by (cases fired) simp_all
  then show ?thesis using r(1) [unfolded fold_Suc]
    by (auto simp: TimeWheel_AddTimer_def TimeWheel_new_def WHEEL_SIZE_def Let_def sdiv_nonneg smod_nonneg
        ns_per_ms_def)
qed

end
