(* ===== verification/EpollModel.thy ===== *)
theory EpollModel
  imports LrPrelude
begin

text \<open>
  \<open>code/network/epoll\<close>: the wrapper around an epoll instance.

  The kernel is not part of the repository: its calls are the fields of a record \<open>kernel\<close> over an
  arbitrary kernel state, and \<open>epoll_laws\<close> states what epoll_ctl(2) documents of the interest list.
  A call returns its value and \<open>errno\<close>. \<open>epoll_event.data\<close> is a union of a 32-bit \<open>int fd\<close> and a
  64-bit pointer on a little-endian machine: writing \<open>fd\<close> replaces the low half, writing \<open>ptr\<close> all
  of it. A pointer to a channel is a 64-bit word, \<open>nullptr\<close> is 0.
\<close>

unbundle bit_operations_syntax

type_synonym ptr = "64 word"
type_synonym events = "32 word"

definition EPOLLIN :: events where "EPOLLIN = 0x001"
definition EPOLLOUT :: events where "EPOLLOUT = 0x004"
definition EPOLLERR :: events where "EPOLLERR = 0x008"
definition EPOLLHUP :: events where "EPOLLHUP = 0x010"
definition EPOLLRDHUP :: events where "EPOLLRDHUP = 0x2000"

lemmas epoll_masks = EPOLLIN_def EPOLLOUT_def EPOLLERR_def EPOLLHUP_def EPOLLRDHUP_def

definition ENOENT :: int where "ENOENT = 2"
definition EEXIST :: int where "EEXIST = 17"

record epoll_event =
  ev_events :: events
  ev_data :: "64 word"

text \<open>The two writes to the union and the two reads.\<close>

definition data_set_fd :: "int \<Rightarrow> 64 word \<Rightarrow> 64 word" where
  "data_set_fd fd d = push_bit 32 (drop_bit 32 d) OR ucast (word_of_int fd :: 32 word)"

definition data_set_ptr :: "ptr \<Rightarrow> 64 word \<Rightarrow> 64 word" where
  "data_set_ptr p d = p"

definition data_fd :: "64 word \<Rightarrow> int" where
  "data_fd d = sint (ucast d :: 32 word)"

definition data_ptr :: "64 word \<Rightarrow> ptr" where
  "data_ptr d = d"

section \<open>The kernel interface\<close>

datatype epoll_op = EPOLL_CTL_ADD | EPOLL_CTL_MOD | EPOLL_CTL_DEL

record 'k kernel =
  sys_epoll_create1 :: "'k \<Rightarrow> int \<times> 'k"
  sys_epoll_ctl :: "int \<Rightarrow> epoll_op \<Rightarrow> int \<Rightarrow> epoll_event option \<Rightarrow> 'k \<Rightarrow> (int \<times> int) \<times> 'k"
  sys_epoll_wait :: "int \<Rightarrow> nat \<Rightarrow> int \<Rightarrow> 'k \<Rightarrow> epoll_event list option \<times> 'k"
  sys_fcntl_getfl :: "int \<Rightarrow> 'k \<Rightarrow> int \<times> 'k"
  sys_fcntl_setfl :: "int \<Rightarrow> int \<Rightarrow> 'k \<Rightarrow> int \<times> 'k"
  sys_close :: "int \<Rightarrow> 'k \<Rightarrow> 'k"

definition O_NONBLOCK :: "32 word" where "O_NONBLOCK = 0x800"

section \<open>Epoller\<close>

record epoller =
  epollFd :: int
  event_buf :: "epoll_event list"

definition no_event :: epoll_event where
  "no_event = \<lparr>ev_events = 0, ev_data = 0\<rparr>"

definition Epoller_new :: "'k kernel \<Rightarrow> nat \<Rightarrow> 'k \<Rightarrow> epoller \<times> 'k" where
  "Epoller_new sys maxEventCount k =
     (let (fd, k') = sys_epoll_create1 sys k
      in (\<lparr>epollFd = fd, event_buf = replicate maxEventCount no_event\<rparr>, k'))"

definition Epoller_delete :: "'k kernel \<Rightarrow> epoller \<Rightarrow> 'k \<Rightarrow> 'k" where
  "Epoller_delete sys e k = (if 0 \<le> epollFd e then sys_close sys (epollFd e) k else k)"

text \<open>
  \<open>ev\<close> is an uninitialised local: \<open>junk\<close> is its old \<open>data\<close>. Both writes to the union are made, in
  the order of the source.
\<close>

definition make_event :: "64 word \<Rightarrow> int \<Rightarrow> events \<Rightarrow> ptr \<Rightarrow> epoll_event" where
  "make_event junk fd events channel =
     \<lparr>ev_events = events OR EPOLLRDHUP, ev_data = data_set_ptr channel (data_set_fd fd junk)\<rparr>"

definition Epoller_AddFd ::
  "'k kernel \<Rightarrow> 64 word \<Rightarrow> epoller \<Rightarrow> int \<Rightarrow> events \<Rightarrow> ptr \<Rightarrow> 'k \<Rightarrow> bool \<times> 'k" where
  "Epoller_AddFd sys junk e fd events channel k =
     (if fd < 0 then (False, k)
      else
        let ev = make_event junk fd events channel;
            ((ret, err), k1) = sys_epoll_ctl sys (epollFd e) EPOLL_CTL_ADD fd (Some ev) k
        in (ret = 0, k1))"

definition Epoller_ModFd ::
  "'k kernel \<Rightarrow> 64 word \<Rightarrow> epoller \<Rightarrow> int \<Rightarrow> events \<Rightarrow> ptr \<Rightarrow> 'k \<Rightarrow> bool \<times> 'k" where
  "Epoller_ModFd sys junk e fd events channel k =
     (if fd < 0 then (False, k)
      else
        let ev = make_event junk fd events channel;
            ((ret, err), k1) = sys_epoll_ctl sys (epollFd e) EPOLL_CTL_MOD fd (Some ev) k
        in if ret \<noteq> 0 \<and> err = ENOENT
           then let ((ret2, err2), k2) = sys_epoll_ctl sys (epollFd e) EPOLL_CTL_ADD fd (Some ev) k1
                in (ret2 = 0, k2)
           else (ret = 0, k1))"

definition Epoller_DelFd :: "'k kernel \<Rightarrow> epoller \<Rightarrow> int \<Rightarrow> 'k \<Rightarrow> bool \<times> 'k" where
  "Epoller_DelFd sys e fd k =
     (if fd < 0 then (False, k)
      else let ((ret, err), k1) = sys_epoll_ctl sys (epollFd e) EPOLL_CTL_DEL fd None k in (ret = 0, k1))"

text \<open>\<open>epoll_wait\<close> fills the front of \<open>events_\<close>; on failure it returns -1 and writes nothing.\<close>

definition Epoller_Wait :: "'k kernel \<Rightarrow> int \<Rightarrow> epoller \<Rightarrow> 'k \<Rightarrow> int \<times> epoller \<times> 'k" where
  "Epoller_Wait sys timeoutMs e k =
     (case sys_epoll_wait sys (epollFd e) (length (event_buf e)) timeoutMs k of
        (None, k') \<Rightarrow> (-1, e, k')
      | (Some evs, k') \<Rightarrow>
          (int (length evs), e\<lparr>event_buf := evs @ drop (length evs) (event_buf e)\<rparr>, k'))"

definition Epoller_GetEventFd :: "epoller \<Rightarrow> nat \<Rightarrow> int" where
  "Epoller_GetEventFd e i = data_fd (ev_data (event_buf e ! i))"

definition Epoller_GetEvents :: "epoller \<Rightarrow> nat \<Rightarrow> events" where
  "Epoller_GetEvents e i = ev_events (event_buf e ! i)"

definition Epoller_GetChannel :: "epoller \<Rightarrow> nat \<Rightarrow> ptr" where
  "Epoller_GetChannel e i = data_ptr (ev_data (event_buf e ! i))"

definition Epoller_SetNonBlocking :: "'k kernel \<Rightarrow> int \<Rightarrow> 'k \<Rightarrow> bool \<times> 'k" where
  "Epoller_SetNonBlocking sys fd k =
     (let (flags, k1) = sys_fcntl_getfl sys fd k
      in if flags < 0 then (False, k1)
         else let (r, k2) = sys_fcntl_setfl sys fd (sint ((word_of_int flags :: 32 word) OR O_NONBLOCK)) k1
              in (0 \<le> r, k2))"

section \<open>The interest list\<close>

text \<open>
  epoll_ctl(2) on one instance: \<open>interest k\<close> is its interest list in the kernel state \<open>k\<close>.
\<close>

definition epoll_laws :: "'k kernel \<Rightarrow> int \<Rightarrow> ('k \<Rightarrow> int \<rightharpoonup> epoll_event) \<Rightarrow> bool" where
  "epoll_laws sys epfd interest \<longleftrightarrow>
     (\<forall>fd ev k. 0 \<le> fd \<longrightarrow>
        (case interest k fd of
           None \<Rightarrow>
             (\<exists>err k'. sys_epoll_ctl sys epfd EPOLL_CTL_ADD fd (Some ev) k = ((0, err), k') \<and>
                interest k' = (interest k)(fd \<mapsto> ev)) \<and>
             (\<exists>k'. sys_epoll_ctl sys epfd EPOLL_CTL_MOD fd (Some ev) k = ((-1, ENOENT), k') \<and>
                interest k' = interest k)
         | Some _ \<Rightarrow>
             (\<exists>k'. sys_epoll_ctl sys epfd EPOLL_CTL_ADD fd (Some ev) k = ((-1, EEXIST), k') \<and>
                interest k' = interest k) \<and>
             (\<exists>err k'. sys_epoll_ctl sys epfd EPOLL_CTL_MOD fd (Some ev) k = ((0, err), k') \<and>
                interest k' = (interest k)(fd \<mapsto> ev)))) \<and>
     (\<forall>fd k. 0 \<le> fd \<longrightarrow>
        (\<exists>ret err k'. sys_epoll_ctl sys epfd EPOLL_CTL_DEL fd None k = ((ret, err), k') \<and>
           (ret = 0 \<longleftrightarrow> interest k fd \<noteq> None) \<and> interest k' = (interest k)(fd := None)))"

text \<open>A kernel whose whole state is one interest list, for the witnesses.\<close>

fun list_ctl :: "int \<Rightarrow> epoll_op \<Rightarrow> int \<Rightarrow> epoll_event option \<Rightarrow> (int \<rightharpoonup> epoll_event) \<Rightarrow>
    (int \<times> int) \<times> (int \<rightharpoonup> epoll_event)" where
  "list_ctl epfd EPOLL_CTL_ADD fd ev k = (if k fd = None then ((0, 0), k(fd := ev)) else ((-1, EEXIST), k))"
| "list_ctl epfd EPOLL_CTL_MOD fd ev k = (if k fd = None then ((-1, ENOENT), k) else ((0, 0), k(fd := ev)))"
| "list_ctl epfd EPOLL_CTL_DEL fd ev k = (if k fd = None then ((-1, ENOENT), k) else ((0, 0), k(fd := None)))"

definition list_kernel :: "(int \<rightharpoonup> epoll_event) kernel" where
  "list_kernel = \<lparr>sys_epoll_create1 = (\<lambda>k. (3, k)), sys_epoll_ctl = list_ctl,
     sys_epoll_wait = (\<lambda>_ _ _ k. (Some [], k)), sys_fcntl_getfl = (\<lambda>_ k. (2, k)),
     sys_fcntl_setfl = (\<lambda>_ _ k. (0, k)), sys_close = (\<lambda>_ k. k)\<rparr>"

text \<open>And one where every call succeeds and nothing is recorded.\<close>

definition null_kernel :: "unit kernel" where
  "null_kernel = \<lparr>sys_epoll_create1 = (\<lambda>k. (3, k)), sys_epoll_ctl = (\<lambda>_ _ _ _ k. ((0, 0), k)),
     sys_epoll_wait = (\<lambda>_ _ _ k. (Some [], k)), sys_fcntl_getfl = (\<lambda>_ k. (2, k)),
     sys_fcntl_setfl = (\<lambda>_ _ k. (0, k)), sys_close = (\<lambda>_ k. k)\<rparr>"

lemma list_kernel_laws: "epoll_laws list_kernel epfd id"
  by (auto simp: epoll_laws_def list_kernel_def fun_upd_idem split: option.splits)

lemma event_data [simp]: "ev_data (make_event junk fd events channel) = channel"
  by (simp add: make_event_def data_set_ptr_def)

lemma event_events [simp]: "ev_events (make_event junk fd events channel) = events OR EPOLLRDHUP"
  by (simp add: make_event_def)

lemma AddFd_interest:
  assumes "epoll_laws sys (epollFd e) interest" and "0 \<le> fd" and "interest k fd = None"
  shows "\<exists>k'. Epoller_AddFd sys junk e fd events channel k = (True, k') \<and>
    interest k' = (interest k)(fd \<mapsto> make_event junk fd events channel)"
  using assms unfolding epoll_laws_def
  by (elim conjE allE [of _ fd] allE [of _ "make_event junk fd events channel"] allE [of _ k])
    (auto simp: Epoller_AddFd_def Let_def)

lemma ModFd_interest:
  assumes "epoll_laws sys (epollFd e) interest" and "0 \<le> fd"
  shows "\<exists>k'. Epoller_ModFd sys junk e fd events channel k = (True, k') \<and>
    interest k' = (interest k)(fd \<mapsto> make_event junk fd events channel)"
proof -
  let ?ev = "make_event junk fd events channel"
  note l = assms(1) [unfolded epoll_laws_def, THEN conjunct1, rule_format, OF assms(2), where ev = ?ev]
  show ?thesis
  proof (cases "interest k fd")
    case None
    then obtain k1 where k1: "sys_epoll_ctl sys (epollFd e) EPOLL_CTL_MOD fd (Some ?ev) k = ((-1, ENOENT), k1)"
      "interest k1 = interest k" using l [of k] by auto
    then obtain err k2 where "sys_epoll_ctl sys (epollFd e) EPOLL_CTL_ADD fd (Some ?ev) k1 = ((0, err), k2)"
      "interest k2 = (interest k1)(fd \<mapsto> ?ev)" using l [of k1] None by auto
    then show ?thesis using k1 assms(2) by (simp add: Epoller_ModFd_def Let_def)
  next
    case (Some x)
    then obtain err k1 where "sys_epoll_ctl sys (epollFd e) EPOLL_CTL_MOD fd (Some ?ev) k = ((0, err), k1)"
      "interest k1 = (interest k)(fd \<mapsto> ?ev)" using l [of k] by auto
    then show ?thesis using assms(2) by (simp add: Epoller_ModFd_def Let_def)
  qed
qed

lemma DelFd_interest:
  assumes "epoll_laws sys (epollFd e) interest" and "0 \<le> fd"
  shows "\<exists>k'. Epoller_DelFd sys e fd k = (interest k fd \<noteq> None, k') \<and> interest k' = (interest k)(fd := None)"
proof -
  obtain ret err k' where "sys_epoll_ctl sys (epollFd e) EPOLL_CTL_DEL fd None k = ((ret, err), k')"
    "ret = 0 \<longleftrightarrow> interest k fd \<noteq> None" "interest k' = (interest k)(fd := None)"
    using assms unfolding epoll_laws_def by metis
  then show ?thesis using assms(2) by (simp add: Epoller_DelFd_def Let_def)
qed

section \<open>Properties\<close>

text \<open>
  The interest list after the three operations: \<open>AddFd\<close> of a new descriptor and \<open>ModFd\<close> of any
  descriptor succeed and leave it registered with the requested events and \<open>EPOLLRDHUP\<close> and with
  the channel's pointer (\<open>ModFd\<close> re-adds a descriptor the kernel has dropped), \<open>DelFd\<close> unregisters
  it; no other descriptor is touched, and a negative descriptor is refused without a system call.
\<close>

theorem Epoller_interest:
  assumes "epoll_laws sys (epollFd e) interest"
  shows "(0 \<le> fd \<and> interest k fd = None \<longrightarrow>
      (\<exists>k'. Epoller_AddFd sys junk e fd events channel k = (True, k') \<and>
        interest k' = (interest k)(fd \<mapsto> \<lparr>ev_events = events OR EPOLLRDHUP, ev_data = channel\<rparr>))) \<and>
    (0 \<le> fd \<longrightarrow>
      (\<exists>k'. Epoller_ModFd sys junk e fd events channel k = (True, k') \<and>
        interest k' = (interest k)(fd \<mapsto> \<lparr>ev_events = events OR EPOLLRDHUP, ev_data = channel\<rparr>)) \<and>
      (\<exists>k'. Epoller_DelFd sys e fd k = (interest k fd \<noteq> None, k') \<and> interest k' = (interest k)(fd := None))) \<and>
    (fd < 0 \<longrightarrow> Epoller_AddFd sys junk e fd events channel k = (False, k) \<and>
      Epoller_ModFd sys junk e fd events channel k = (False, k) \<and> Epoller_DelFd sys e fd k = (False, k))"
  using AddFd_interest [OF assms, of fd k junk events channel]
    ModFd_interest [OF assms, of fd junk events channel k] DelFd_interest [OF assms, of fd k]
  by (auto simp: make_event_def data_set_ptr_def Epoller_AddFd_def Epoller_ModFd_def Epoller_DelFd_def)

theorem Epoller_interest_witness:
  "\<exists>k'. Epoller_ModFd list_kernel 0 \<lparr>epollFd = 3, event_buf = []\<rparr> 7 EPOLLIN 64 Map.empty = (True, k') \<and>
     k' 7 = Some \<lparr>ev_events = EPOLLIN OR EPOLLRDHUP, ev_data = 64\<rparr>"
  using Epoller_interest [of list_kernel "\<lparr>epollFd = 3, event_buf = []\<rparr>" id 7 Map.empty 0 EPOLLIN 64,
      OF list_kernel_laws] by fastforce

text \<open>
  \<open>GetEventFd\<close> never returns the descriptor that was registered: the pointer overwrites the
  union, so what it returns is the low half of the channel's address, which is 0 for the null
  pointer the wake-up descriptor is registered with.
\<close>

theorem GetEventFd_is_pointer:
  assumes "i < length (event_buf e)" and "ev_data (event_buf e ! i) = ev_data (make_event junk fd events channel)"
  shows "Epoller_GetEventFd e i = sint (ucast channel :: 32 word) \<and> Epoller_GetChannel e i = channel \<and>
    (channel = 0 \<longrightarrow> Epoller_GetEventFd e i = 0)"
  using assms by (simp add: Epoller_GetEventFd_def Epoller_GetChannel_def data_fd_def data_ptr_def)

theorem GetEventFd_is_pointer_witness:
  "Epoller_GetEventFd \<lparr>epollFd = 3, event_buf = [make_event 0 4 EPOLLIN 0]\<rparr> 0 = 0"
  using GetEventFd_is_pointer [of 0 "\<lparr>epollFd = 3, event_buf = [make_event 0 4 EPOLLIN 0]\<rparr>" 0 4 EPOLLIN 0]
  by simp

end
