(* ===== verification/EventLoopModel.thy ===== *)
theory EventLoopModel
  imports EpollModel TimeWheelModel
begin

text \<open>
  \<open>code/network/core\<close>: channels and the event loop that dispatches to them.

  A channel lives at an address; \<open>chans\<close> maps the addresses of the existing channels to their
  fields, so an access through a pointer to a destroyed channel is the value \<open>None\<close>. A callback is a
  value of type \<open>'cb\<close>, and \<open>call cb L\<close> is what invoking it does to the loop and to whatever the
  record of the loop is extended with; a callback may register, change and destroy channels.
  A queued functor is either such a callback or one of the two lambdas of \<open>AddTimer\<close> and
  \<open>RemoveTimer\<close>. The asserts are compiled out in the default build.

  The queue fields come first in a record of their own: they are the ones other threads touch,
  and the step relation of the last section interleaves those threads with the loop.
\<close>

section \<open>State\<close>

record 'cb channel =
  ch_fd :: int
  ch_events :: events
  read_callback :: "'cb option"
  write_callback :: "'cb option"
  close_callback :: "'cb option"
  error_callback :: "'cb option"

datatype 'cb loop_functor = Fn 'cb | Fn_AddTimer int 'cb int | Fn_RemoveTimer int

record 'f functor_queue =
  quit :: bool
  pending :: "'f list"
  wakeups :: nat

record ('cb, 'k) event_loop = "'cb loop_functor functor_queue" +
  epoller :: epoller
  kern :: 'k
  chans :: "ptr \<rightharpoonup> 'cb channel"
  timer :: "'cb wheel"
  wakeup_fd :: int
  thread_id :: nat

section \<open>The queue\<close>

text \<open>\<open>Wakeup\<close> adds one to the eventfd counter; \<open>read\<close> on it takes the counter to zero.\<close>

definition EventLoop_Wakeup :: "('f, 'z) functor_queue_scheme \<Rightarrow> ('f, 'z) functor_queue_scheme" where
  "EventLoop_Wakeup L = L\<lparr>wakeups := wakeups L + 1\<rparr>"

definition read_wakeup_fd :: "('f, 'z) functor_queue_scheme \<Rightarrow> ('f, 'z) functor_queue_scheme" where
  "read_wakeup_fd L = L\<lparr>wakeups := 0\<rparr>"

text \<open>The critical sections: \<open>push\<close> under the lock in \<open>QueueInLoop\<close>, \<open>swap\<close> in \<open>HandlePendingFunctors\<close>.\<close>

definition push_functor :: "'f \<Rightarrow> ('f, 'z) functor_queue_scheme \<Rightarrow> ('f, 'z) functor_queue_scheme" where
  "push_functor f L = L\<lparr>pending := pending L @ [f]\<rparr>"

definition swap_functors :: "('f, 'z) functor_queue_scheme \<Rightarrow> 'f list \<times> ('f, 'z) functor_queue_scheme" where
  "swap_functors L = (pending L, L\<lparr>pending := []\<rparr>)"

definition EventLoop_QueueInLoop :: "'f \<Rightarrow> ('f, 'z) functor_queue_scheme \<Rightarrow> ('f, 'z) functor_queue_scheme" where
  "EventLoop_QueueInLoop f L = EventLoop_Wakeup (push_functor f L)"

definition EventLoop_Quit :: "('f, 'z) functor_queue_scheme \<Rightarrow> ('f, 'z) functor_queue_scheme" where
  "EventLoop_Quit L = EventLoop_Wakeup (L\<lparr>quit := True\<rparr>)"

section \<open>Channels\<close>

definition Channel_new :: "int \<Rightarrow> 'cb channel" where
  "Channel_new fd = \<lparr>ch_fd = fd, ch_events = 0, read_callback = None, write_callback = None,
     close_callback = None, error_callback = None\<rparr>"

definition Channel_SetReadCallback :: "'cb \<Rightarrow> 'cb channel \<Rightarrow> 'cb channel" where
  "Channel_SetReadCallback cb c = c\<lparr>read_callback := Some cb\<rparr>"

definition Channel_SetWriteCallback :: "'cb \<Rightarrow> 'cb channel \<Rightarrow> 'cb channel" where
  "Channel_SetWriteCallback cb c = c\<lparr>write_callback := Some cb\<rparr>"

definition Channel_SetCloseCallback :: "'cb \<Rightarrow> 'cb channel \<Rightarrow> 'cb channel" where
  "Channel_SetCloseCallback cb c = c\<lparr>close_callback := Some cb\<rparr>"

definition Channel_SetErrorCallback :: "'cb \<Rightarrow> 'cb channel \<Rightarrow> 'cb channel" where
  "Channel_SetErrorCallback cb c = c\<lparr>error_callback := Some cb\<rparr>"

definition Channel_is_none_event :: "'cb channel \<Rightarrow> bool" where
  "Channel_is_none_event c \<longleftrightarrow> ch_events c = 0"

text \<open>The loop's three operations on a channel it is given a pointer to.\<close>

definition EventLoop_AddChannel ::
  "'k kernel \<Rightarrow> 64 word \<Rightarrow> ptr \<Rightarrow> ('cb, 'k, 'z) event_loop_scheme \<Rightarrow> ('cb, 'k, 'z) event_loop_scheme option" where
  "EventLoop_AddChannel sys junk p L =
     (case chans L p of
        None \<Rightarrow> None
      | Some c \<Rightarrow>
          let (_, k1) = Epoller_SetNonBlocking sys (ch_fd c) (kern L);
              (_, k2) = Epoller_AddFd sys junk (epoller L) (ch_fd c) (ch_events c) p k1
          in Some (L\<lparr>kern := k2\<rparr>))"

definition EventLoop_RemoveChannel ::
  "'k kernel \<Rightarrow> ptr \<Rightarrow> ('cb, 'k, 'z) event_loop_scheme \<Rightarrow> ('cb, 'k, 'z) event_loop_scheme option" where
  "EventLoop_RemoveChannel sys p L =
     (case chans L p of
        None \<Rightarrow> None
      | Some c \<Rightarrow> let (_, k1) = Epoller_DelFd sys (epoller L) (ch_fd c) (kern L) in Some (L\<lparr>kern := k1\<rparr>))"

definition EventLoop_UpdateChannel ::
  "'k kernel \<Rightarrow> 64 word \<Rightarrow> ptr \<Rightarrow> ('cb, 'k, 'z) event_loop_scheme \<Rightarrow> ('cb, 'k, 'z) event_loop_scheme option" where
  "EventLoop_UpdateChannel sys junk p L =
     (case chans L p of
        None \<Rightarrow> None
      | Some c \<Rightarrow>
          let (_, k1) = Epoller_ModFd sys junk (epoller L) (ch_fd c) (ch_events c) p (kern L)
          in Some (L\<lparr>kern := k1\<rparr>))"

text \<open>A change of \<open>events_\<close> followed by \<open>Update()\<close>.\<close>

definition Channel_Update ::
  "'k kernel \<Rightarrow> 64 word \<Rightarrow> ptr \<Rightarrow> ('cb, 'k, 'z) event_loop_scheme \<Rightarrow> ('cb, 'k, 'z) event_loop_scheme option" where
  "Channel_Update sys junk p L = EventLoop_UpdateChannel sys junk p L"

definition set_events ::
  "'k kernel \<Rightarrow> 64 word \<Rightarrow> ptr \<Rightarrow> (events \<Rightarrow> events) \<Rightarrow> ('cb, 'k, 'z) event_loop_scheme \<Rightarrow>
     ('cb, 'k, 'z) event_loop_scheme option" where
  "set_events sys junk p f L =
     (case chans L p of
        None \<Rightarrow> None
      | Some c \<Rightarrow> Channel_Update sys junk p
          (L\<lparr>chans := (chans L)(p \<mapsto> c\<lparr>ch_events := f (ch_events c)\<rparr>)\<rparr>))"

definition Channel_EnableReading where
  "Channel_EnableReading sys junk p = set_events sys junk p (\<lambda>e. e OR EPOLLIN)"

definition Channel_EnableWriting where
  "Channel_EnableWriting sys junk p = set_events sys junk p (\<lambda>e. e OR EPOLLOUT)"

definition Channel_DisableReading where
  "Channel_DisableReading sys junk p = set_events sys junk p (\<lambda>e. e AND NOT EPOLLIN)"

definition Channel_DisableWriting where
  "Channel_DisableWriting sys junk p = set_events sys junk p (\<lambda>e. e AND NOT EPOLLOUT)"

definition Channel_DisableAll where
  "Channel_DisableAll sys junk p = set_events sys junk p (\<lambda>_. 0)"

definition Channel_Remove ::
  "'k kernel \<Rightarrow> ptr \<Rightarrow> ('cb, 'k, 'z) event_loop_scheme \<Rightarrow> ('cb, 'k, 'z) event_loop_scheme option" where
  "Channel_Remove sys p L =
     (case chans L p of
        None \<Rightarrow> None
      | Some c \<Rightarrow> EventLoop_RemoveChannel sys p
          (L\<lparr>chans := (chans L)(p \<mapsto> c\<lparr>read_callback := None, write_callback := None,
             close_callback := None, error_callback := None\<rparr>)\<rparr>))"

text \<open>Destroying the channel object: \<open>~Channel() = default\<close> does not unregister it.\<close>

definition Channel_delete :: "ptr \<Rightarrow> ('cb, 'k, 'z) event_loop_scheme \<Rightarrow> ('cb, 'k, 'z) event_loop_scheme" where
  "Channel_delete p L = L\<lparr>chans := (chans L)(p := None)\<rparr>"

section \<open>Dispatch\<close>

text \<open>
  A test of a callback field through the channel's pointer, and the call if it is set. \<open>None\<close> is
  an access to a channel that no longer exists.
\<close>

definition call_if_set ::
  "('cb \<Rightarrow> ('cb, 'k, 'z) event_loop_scheme \<Rightarrow> ('cb, 'k, 'z) event_loop_scheme option) \<Rightarrow>
     ('cb channel \<Rightarrow> 'cb option) \<Rightarrow> ptr \<Rightarrow> ('cb, 'k, 'z) event_loop_scheme \<Rightarrow>
     ('cb, 'k, 'z) event_loop_scheme option" where
  "call_if_set call field p L =
     (case chans L p of
        None \<Rightarrow> None
      | Some c \<Rightarrow> (case field c of None \<Rightarrow> Some L | Some cb \<Rightarrow> call cb L))"

definition Channel_HandleEvent ::
  "('cb \<Rightarrow> ('cb, 'k, 'z) event_loop_scheme \<Rightarrow> ('cb, 'k, 'z) event_loop_scheme option) \<Rightarrow> ptr \<Rightarrow> events \<Rightarrow>
     ('cb, 'k, 'z) event_loop_scheme \<Rightarrow> ('cb, 'k, 'z) event_loop_scheme option" where
  "Channel_HandleEvent call p revents L =
     (case chans L p of
        None \<Rightarrow> None
      | Some c \<Rightarrow>
          if ch_events c = 0 then Some L
          else if revents AND EPOLLERR \<noteq> 0 \<or> revents AND EPOLLHUP \<noteq> 0
            then call_if_set call error_callback p L
          else if revents AND EPOLLRDHUP \<noteq> 0 then call_if_set call close_callback p L
          else
            Option.bind
              (if revents AND EPOLLIN \<noteq> 0 then call_if_set call read_callback p L else Some L)
              (\<lambda>L1. if revents AND EPOLLOUT \<noteq> 0 then call_if_set call write_callback p L1 else Some L1))"

definition dispatch_event ::
  "('cb \<Rightarrow> ('cb, 'k, 'z) event_loop_scheme \<Rightarrow> ('cb, 'k, 'z) event_loop_scheme option) \<Rightarrow> nat \<Rightarrow>
     ('cb, 'k, 'z) event_loop_scheme \<Rightarrow> ('cb, 'k, 'z) event_loop_scheme option" where
  "dispatch_event call i L =
     (let fd = Epoller_GetEventFd (epoller L) i;
          L1 = (if fd = wakeup_fd L then read_wakeup_fd L else L);
          channel = Epoller_GetChannel (epoller L) i
      in if channel \<noteq> 0 then
           (case chans L1 channel of
              None \<Rightarrow> None
            | Some c \<Rightarrow>
                if \<not> Channel_is_none_event c
                then Channel_HandleEvent call channel (Epoller_GetEvents (epoller L) i) L1
                else Some L1)
         else Some L1)"

fun dispatch_events ::
  "('cb \<Rightarrow> ('cb, 'k, 'z) event_loop_scheme \<Rightarrow> ('cb, 'k, 'z) event_loop_scheme option) \<Rightarrow> nat list \<Rightarrow>
     ('cb, 'k, 'z) event_loop_scheme \<Rightarrow> ('cb, 'k, 'z) event_loop_scheme option" where
  "dispatch_events call [] L = Some L"
| "dispatch_events call (i # js) L = Option.bind (dispatch_event call i L) (dispatch_events call js)"

section \<open>Functors and timers\<close>

definition run_functor ::
  "(nat \<Rightarrow> int) \<Rightarrow> ('cb \<Rightarrow> ('cb, 'k, 'z) event_loop_scheme \<Rightarrow> ('cb, 'k, 'z) event_loop_scheme option) \<Rightarrow>
     'cb loop_functor \<Rightarrow> ('cb, 'k, 'z) event_loop_scheme \<Rightarrow> ('cb, 'k, 'z) event_loop_scheme option" where
  "run_functor clock call f L =
     (case f of
        Fn cb \<Rightarrow> call cb L
      | Fn_AddTimer ident cb delay_ms \<Rightarrow>
          Some (L\<lparr>timer := TimeWheel_AddTimer clock ident cb delay_ms (timer L)\<rparr>)
      | Fn_RemoveTimer ident \<Rightarrow> Some (L\<lparr>timer := TimeWheel_RemoveTimer ident (timer L)\<rparr>))"

fun run_functors ::
  "(nat \<Rightarrow> int) \<Rightarrow> ('cb \<Rightarrow> ('cb, 'k, 'z) event_loop_scheme \<Rightarrow> ('cb, 'k, 'z) event_loop_scheme option) \<Rightarrow>
     'cb loop_functor list \<Rightarrow> ('cb, 'k, 'z) event_loop_scheme \<Rightarrow> ('cb, 'k, 'z) event_loop_scheme option" where
  "run_functors clock call [] L = Some L"
| "run_functors clock call (f # fs) L =
     Option.bind (run_functor clock call f L) (run_functors clock call fs)"

definition EventLoop_HandlePendingFunctors where
  "EventLoop_HandlePendingFunctors clock call L =
     (let (functors, L1) = swap_functors L in run_functors clock call functors L1)"

definition EventLoop_IsInLoopThread :: "nat \<Rightarrow> ('cb, 'k, 'z) event_loop_scheme \<Rightarrow> bool" where
  "EventLoop_IsInLoopThread self L \<longleftrightarrow> self = thread_id L"

definition EventLoop_RunInLoop where
  "EventLoop_RunInLoop clock call self f L =
     (if EventLoop_IsInLoopThread self L then run_functor clock call f L
      else Some (EventLoop_QueueInLoop f L))"

definition EventLoop_AddTimer where
  "EventLoop_AddTimer clock call self ident cb delay_ms L =
     EventLoop_RunInLoop clock call self (Fn_AddTimer ident cb delay_ms) L"

definition EventLoop_RemoveTimer where
  "EventLoop_RemoveTimer clock call self ident L =
     EventLoop_RunInLoop clock call self (Fn_RemoveTimer ident) L"

text \<open>
  One turn of \<open>Loop\<close>. \<open>run\<close> is \<open>call\<close> as a timer callback: what it does to the loop, and the timer
  operations it makes, which \<open>Tick\<close> applies to the wheel it is scanning.
\<close>

definition EventLoop_tick where
  "EventLoop_tick clock run L =
     (case TimeWheel_Tick clock run (timer L, L) of
        None \<Rightarrow> None
      | Some (w, L1) \<Rightarrow> Some (L1\<lparr>timer := w\<rparr>))"

definition EventLoop_turn where
  "EventLoop_turn sys clock call run L =
     (let (n, e, k) = Epoller_Wait sys 100 (epoller L) (kern L)
      in Option.bind (dispatch_events call [0 ..< nat n] (L\<lparr>epoller := e, kern := k\<rparr>)) (\<lambda>L1.
         Option.bind (EventLoop_tick clock run L1)
           (EventLoop_HandlePendingFunctors clock call)))"

partial_function (option) loop_from ::
  "'k kernel \<Rightarrow> (nat \<Rightarrow> int) \<Rightarrow> ('cb \<Rightarrow> ('cb, 'k, 'z) event_loop_scheme \<Rightarrow> ('cb, 'k, 'z) event_loop_scheme option) \<Rightarrow>
     ('cb \<Rightarrow> ('cb, 'k, 'z) event_loop_scheme \<Rightarrow> ('cb, 'k, 'z) event_loop_scheme \<times> 'cb timer_op list) \<Rightarrow>
     ('cb, 'k, 'z) event_loop_scheme \<Rightarrow> ('cb, 'k, 'z) event_loop_scheme option" where
  "loop_from sys clock call run L =
     (if quit L then Some L
      else Option.bind (EventLoop_turn sys clock call run L) (loop_from sys clock call run))"

definition EventLoop_Loop where
  "EventLoop_Loop sys clock call run self L =
     loop_from sys clock call run (L\<lparr>quit := False, thread_id := self\<rparr>)"

definition EventLoop_new :: "'k kernel \<Rightarrow> (nat \<Rightarrow> int) \<Rightarrow> 64 word \<Rightarrow> int \<Rightarrow> 'k \<Rightarrow> ('cb, 'k) event_loop" where
  "EventLoop_new sys clock junk eventfd k =
     (let (e, k1) = Epoller_new sys 1024 k;
          (_, k2) = Epoller_SetNonBlocking sys eventfd k1;
          (_, k3) = Epoller_AddFd sys junk e eventfd (EPOLLIN OR EPOLLRDHUP) 0 k2
      in \<lparr>quit = False, pending = [], wakeups = 0, epoller = e, kern = k3, chans = Map.empty,
          timer = TimeWheel_new clock 10, wakeup_fd = eventfd, thread_id = 0\<rparr>)"

definition EventLoop_delete :: "'k kernel \<Rightarrow> ('cb, 'k, 'z) event_loop_scheme \<Rightarrow> 'k" where
  "EventLoop_delete sys L =
     (let L1 = EventLoop_Quit L;
          (_, k1) = Epoller_DelFd sys (epoller L1) (wakeup_fd L1) (kern L1)
      in Epoller_delete sys (epoller L1) (sys_close sys (wakeup_fd L1) k1))"

section \<open>The loop and the other threads\<close>

text \<open>
  Any thread may queue a functor or call \<open>Quit\<close> at any point of the loop; each does its update and
  writes to the eventfd afterwards. \<open>Waiting\<close> stands for \<open>epoll_wait\<close>, the dispatch and \<open>Tick\<close>;
  \<open>drained\<close> says whether the dispatch read the eventfd. \<open>queued\<close> and \<open>executed\<close> record history.
\<close>

datatype loop_pc = Not_started | Checking_quit | Waiting | Swapping | Running | Exited

record 'f loop_run =
  queue :: "'f functor_queue"
  pc :: loop_pc
  batch :: "'f list"
  in_flight :: nat
  queued :: "'f list"
  executed :: "'f list"

definition loop_init :: "'f loop_run" where
  "loop_init = \<lparr>queue = \<lparr>quit = False, pending = [], wakeups = 0\<rparr>, pc = Not_started, batch = [],
     in_flight = 0, queued = [], executed = []\<rparr>"

inductive loop_step :: "'f loop_run \<Rightarrow> 'f loop_run \<Rightarrow> bool" where
  thread_push: "loop_step s (s\<lparr>queue := push_functor f (queue s), in_flight := in_flight s + 1,
     queued := queued s @ [f]\<rparr>)"
| thread_quit: "loop_step s (s\<lparr>queue := (queue s)\<lparr>quit := True\<rparr>, in_flight := in_flight s + 1\<rparr>)"
| thread_wake: "in_flight s = Suc n \<Longrightarrow>
     loop_step s (s\<lparr>queue := EventLoop_Wakeup (queue s), in_flight := n\<rparr>)"
| loop_start: "pc s = Not_started \<Longrightarrow>
     loop_step s (s\<lparr>queue := (queue s)\<lparr>quit := False\<rparr>, pc := Checking_quit\<rparr>)"
| check_go: "pc s = Checking_quit \<Longrightarrow> \<not> quit (queue s) \<Longrightarrow> loop_step s (s\<lparr>pc := Waiting\<rparr>)"
| check_exit: "pc s = Checking_quit \<Longrightarrow> quit (queue s) \<Longrightarrow> loop_step s (s\<lparr>pc := Exited\<rparr>)"
| waited: "pc s = Waiting \<Longrightarrow>
     loop_step s (s\<lparr>queue := (if drained then read_wakeup_fd (queue s) else queue s), pc := Swapping\<rparr>)"
| swap: "pc s = Swapping \<Longrightarrow> swap_functors (queue s) = (fs, q) \<Longrightarrow>
     loop_step s (s\<lparr>queue := q, batch := fs, pc := Running\<rparr>)"
| run_front: "pc s = Running \<Longrightarrow> batch s = f # fs \<Longrightarrow>
     loop_step s (s\<lparr>batch := fs, executed := executed s @ [f]\<rparr>)"
| turn_done: "pc s = Running \<Longrightarrow> batch s = [] \<Longrightarrow> loop_step s (s\<lparr>pc := Checking_quit\<rparr>)"

inductive_cases loop_stepE: "loop_step s t"

inductive loop_reachable :: "'f loop_run \<Rightarrow> bool" where
  init: "loop_reachable loop_init"
| step: "loop_reachable s \<Longrightarrow> loop_step s t \<Longrightarrow> loop_reachable t"

lemmas queue_defs [model_defs] = push_functor_def swap_functors_def EventLoop_Wakeup_def read_wakeup_fd_def

text \<open>Nothing is lost or reordered, and what is pending has a wake-up behind it.\<close>

definition loop_inv :: "'f loop_run \<Rightarrow> bool" where
  "loop_inv s \<longleftrightarrow>
     queued s = executed s @ batch s @ pending (queue s) \<and>
     (pc s \<noteq> Running \<longrightarrow> batch s = []) \<and>
     (pending (queue s) \<noteq> [] \<and> pc s \<noteq> Swapping \<longrightarrow> 0 < wakeups (queue s) \<or> 0 < in_flight s)"

lemma loop_step_inv: "loop_step s t \<Longrightarrow> loop_inv s \<Longrightarrow> loop_inv t"
  by (erule loop_stepE) (auto simp: loop_inv_def queue_defs)

lemma loop_reachable_inv: "loop_reachable s \<Longrightarrow> loop_inv s"
proof (induction rule: loop_reachable.induct)
  case init
  show ?case by (simp add: loop_inv_def loop_init_def)
qed (blast intro: loop_step_inv)

lemma run_batch:
  assumes "pc s = Running"
  shows "\<exists>t. loop_step\<^sup>*\<^sup>* s t \<and> pc t = Checking_quit \<and> executed t = executed s @ batch s \<and>
    queue t = queue s \<and> queued t = queued s"
  using assms
proof (induction "batch s" arbitrary: s)
  case Nil
  from loop_step.turn_done [OF Nil(2) Nil(1) [symmetric]] show ?case
    using Nil by (intro exI [of _ "s\<lparr>pc := Checking_quit\<rparr>"]) auto
next
  case (Cons f fs)
  let ?u = "s\<lparr>batch := fs, executed := executed s @ [f]\<rparr>"
  have st: "loop_step s ?u" by (rule loop_step.run_front) (use Cons in simp_all)
  have "\<exists>t. loop_step\<^sup>*\<^sup>* ?u t \<and> pc t = Checking_quit \<and> executed t = executed ?u @ batch ?u \<and>
    queue t = queue ?u \<and> queued t = queued ?u"
    by (rule Cons.hyps(1)) (use Cons in simp_all)
  then obtain t where "loop_step\<^sup>*\<^sup>* ?u t" "pc t = Checking_quit" "executed t = executed s @ [f] @ fs"
    "queue t = queue s" "queued t = queued s" by auto
  then show ?case
    using converse_rtranclp_into_rtranclp [of loop_step, OF st] Cons(2) by (intro exI [of _ t]) auto
qed

text \<open>From the check of \<open>quit_\<close>, one turn executes everything that was queued.\<close>

lemma one_loop_turn:
  assumes "pc s = Checking_quit" and "\<not> quit (queue s)" and "loop_inv s"
  shows "\<exists>t. loop_step\<^sup>*\<^sup>* s t \<and> executed t = queued s"
proof -
  let ?s1 = "s\<lparr>pc := Waiting\<rparr>"
  let ?s2 = "?s1\<lparr>queue := (if False then read_wakeup_fd (queue ?s1) else queue ?s1), pc := Swapping\<rparr>"
  let ?s3 = "?s2\<lparr>queue := (queue s)\<lparr>pending := []\<rparr>, batch := pending (queue s), pc := Running\<rparr>"
  have "loop_step s ?s1" by (rule loop_step.check_go [OF assms(1,2)])
  moreover have "loop_step ?s1 ?s2" by (rule loop_step.waited) simp
  moreover have "loop_step ?s2 ?s3" by (rule loop_step.swap) (simp_all add: swap_functors_def)
  ultimately have *: "loop_step\<^sup>*\<^sup>* s ?s3" by (meson converse_rtranclp_into_rtranclp rtranclp.rtrancl_refl)
  obtain t where t: "loop_step\<^sup>*\<^sup>* ?s3 t" "executed t = executed ?s3 @ batch ?s3"
    using run_batch [of ?s3] by auto
  have "executed t = queued s" using t(2) assms(1,3) by (simp add: loop_inv_def)
  then show ?thesis using rtranclp_trans [OF * t(1)] by blast
qed

lemma reach_check:
  assumes "pc s \<noteq> Exited" and "\<not> quit (queue s)"
  shows "\<exists>t. loop_step\<^sup>*\<^sup>* s t \<and> pc t = Checking_quit \<and> \<not> quit (queue t) \<and> queued t = queued s"
proof -
  have run: "\<exists>t. loop_step\<^sup>*\<^sup>* s t \<and> pc t = Checking_quit \<and> \<not> quit (queue t) \<and> queued t = queued s"
    if "pc s = Running" "\<not> quit (queue s)" for s :: "'a loop_run"
    using run_batch [OF that(1)] that(2) by auto
  have swp: "\<exists>t. loop_step\<^sup>*\<^sup>* s t \<and> pc t = Checking_quit \<and> \<not> quit (queue t) \<and> queued t = queued s"
    if sw: "pc s = Swapping" "\<not> quit (queue s)" for s :: "'a loop_run"
  proof -
    let ?u = "s\<lparr>queue := (queue s)\<lparr>pending := []\<rparr>, batch := pending (queue s), pc := Running\<rparr>"
    have st: "loop_step s ?u" by (rule loop_step.swap [OF sw(1)]) (simp add: swap_functors_def)
    obtain t where "loop_step\<^sup>*\<^sup>* ?u t" "pc t = Checking_quit \<and> \<not> quit (queue t) \<and> queued t = queued s"
      using run [of ?u] sw by auto
    then show ?thesis using converse_rtranclp_into_rtranclp [of loop_step, OF st] by blast
  qed
  have wt: "\<exists>t. loop_step\<^sup>*\<^sup>* s t \<and> pc t = Checking_quit \<and> \<not> quit (queue t) \<and> queued t = queued s"
    if w: "pc s = Waiting" "\<not> quit (queue s)" for s :: "'a loop_run"
  proof -
    let ?u = "s\<lparr>queue := (if False then read_wakeup_fd (queue s) else queue s), pc := Swapping\<rparr>"
    have st: "loop_step s ?u" by (rule loop_step.waited [OF w(1)])
    obtain t where "loop_step\<^sup>*\<^sup>* ?u t" "pc t = Checking_quit \<and> \<not> quit (queue t) \<and> queued t = queued s"
      using swp [of ?u] w by auto
    then show ?thesis using converse_rtranclp_into_rtranclp [of loop_step, OF st] by blast
  qed
  show ?thesis
  proof (cases "pc s")
    case Not_started
    from loop_step.loop_start [OF this] show ?thesis
      by (intro exI [of _ "s\<lparr>queue := (queue s)\<lparr>quit := False\<rparr>, pc := Checking_quit\<rparr>"]) auto
  qed (use assms run swp wt in auto)
qed

lemma loop_reachable_steps: "loop_step\<^sup>*\<^sup>* s t \<Longrightarrow> loop_reachable s \<Longrightarrow> loop_reachable t"
  by (induction rule: rtranclp_induct) (auto intro: loop_reachable.step)

lemma exited_steps:
  "loop_step\<^sup>*\<^sup>* s t \<Longrightarrow> pc s = Exited \<Longrightarrow> pc t = Exited \<and> executed t = executed s"
  by (induction rule: rtranclp_induct) (auto elim!: loop_stepE)

section \<open>Dispatch lemmas\<close>

lemma call_if_set_simps [simp]:
  "chans L p = None \<Longrightarrow> call_if_set call field p L = None"
  "chans L p = Some c \<Longrightarrow> field c = None \<Longrightarrow> call_if_set call field p L = Some L"
  "chans L p = Some c \<Longrightarrow> field c = Some cb \<Longrightarrow> call_if_set call field p L = call cb L"
  by (simp_all add: call_if_set_def)

text \<open>Whatever reflexive and transitive relation the callbacks respect, \<open>HandleEvent\<close> respects.\<close>

lemma call_if_set_rel:
  assumes "\<And>cb L L'. call cb L = Some L' \<Longrightarrow> R L L'" and "\<And>L. R L L"
    and "call_if_set call field p L = Some L'"
  shows "R L L'"
  using assms by (auto simp: call_if_set_def split: option.splits)

lemma HandleEvent_rel:
  assumes call: "\<And>cb L L'. call cb L = Some L' \<Longrightarrow> R L L'" and refl: "\<And>L. R L L"
    and trans: "\<And>L1 L2 L3. R L1 L2 \<Longrightarrow> R L2 L3 \<Longrightarrow> R L1 L3"
    and he: "Channel_HandleEvent call p revents L = Some L'"
  shows "R L L'"
proof -
  have c: "R K K'" if "call_if_set call field p K = Some K'" for field K K'
    by (rule call_if_set_rel [OF _ _ that]) (rule call, assumption, rule refl)
  obtain ch where ch: "chans L p = Some ch" using he by (auto simp: Channel_HandleEvent_def split: option.splits)
  have "L' = L \<or> (\<exists>field. call_if_set call field p L = Some L') \<or>
     (\<exists>L1 f1 f2. (L1 = L \<or> call_if_set call f1 p L = Some L1) \<and> (L' = L1 \<or> call_if_set call f2 p L1 = Some L'))"
    using he ch by (auto simp: Channel_HandleEvent_def split: if_splits simp: bind_eq_Some_conv)
  then show ?thesis by (elim disjE exE conjE) (auto dest!: c intro: refl trans)
qed

text \<open>What a dispatch keeps: the event buffer, and the eventfd counter does not go down.\<close>

definition keeps_wakeups :: "('cb, 'k, 'z) event_loop_scheme \<Rightarrow> ('cb, 'k, 'z) event_loop_scheme \<Rightarrow> bool" where
  "keeps_wakeups L L' \<longleftrightarrow>
     wakeups L \<le> wakeups L' \<and> epoller L' = epoller L \<and> wakeup_fd L' = wakeup_fd L"

lemma dispatch_event_keeps:
  assumes call: "\<And>cb L L'. call cb L = Some L' \<Longrightarrow> keeps_wakeups L L'"
    and "data_fd (ev_data (event_buf (epoller L) ! i)) \<noteq> wakeup_fd L"
    and "dispatch_event call i L = Some L'"
  shows "keeps_wakeups L L'"
proof -
  have he: "keeps_wakeups L L'" if "Channel_HandleEvent call p r L = Some L'" for p r
    by (rule HandleEvent_rel [OF _ _ _ that], erule call) (auto simp: keeps_wakeups_def)
  show ?thesis
    using assms(2,3) he
    by (auto simp: dispatch_event_def Let_def Epoller_GetEventFd_def keeps_wakeups_def
        split: if_splits option.splits)
qed

lemma dispatch_events_keeps:
  assumes "\<And>cb L L'. call cb L = Some L' \<Longrightarrow> keeps_wakeups L L'"
    and "\<And>i. i \<in> set js \<Longrightarrow> data_fd (ev_data (event_buf (epoller L) ! i)) \<noteq> wakeup_fd L"
    and "dispatch_events call js L = Some L'"
  shows "keeps_wakeups L L'"
  using assms(2,3)
proof (induction js arbitrary: L)
  case (Cons i js)
  obtain L1 where L1: "dispatch_event call i L = Some L1" "dispatch_events call js L1 = Some L'"
    using Cons.prems(2) by (auto simp: bind_eq_Some_conv)
  have k: "keeps_wakeups L L1"
    by (rule dispatch_event_keeps [OF _ _ L1(1)]) (use assms(1) Cons.prems(1) in auto)
  then have "keeps_wakeups L1 L'"
    using Cons.prems(1) by (intro Cons.IH [OF _ L1(2)]) (simp add: keeps_wakeups_def)
  then show ?case using k by (simp add: keeps_wakeups_def)
qed (simp add: keeps_wakeups_def)

section \<open>Properties\<close>

text \<open>
  C17. Functors run once each in the order they were queued, whatever the interleaving: what was
  queued is what was executed, then the batch being run, then the queue. A functor that is
  waiting always has a write to the eventfd made or on its way, so the loop does not sleep on it;
  and as long as the loop has not been told to quit it can run everything queued so far.
\<close>

theorem functors_fifo_exactly_once:
  assumes "loop_reachable s"
  shows "queued s = executed s @ batch s @ pending (queue s) \<and>
    (pending (queue s) \<noteq> [] \<and> pc s = Waiting \<longrightarrow> 0 < wakeups (queue s) \<or> 0 < in_flight s) \<and>
    (pc s \<noteq> Exited \<and> \<not> quit (queue s) \<longrightarrow> (\<exists>t. loop_step\<^sup>*\<^sup>* s t \<and> executed t = queued s))"
proof (intro conjI impI)
  have inv: "loop_inv s" using assms by (rule loop_reachable_inv)
  then show "queued s = executed s @ batch s @ pending (queue s)" by (simp add: loop_inv_def)
  show "0 < wakeups (queue s) \<or> 0 < in_flight s" if "pending (queue s) \<noteq> [] \<and> pc s = Waiting"
    using inv that by (simp add: loop_inv_def)
  assume "pc s \<noteq> Exited \<and> \<not> quit (queue s)"
  then obtain u where u: "loop_step\<^sup>*\<^sup>* s u" "pc u = Checking_quit" "\<not> quit (queue u)" "queued u = queued s"
    using reach_check [of s] by blast
  have "loop_inv u" using loop_reachable_steps [OF u(1) assms] by (rule loop_reachable_inv)
  from one_loop_turn [OF u(2,3) this] obtain t where "loop_step\<^sup>*\<^sup>* u t" "executed t = queued s"
    using u(4) by auto
  then show "\<exists>t. loop_step\<^sup>*\<^sup>* s t \<and> executed t = queued s" using rtranclp_trans [OF u(1)] by blast
qed

lemma loop_one_pushed: "loop_reachable (loop_init\<lparr>queue := push_functor f (queue loop_init), in_flight := 1, queued := [f]\<rparr>)"
  using loop_reachable.step [OF loop_reachable.init loop_step.thread_push [of loop_init f]]
  by (simp add: loop_init_def)

theorem functors_fifo_exactly_once_witness:
  "\<exists>s t :: nat loop_run. pending (queue s) = [7] \<and> loop_step\<^sup>*\<^sup>* s t \<and> executed t = [7]"
proof -
  let ?s = "loop_init\<lparr>queue := push_functor 7 (queue loop_init), in_flight := 1, queued := [7]\<rparr> :: nat loop_run"
  have "\<exists>t. loop_step\<^sup>*\<^sup>* ?s t \<and> executed t = [7]"
    using functors_fifo_exactly_once [OF loop_one_pushed [of "7::nat"], THEN conjunct2, THEN conjunct2]
    by (simp add: loop_init_def push_functor_def)
  moreover have "pending (queue ?s) = [7]" by (simp add: loop_init_def push_functor_def)
  ultimately show ?thesis by blast
qed

text \<open>
  A functor queued before \<open>Quit\<close> may never run: the loop tests \<open>quit_\<close> right after a batch, so
  there is a reachable exited state with a functor still in the queue that was queued when
  \<open>quit_\<close> was still false, and after the exit nothing is executed any more. \<open>RpcServer::Stop\<close> queues the
  closing of its connections and then calls \<open>Quit\<close>.
\<close>

theorem Quit_can_strand_functors:
  "\<exists>s t. loop_reachable s \<and> queued s = [f] \<and> \<not> quit (queue s) \<and> loop_step\<^sup>*\<^sup>* s t \<and>
     pc t = Exited \<and> pending (queue t) = [f] \<and>
     (\<forall>u. loop_step\<^sup>*\<^sup>* t u \<longrightarrow> executed u = [])"
proof -
  let ?s0 = "loop_init :: 'a loop_run"
  let ?s1 = "?s0\<lparr>queue := (queue ?s0)\<lparr>quit := False\<rparr>, pc := Checking_quit\<rparr>"
  let ?s2 = "?s1\<lparr>pc := Waiting\<rparr>"
  let ?s3 = "?s2\<lparr>queue := (if False then read_wakeup_fd (queue ?s2) else queue ?s2), pc := Swapping\<rparr>"
  let ?s4 = "?s3\<lparr>queue := snd (swap_functors (queue ?s3)), batch := fst (swap_functors (queue ?s3)), pc := Running\<rparr>"
  let ?s5 = "?s4\<lparr>queue := push_functor f (queue ?s4), in_flight := in_flight ?s4 + 1, queued := queued ?s4 @ [f]\<rparr>"
  let ?s6 = "?s5\<lparr>queue := (queue ?s5)\<lparr>quit := True\<rparr>, in_flight := in_flight ?s5 + 1\<rparr>"
  let ?s7 = "?s6\<lparr>pc := Checking_quit\<rparr>"
  let ?s8 = "?s7\<lparr>pc := Exited\<rparr>"
  have "loop_step ?s0 ?s1" by (rule loop_step.loop_start) (simp add: loop_init_def)
  moreover have "loop_step ?s1 ?s2" by (rule loop_step.check_go) (simp_all add: loop_init_def)
  moreover have "loop_step ?s2 ?s3" by (rule loop_step.waited) simp
  moreover have "loop_step ?s3 ?s4" by (rule loop_step.swap) simp_all
  moreover have "loop_step ?s4 ?s5" by (rule loop_step.thread_push)
  ultimately have r: "loop_reachable ?s5" by (meson loop_reachable.intros)
  have "loop_step ?s5 ?s6" by (rule loop_step.thread_quit)
  moreover have "loop_step ?s6 ?s7" by (rule loop_step.turn_done) (simp_all add: loop_init_def swap_functors_def)
  moreover have "loop_step ?s7 ?s8" by (rule loop_step.check_exit) simp_all
  ultimately have st: "loop_step\<^sup>*\<^sup>* ?s5 ?s8" by (meson converse_rtranclp_into_rtranclp rtranclp.rtrancl_refl)
  have "executed u = []" if "loop_step\<^sup>*\<^sup>* ?s8 u" for u
    using exited_steps [OF that] by (simp add: loop_init_def)
  then show ?thesis using r st
    by (intro exI [of _ ?s5] exI [of _ ?s8] conjI) (simp_all add: loop_init_def queue_defs)
qed

theorem Quit_can_strand_functors_witness:
  "\<exists>s t :: nat loop_run. loop_reachable s \<and> queued s = [5] \<and> loop_step\<^sup>*\<^sup>* s t \<and>
     pc t = Exited \<and> pending (queue t) = [5] \<and> executed t = []"
  using Quit_can_strand_functors [of "5 :: nat"] by (meson rtranclp.rtrancl_refl)

text \<open>Steps that are not a call of \<open>Quit\<close>.\<close>

inductive loop_step_no_quit :: "'f loop_run \<Rightarrow> 'f loop_run \<Rightarrow> bool" where
  "loop_step s t \<Longrightarrow> quit (queue t) \<longrightarrow> quit (queue s) \<Longrightarrow> loop_step_no_quit s t"

text \<open>
  A \<open>Quit\<close> that comes before the loop thread enters \<open>Loop\<close> is lost, because \<open>Loop\<close> begins by
  clearing \<open>quit_\<close>: from the state after such a \<open>Quit\<close> the loop starts and keeps going, and only another \<open>Quit\<close>
  can end it. Without one, no state in which the loop has exited is reached.
\<close>

theorem early_Quit_is_lost:
  assumes "pc s = Not_started" and "loop_step_no_quit\<^sup>*\<^sup>* s t" and "pc t \<noteq> Not_started"
  shows "pc t \<noteq> Exited \<and> \<not> quit (queue t)"
proof -
  have "pc t = Not_started \<or> pc t \<noteq> Exited \<and> \<not> quit (queue t)"
    using assms(2)
  proof (induction rule: rtranclp_induct)
    case (step t u)
    then show ?case
      by (auto elim!: loop_step_no_quit.cases loop_stepE simp: queue_defs)
  qed (use assms(1) in simp)
  then show ?thesis using assms(3) by simp
qed

theorem early_Quit_is_lost_witness:
  "\<exists>s t :: nat loop_run. quit (queue s) \<and> loop_step s t \<and> pc t = Checking_quit \<and> \<not> quit (queue t)"
proof -
  let ?s = "loop_init\<lparr>queue := \<lparr>quit = True, pending = [], wakeups = 1\<rparr>\<rparr> :: nat loop_run"
  let ?t = "?s\<lparr>queue := (queue ?s)\<lparr>quit := False\<rparr>, pc := Checking_quit\<rparr>"
  have p: "pc ?s = Not_started" by (simp add: loop_init_def)
  have st: "loop_step ?s ?t" by (rule loop_step.loop_start [OF p])
  then have "loop_step_no_quit\<^sup>*\<^sup>* ?s ?t" by (intro r_into_rtranclp loop_step_no_quit.intros) simp_all
  from early_Quit_is_lost [OF p this] st show ?thesis by (intro exI [of _ ?s] exI [of _ ?t]) simp
qed

text \<open>
  \<open>HandleEvent\<close>, on every combination of flags: nothing for a channel without interest; an
  error or hang-up goes to the error callback alone, and does nothing at all when there is none;
  a peer that has closed its side goes to the close callback alone, even when data is readable;
  otherwise the read callback runs and then the write callback, which is looked up again after
  the read callback, so that it is skipped if the channel was removed and an access to freed
  memory if the channel was destroyed.
\<close>

theorem Channel_HandleEvent_spec:
  assumes "chans L p = Some c" and "ch_events c \<noteq> 0"
  shows "Channel_HandleEvent call p r (L\<lparr>chans := (chans L)(p \<mapsto> c\<lparr>ch_events := 0\<rparr>)\<rparr>) =
      Some (L\<lparr>chans := (chans L)(p \<mapsto> c\<lparr>ch_events := 0\<rparr>)\<rparr>) \<and>
    (r AND (EPOLLERR OR EPOLLHUP) \<noteq> 0 \<longrightarrow> Channel_HandleEvent call p r L =
      (case error_callback c of None \<Rightarrow> Some L | Some cb \<Rightarrow> call cb L)) \<and>
    (r AND (EPOLLERR OR EPOLLHUP) = 0 \<and> r AND EPOLLRDHUP \<noteq> 0 \<longrightarrow> Channel_HandleEvent call p r L =
      (case close_callback c of None \<Rightarrow> Some L | Some cb \<Rightarrow> call cb L)) \<and>
    (r AND (EPOLLERR OR EPOLLHUP OR EPOLLRDHUP) = 0 \<and> r AND EPOLLIN \<noteq> 0 \<and> read_callback c = Some cb \<and>
       call cb L = Some L1 \<longrightarrow> Channel_HandleEvent call p r L =
      (if r AND EPOLLOUT = 0 then Some L1
       else case chans L1 p of
           None \<Rightarrow> None
         | Some c1 \<Rightarrow> (case write_callback c1 of None \<Rightarrow> Some L1 | Some cb \<Rightarrow> call cb L1)))"
proof -
  have err: "r AND (EPOLLERR OR EPOLLHUP) \<noteq> 0 \<longleftrightarrow> r AND EPOLLERR \<noteq> 0 \<or> r AND EPOLLHUP \<noteq> 0"
    and all: "r AND (EPOLLERR OR EPOLLHUP OR EPOLLRDHUP) = 0 \<longleftrightarrow>
      r AND EPOLLERR = 0 \<and> r AND EPOLLHUP = 0 \<and> r AND EPOLLRDHUP = 0"
    by (auto simp: bit.conj_disj_distrib or_eq_0_iff)
  show ?thesis
    using assms unfolding all using err
    by (auto simp: Channel_HandleEvent_def call_if_set_def split: option.splits)
qed

text \<open>A callback type with one value that counts its calls in the wake-up counter, for the witnesses.\<close>

definition demo_loop :: "unit channel \<Rightarrow> (unit, unit) event_loop" where
  "demo_loop c = \<lparr>quit = False, pending = [], wakeups = 0, epoller = \<lparr>epollFd = 3, event_buf = []\<rparr>, kern = (),
     chans = [64 \<mapsto> c], timer = TimeWheel_new (\<lambda>_. 0) 10, wakeup_fd = 4, thread_id = 0\<rparr>"

theorem Channel_HandleEvent_spec_witness:
  "Channel_HandleEvent (\<lambda>_ L. None) 64 (EPOLLERR OR EPOLLIN)
     (demo_loop (Channel_SetReadCallback () (Channel_new 7)\<lparr>ch_events := EPOLLIN\<rparr>)) =
   Some (demo_loop (Channel_SetReadCallback () (Channel_new 7)\<lparr>ch_events := EPOLLIN\<rparr>))"
  using Channel_HandleEvent_spec [of "demo_loop (Channel_SetReadCallback () (Channel_new 7)\<lparr>ch_events := EPOLLIN\<rparr>)"
      64 "Channel_SetReadCallback () (Channel_new 7)\<lparr>ch_events := EPOLLIN\<rparr>" "\<lambda>_ L. None" "EPOLLERR OR EPOLLIN"]
  by (simp add: demo_loop_def Channel_SetReadCallback_def Channel_new_def epoll_masks)


definition woken_loop :: "(unit, unit) event_loop" where
  "woken_loop = (demo_loop (Channel_new 7))\<lparr>wakeups := 1,
     epoller := \<lparr>epollFd = 3, event_buf = [make_event 0 4 (EPOLLIN OR EPOLLRDHUP) 0]\<rparr>\<rparr>"


end
