(* ===== verification/TcpConnModel.thy ===== *)
theory TcpConnModel
  imports BufferModel EventLoopModel
begin

text \<open>
  \<open>code/network/tcp/tcp_connection.h\<close>, \<open>tcp_connection.cc\<close>: one connection on its event loop.

  The world is the event loop's record extended with the connection's fields, so that
  \<open>channel_->EnableWriting()\<close> and the others are the channel operations of the loop, on the channel
  at address \<open>chp\<close>. \<open>refs\<close> counts the \<open>shared_ptr\<close>s that own the connection; when it reaches 0 the
  destructor runs, and any later access through the raw \<open>this\<close> of the channel's callbacks is \<open>None\<close>.
  The results of \<open>write\<close> and \<open>readv\<close> are read off two scripts, arbitrary lists; an exhausted script
  answers \<open>EAGAIN\<close>. \<open>wire\<close> is what the kernel has accepted. The three user callbacks are functions on the
  world, collected in \<open>conn_callbacks\<close>; an empty \<open>std::function\<close> is \<open>None\<close>. \<open>layerCallback\<close> runs the lambdas
  that the layer above passes to the same loop (the client's timeouts).
\<close>

section \<open>State\<close>

datatype conn_state = Disconnected | Connected

datatype conn_cb =
    CB_handleRead | CB_handleWrite | CB_handleClose
  | CB_send bytes  \<comment> \<open>the lambda queued by \<open>send\<close>\<close>
  | CB_close       \<comment> \<open>the lambda queued by \<open>close\<close>\<close>
  | CB_layer bytes \<comment> \<open>a lambda of the layer above, named by what it captured\<close>

record 'k conn_world = "(conn_cb, 'k) event_loop" +
  in_buf :: buffer
  out_buf :: buffer
  sockfd :: int
  cstate :: conn_state
  chp :: ptr
  peer_ip :: string
  peer_port :: "16 word"
  refs :: nat
  fd_open :: bool
  wire :: bytes
  write_script :: "(errno + nat) list"
  read_script :: "(errno + bytes) list"

record ('k, 'z) conn_callbacks =
  connectionCallback :: "(('k, 'z) conn_world_scheme \<Rightarrow> ('k, 'z) conn_world_scheme option) option"
  messageCallback :: "(('k, 'z) conn_world_scheme \<Rightarrow> ('k, 'z) conn_world_scheme option) option"
  closeCallback :: "(('k, 'z) conn_world_scheme \<Rightarrow> ('k, 'z) conn_world_scheme option) option"
  layerCallback :: "bytes \<Rightarrow> ('k, 'z) conn_world_scheme \<Rightarrow> ('k, 'z) conn_world_scheme option"

definition EAGAIN :: int where "EAGAIN = 11"
definition EWOULDBLOCK :: int where "EWOULDBLOCK = 11"

text \<open>\<open>write(sockfd_, data, len)\<close> and the \<open>readv\<close> in \<open>ReadFd\<close>.\<close>

definition sys_write :: "bytes \<Rightarrow> ('k, 'z) conn_world_scheme \<Rightarrow> (errno + nat) \<times> ('k, 'z) conn_world_scheme" where
  "sys_write data w =
     (case write_script w of
        [] \<Rightarrow> (Inl EAGAIN, w)
      | Inl e # rs \<Rightarrow> (Inl e, w\<lparr>write_script := rs\<rparr>)
      | Inr k # rs \<Rightarrow>
          let n = min k (length data)
          in (Inr n, w\<lparr>write_script := rs, wire := wire w @ take n data\<rparr>))"

definition sys_read :: "('k, 'z) conn_world_scheme \<Rightarrow> (errno + bytes) \<times> ('k, 'z) conn_world_scheme" where
  "sys_read w =
     (case read_script w of
        [] \<Rightarrow> (Inl EAGAIN, w)
      | r # rs \<Rightarrow> (r, w\<lparr>read_script := rs\<rparr>))"

section \<open>Lifetime\<close>

text \<open>Dropping an owner; the last one runs \<open>~TcpConnection\<close>, which closes the socket, and frees the channel.\<close>

definition TcpConnection_delete :: "('k, 'z) conn_world_scheme \<Rightarrow> ('k, 'z) conn_world_scheme" where
  "TcpConnection_delete w =
     Channel_delete (chp w) (if 0 \<le> sockfd w then w\<lparr>fd_open := False\<rparr> else w)"

definition release :: "('k, 'z) conn_world_scheme \<Rightarrow> ('k, 'z) conn_world_scheme" where
  "release w =
     (let w1 = w\<lparr>refs := refs w - 1\<rparr> in if refs w1 = 0 then TcpConnection_delete w1 else w1)"

definition alive :: "('k, 'z) conn_world_scheme \<Rightarrow> bool" where
  "alive w \<longleftrightarrow> chans w (chp w) \<noteq> None"

text \<open>A callback field read through \<open>this\<close> and called with the temporary \<open>shared_from_this()\<close>.\<close>

definition invoke ::
  "(('k, 'z) conn_world_scheme \<Rightarrow> ('k, 'z) conn_world_scheme option) option \<Rightarrow>
     ('k, 'z) conn_world_scheme \<Rightarrow> ('k, 'z) conn_world_scheme option" where
  "invoke cb w =
     (if \<not> alive w then None
      else case cb of
          None \<Rightarrow> Some w
        | Some f \<Rightarrow> map_option release (f (w\<lparr>refs := refs w + 1\<rparr>)))"

section \<open>Operations\<close>

text \<open>The constructor's effect on the world: the fields, and a channel that watches for input.\<close>

definition conn_channel :: "int \<Rightarrow> conn_cb channel" where
  "conn_channel fd =
     Channel_SetCloseCallback CB_handleClose
       (Channel_SetWriteCallback CB_handleWrite
         (Channel_SetReadCallback CB_handleRead (Channel_new fd)))"

text \<open>
  The socket options that \<open>SetKeepAlive\<close> leaves set, with the answers of \<open>setsockopt\<close> as an argument. The constructor calls it
  and ignores what comes of it, and nothing else in the program depends on them.
\<close>

datatype sock_option = SO_KEEPALIVE | TCP_KEEPIDLE | TCP_KEEPINTVL | TCP_KEEPCNT

definition TcpConnection_SetKeepAlive :: "(sock_option \<Rightarrow> int \<Rightarrow> bool) \<Rightarrow> (sock_option \<times> int) list" where
  "TcpConnection_SetKeepAlive setsockopt =
     (if \<not> setsockopt SO_KEEPALIVE 1 then []
      else (SO_KEEPALIVE, 1) # filter (\<lambda>(opt, v). setsockopt opt v)
        [(TCP_KEEPIDLE, 30), (TCP_KEEPINTVL, 10), (TCP_KEEPCNT, 3)])"

text \<open>If all are accepted, a dead peer is given up after 60 seconds, as the comment in the code says.\<close>

lemma keep_alive_60_seconds:
  "(\<forall>opt v. setsockopt opt v) \<Longrightarrow>
   \<exists>idle interval count. TcpConnection_SetKeepAlive setsockopt =
       [(SO_KEEPALIVE, 1), (TCP_KEEPIDLE, idle), (TCP_KEEPINTVL, interval), (TCP_KEEPCNT, count)] \<and> idle + count * interval = 60"
  by (simp add: TcpConnection_SetKeepAlive_def)

definition TcpConnection_new ::
  "'k kernel \<Rightarrow> 64 word \<Rightarrow> ptr \<Rightarrow> int \<Rightarrow> string \<Rightarrow> 16 word \<Rightarrow> ('k, 'z) conn_world_scheme \<Rightarrow>
     ('k, 'z) conn_world_scheme option" where
  "TcpConnection_new sys junk p fd ip port w =
     Channel_EnableReading sys junk p
       (w\<lparr>in_buf := Buffer_new Buffer_INITIAL_SIZE, out_buf := Buffer_new Buffer_INITIAL_SIZE,
          sockfd := fd, cstate := Connected, chp := p, peer_ip := ip, peer_port := port,
          refs := 1, fd_open := True, chans := (chans w)(p \<mapsto> conn_channel fd)\<rparr>)"

definition TcpConnection_sendInLoop ::
  "'k kernel \<Rightarrow> 64 word \<Rightarrow> bytes \<Rightarrow> ('k, 'z) conn_world_scheme \<Rightarrow> ('k, 'z) conn_world_scheme option" where
  "TcpConnection_sendInLoop sys junk data w =
     (if cstate w \<noteq> Connected then Some w
      else if Buffer_ReadableBytes (out_buf w) = 0 then
        (case sys_write data w of
           (Inr n, w1) \<Rightarrow>
             if n < length data
             then Channel_EnableWriting sys junk (chp w1)
                    (w1\<lparr>out_buf := Buffer_Append (drop n data) (out_buf w1)\<rparr>)
             else Some w1
         | (Inl e, w1) \<Rightarrow>
             Channel_EnableWriting sys junk (chp w1) (w1\<lparr>out_buf := Buffer_Append data (out_buf w1)\<rparr>))
      else Channel_EnableWriting sys junk (chp w) (w\<lparr>out_buf := Buffer_Append data (out_buf w)\<rparr>))"

text \<open>From another thread the bytes are copied into a functor that owns the connection.\<close>

definition TcpConnection_send ::
  "'k kernel \<Rightarrow> 64 word \<Rightarrow> nat \<Rightarrow> bytes \<Rightarrow> ('k, 'z) conn_world_scheme \<Rightarrow> ('k, 'z) conn_world_scheme option" where
  "TcpConnection_send sys junk self data w =
     (if cstate w \<noteq> Connected then Some w
      else if EventLoop_IsInLoopThread self w then TcpConnection_sendInLoop sys junk data w
      else Some (EventLoop_QueueInLoop (Fn (CB_send data)) (w\<lparr>refs := refs w + 1\<rparr>)))"

definition TcpConnection_handleClose ::
  "'k kernel \<Rightarrow> 64 word \<Rightarrow> ('k, 'z) conn_callbacks \<Rightarrow> ('k, 'z) conn_world_scheme \<Rightarrow>
     ('k, 'z) conn_world_scheme option" where
  "TcpConnection_handleClose sys junk cbs w =
     (if cstate w = Disconnected then Some w
      else
        Option.bind (Channel_DisableAll sys junk (chp w) (w\<lparr>cstate := Disconnected\<rparr>)) (\<lambda>w1.
        Option.bind (Channel_Remove sys (chp w1) w1) (\<lambda>w2.
        Option.bind (invoke (connectionCallback cbs) w2) (\<lambda>w3.
        invoke (closeCallback cbs) w3))))"

definition TcpConnection_close ::
  "'k kernel \<Rightarrow> 64 word \<Rightarrow> ('k, 'z) conn_callbacks \<Rightarrow> nat \<Rightarrow> ('k, 'z) conn_world_scheme \<Rightarrow>
     ('k, 'z) conn_world_scheme option" where
  "TcpConnection_close sys junk cbs self w =
     (if EventLoop_IsInLoopThread self w then TcpConnection_handleClose sys junk cbs w
      else Some (EventLoop_QueueInLoop (Fn CB_close) (w\<lparr>refs := refs w + 1\<rparr>)))"

definition TcpConnection_handleRead ::
  "'k kernel \<Rightarrow> 64 word \<Rightarrow> ('k, 'z) conn_callbacks \<Rightarrow> ('k, 'z) conn_world_scheme \<Rightarrow>
     ('k, 'z) conn_world_scheme option" where
  "TcpConnection_handleRead sys junk cbs w =
     (if cstate w \<noteq> Connected then Some w
      else
        let (res, w1) = sys_read w; (b, ret) = Buffer_ReadFd res (in_buf w1); w2 = w1\<lparr>in_buf := b\<rparr>
        in (case ret of
              Inr n \<Rightarrow>
                if 0 < n then invoke (messageCallback cbs) w2
                else TcpConnection_handleClose sys junk cbs w2
            | Inl saved_errno \<Rightarrow>
                if saved_errno \<noteq> EAGAIN \<and> saved_errno \<noteq> EWOULDBLOCK
                then TcpConnection_handleClose sys junk cbs w2
                else Some w2))"

definition TcpConnection_handleWrite ::
  "'k kernel \<Rightarrow> 64 word \<Rightarrow> ('k, 'z) conn_world_scheme \<Rightarrow> ('k, 'z) conn_world_scheme option" where
  "TcpConnection_handleWrite sys junk w =
     (if cstate w \<noteq> Connected then Some w
      else
        let (res, w1) = sys_write (Buffer_PeekStringView (out_buf w)) w;
            (ret, _) = Buffer_WriteFd res (out_buf w1);
            w2 = (case ret of
                    Inr n \<Rightarrow> if 0 < n then w1\<lparr>out_buf := Buffer_Retrieve n (out_buf w1)\<rparr> else w1
                  | Inl _ \<Rightarrow> w1)
        in if Buffer_ReadableBytes (out_buf w2) = 0 then Channel_DisableWriting sys junk (chp w2) w2
           else Some w2)"

text \<open>What the loop's \<open>call\<close> does for each callback of a connection.\<close>

definition conn_call ::
  "'k kernel \<Rightarrow> 64 word \<Rightarrow> ('k, 'z) conn_callbacks \<Rightarrow> conn_cb \<Rightarrow> ('k, 'z) conn_world_scheme \<Rightarrow>
     ('k, 'z) conn_world_scheme option" where
  "conn_call sys junk cbs cb w =
     (case cb of
        CB_handleRead \<Rightarrow> TcpConnection_handleRead sys junk cbs w
      | CB_handleWrite \<Rightarrow> TcpConnection_handleWrite sys junk w
      | CB_handleClose \<Rightarrow> TcpConnection_handleClose sys junk cbs w
      | CB_send data \<Rightarrow>
          map_option release
            (if cstate w \<noteq> Connected then Some w else TcpConnection_sendInLoop sys junk data w)
      | CB_close \<Rightarrow> map_option release (TcpConnection_handleClose sys junk cbs w)
      | CB_layer tag \<Rightarrow> layerCallback cbs tag w)"

section \<open>Invariant\<close>

text \<open>
  An open connection has its channel, with its three callbacks and no error callback, watching for
  input, and for writability at least while bytes are waiting.
\<close>

definition conn_ok :: "('k, 'z) conn_world_scheme \<Rightarrow> bool" where
  "conn_ok w \<longleftrightarrow> wf_buffer (in_buf w) \<and> wf_buffer (out_buf w) \<and> 0 < refs w \<and> cstate w = Connected \<and>
     (\<exists>e. chans w (chp w) = Some ((conn_channel (sockfd w))\<lparr>ch_events := e\<rparr>) \<and>
        (e = EPOLLIN \<or> e = EPOLLIN OR EPOLLOUT) \<and>
        (0 < Buffer_ReadableBytes (out_buf w) \<longrightarrow> e = EPOLLIN OR EPOLLOUT))"

text \<open>All the bytes the connection has taken: those on the wire and those waiting.\<close>

definition promised :: "('k, 'z) conn_world_scheme \<Rightarrow> bytes" where
  "promised w = wire w @ Buffer_PeekStringView (out_buf w)"

lemma UpdateChannel_alive:
  assumes "chans L p = Some c"
  shows "\<exists>k'. EventLoop_UpdateChannel sys junk p L = Some (L\<lparr>kern := k'\<rparr>)"
  using assms by (simp add: EventLoop_UpdateChannel_def split: prod.split) blast

lemma set_events_alive:
  assumes "chans L p = Some c"
  shows "\<exists>k'. set_events sys junk p f L =
    Some (L\<lparr>chans := (chans L)(p \<mapsto> c\<lparr>ch_events := f (ch_events c)\<rparr>), kern := k'\<rparr>)"
  using assms UpdateChannel_alive [of "L\<lparr>chans := (chans L)(p \<mapsto> c\<lparr>ch_events := f (ch_events c)\<rparr>)\<rparr>" p
      "c\<lparr>ch_events := f (ch_events c)\<rparr>" sys junk]
  by (auto simp: set_events_def Channel_Update_def)

lemma Remove_alive:
  assumes "chans L p = Some c"
  shows "\<exists>k'. Channel_Remove sys p L = Some (L\<lparr>chans := (chans L)(p \<mapsto> c\<lparr>read_callback := None,
    write_callback := None, close_callback := None, error_callback := None\<rparr>), kern := k'\<rparr>)"
  using assms by (simp add: Channel_Remove_def EventLoop_RemoveChannel_def split: prod.split) blast

lemma sys_write_spec:
  assumes "sys_write data w = (r, w1)"
  shows "\<exists>rs. w1 = w\<lparr>write_script := rs, wire := wire w @ take (case r of Inl _ \<Rightarrow> 0 | Inr n \<Rightarrow> n) data\<rparr>"
    and "r = Inr n \<Longrightarrow> n \<le> length data"
proof -
  show "\<exists>rs. w1 = w\<lparr>write_script := rs, wire := wire w @ take (case r of Inl _ \<Rightarrow> 0 | Inr n \<Rightarrow> n) data\<rparr>"
    using assms
    by (intro exI [of _ "tl (write_script w)"])
      (auto simp: sys_write_def Let_def split: list.splits sum.splits)
  show "r = Inr n \<Longrightarrow> n \<le> length data"
    using assms by (auto simp: sys_write_def Let_def split: list.splits sum.splits)
qed

lemma flag_algebra [simp]:
  "(EPOLLIN OR EPOLLOUT) OR EPOLLOUT = EPOLLIN OR EPOLLOUT"
  "EPOLLIN AND NOT EPOLLOUT = EPOLLIN" "(EPOLLIN OR EPOLLOUT) AND NOT EPOLLOUT = EPOLLIN"
  "EPOLLIN \<noteq> 0" "EPOLLIN OR EPOLLOUT \<noteq> 0"
  by (simp_all add: epoll_masks)

text \<open>Turning write interest on and off.\<close>

lemma EnableWriting_ok:
  assumes "chans w (chp w) = Some ((conn_channel (sockfd w))\<lparr>ch_events := e\<rparr>)"
    and "e = EPOLLIN \<or> e = EPOLLIN OR EPOLLOUT"
    and "wf_buffer (in_buf w)" "wf_buffer (out_buf w)" "0 < refs w" "cstate w = Connected"
  shows "\<exists>w'. Channel_EnableWriting sys junk (chp w) w = Some w' \<and> conn_ok w' \<and>
    promised w' = promised w \<and> thread_id w' = thread_id w"
  using set_events_alive [OF assms(1), of sys junk "\<lambda>e. e OR EPOLLOUT"] assms(2-6)
  by (auto simp: Channel_EnableWriting_def conn_ok_def promised_def)

lemma DisableWriting_ok:
  assumes "chans w (chp w) = Some ((conn_channel (sockfd w))\<lparr>ch_events := e\<rparr>)"
    and "e = EPOLLIN \<or> e = EPOLLIN OR EPOLLOUT" and "Buffer_ReadableBytes (out_buf w) = 0"
    and "wf_buffer (in_buf w)" "wf_buffer (out_buf w)" "0 < refs w" "cstate w = Connected"
  shows "\<exists>w'. Channel_DisableWriting sys junk (chp w) w = Some w' \<and> conn_ok w' \<and>
    promised w' = promised w \<and> thread_id w' = thread_id w"
  using set_events_alive [OF assms(1), of sys junk "\<lambda>e. e AND NOT EPOLLOUT"] assms(2-7)
  by (auto simp: Channel_DisableWriting_def conn_ok_def promised_def)

lemma empty_view: "wf_buffer b \<Longrightarrow> Buffer_ReadableBytes b = 0 \<Longrightarrow> Buffer_PeekStringView b = []"
  by (simp flip: length_0_conv)

lemma sendInLoop_ok:
  assumes ok: "conn_ok w"
  shows "\<exists>w'. TcpConnection_sendInLoop sys junk data w = Some w' \<and> conn_ok w' \<and>
    promised w' = promised w @ data \<and> thread_id w' = thread_id w"
proof -
  obtain e where e: "chans w (chp w) = Some ((conn_channel (sockfd w))\<lparr>ch_events := e\<rparr>)"
    "e = EPOLLIN \<or> e = EPOLLIN OR EPOLLOUT" using ok by (auto simp: conn_ok_def)
  have wf: "wf_buffer (in_buf w)" "wf_buffer (out_buf w)" "0 < refs w" "cstate w = Connected"
    using ok by (simp_all add: conn_ok_def)
  show ?thesis
  proof (cases "Buffer_ReadableBytes (out_buf w) = 0")
    case True
    note empty = empty_view [OF wf(2) True]
    obtain r w1 where r: "sys_write data w = (r, w1)" by force
    obtain rs where w1: "w1 = w\<lparr>write_script := rs, wire := wire w @ take (case r of Inl _ \<Rightarrow> 0 | Inr n \<Rightarrow> n) data\<rparr>"
      using sys_write_spec(1) [OF r] ..
    let ?n = "case r of Inl _ \<Rightarrow> 0 | Inr n \<Rightarrow> n"
    show ?thesis
    proof (cases "\<exists>n. r = Inr n \<and> length data \<le> n")
      case True
      have "conn_ok w1" using ok w1 by (simp add: conn_ok_def)
      moreover have "promised w1 = promised w @ data" using True w1 empty by (auto simp: promised_def)
      ultimately show ?thesis using True r wf(4) \<open>Buffer_ReadableBytes (out_buf w) = 0\<close> w1
        by (auto simp: TcpConnection_sendInLoop_def)
    next
      case False
      let ?w = "w1\<lparr>out_buf := Buffer_Append (drop ?n data) (out_buf w1)\<rparr>"
      have "TcpConnection_sendInLoop sys junk data w = Channel_EnableWriting sys junk (chp ?w) ?w"
        using False r wf(4) True by (auto simp: TcpConnection_sendInLoop_def split: sum.split)
      moreover have "promised ?w = promised w @ data"
        using w1 empty wf(2) by (simp add: promised_def view_Append)
      ultimately show ?thesis
        using EnableWriting_ok [of ?w e sys junk] e wf w1 wf_Append by auto
    qed
  next
    case False
    let ?w = "w\<lparr>out_buf := Buffer_Append data (out_buf w)\<rparr>"
    have "promised ?w = promised w @ data" using wf(2) by (simp add: promised_def view_Append)
    then show ?thesis
      using False EnableWriting_ok [of ?w e sys junk] e wf wf_Append
      by (auto simp: TcpConnection_sendInLoop_def)
  qed
qed

text \<open>A send touches the channel, the output buffer and the wire only.\<close>

definition send_erased :: "'k \<Rightarrow> ('k, 'z) conn_world_scheme \<Rightarrow> ('k, 'z) conn_world_scheme" where
  "send_erased k w = w\<lparr>kern := k, chans := Map.empty, out_buf := Buffer_new 0, wire := [], write_script := []\<rparr>"

definition send_frame :: "('k, 'z) conn_world_scheme \<Rightarrow> ('k, 'z) conn_world_scheme \<Rightarrow> bool" where
  "send_frame w w' \<longleftrightarrow> (\<forall>k. send_erased k w' = send_erased k w)"

lemma send_frame_refl [simp]: "send_frame w w"
  by (simp add: send_frame_def)

lemma send_frame_field:
  assumes "send_frame w w'" and "\<And>v. field (send_erased (kern w) v) = field v"
  shows "field w' = field w"
  using assms by (metis send_frame_def)

lemma set_events_send_frame:
  assumes "set_events sys junk p f v = Some w'" and "send_frame w v"
  shows "send_frame w w'"
proof -
  have "send_frame v w'"
    using assms(1)
    by (auto simp: set_events_def Channel_Update_def EventLoop_UpdateChannel_def send_frame_def send_erased_def
        split: option.splits prod.splits)
  then show ?thesis using assms(2) by (simp add: send_frame_def)
qed

lemma sys_write_send_frame: "sys_write data w = (r, w1) \<Longrightarrow> send_frame w (w1\<lparr>out_buf := b\<rparr>) \<and> send_frame w w1"
  by (auto simp: sys_write_def send_frame_def send_erased_def Let_def split: list.splits sum.splits)

lemma out_buf_send_frame: "send_frame w (w\<lparr>out_buf := b\<rparr>)"
  by (simp add: send_frame_def send_erased_def)

lemma sendInLoop_frame:
  assumes "TcpConnection_sendInLoop sys junk data w = Some w'"
  shows "send_frame w w'"
  using assms
  by (auto simp: TcpConnection_sendInLoop_def Channel_EnableWriting_def
      dest: sys_write_send_frame intro: set_events_send_frame out_buf_send_frame
      split: if_splits sum.splits prod.splits)

lemma handleWrite_ok:
  assumes ok: "conn_ok w"
  shows "\<exists>w'. TcpConnection_handleWrite sys junk w = Some w' \<and> conn_ok w' \<and>
    promised w' = promised w \<and> thread_id w' = thread_id w"
proof -
  obtain e where e: "chans w (chp w) = Some ((conn_channel (sockfd w))\<lparr>ch_events := e\<rparr>)"
    "e = EPOLLIN \<or> e = EPOLLIN OR EPOLLOUT" "0 < Buffer_ReadableBytes (out_buf w) \<longrightarrow> e = EPOLLIN OR EPOLLOUT"
    using ok by (auto simp: conn_ok_def)
  have wf: "wf_buffer (in_buf w)" "wf_buffer (out_buf w)" "0 < refs w" "cstate w = Connected"
    using ok by (simp_all add: conn_ok_def)
  let ?v = "Buffer_PeekStringView (out_buf w)"
  obtain r w1 where r: "sys_write ?v w = (r, w1)" by force
  let ?n = "case r of Inl _ \<Rightarrow> 0 | Inr n \<Rightarrow> n"
  obtain rs where w1: "w1 = w\<lparr>write_script := rs, wire := wire w @ take ?n ?v\<rparr>"
    using sys_write_spec(1) [OF r] ..
  have n: "?n \<le> Buffer_ReadableBytes (out_buf w)"
    using sys_write_spec(2) [OF r] wf(2) by (cases r) simp_all
  obtain ret out where ret: "Buffer_WriteFd r (out_buf w1) = (ret, out)" by force
  let ?w = "case ret of Inr n \<Rightarrow> if 0 < n then w1\<lparr>out_buf := Buffer_Retrieve n (out_buf w1)\<rparr> else w1 | Inl _ \<Rightarrow> w1"
  have w2: "?w = w1\<lparr>out_buf := (if 0 < ?n then Buffer_Retrieve ?n (out_buf w) else out_buf w)\<rparr>"
    using ret n w1 by (cases r) (auto simp: Buffer_WriteFd_def Let_def)
  have prom: "promised ?w = promised w" using wf(2) w1 by (auto simp: w2 promised_def view_Retrieve)
  have wf2: "wf_buffer (out_buf ?w)" using wf(2) w1 unfolding w2 by simp
  have same: "chans ?w (chp ?w) = Some ((conn_channel (sockfd ?w))\<lparr>ch_events := e\<rparr>)" "in_buf ?w = in_buf w"
    "refs ?w = refs w" "cstate ?w = cstate w" "thread_id ?w = thread_id w" using e(1) w1 unfolding w2 by simp_all
  have eq: "TcpConnection_handleWrite sys junk w =
    (if Buffer_ReadableBytes (out_buf ?w) = 0 then Channel_DisableWriting sys junk (chp ?w) ?w else Some ?w)"
    using wf(4) r ret by (simp add: TcpConnection_handleWrite_def Let_def)
  show ?thesis
  proof (cases "Buffer_ReadableBytes (out_buf ?w) = 0")
    case True
    then show ?thesis unfolding eq
      using DisableWriting_ok [OF same(1) e(2) True] wf wf2 same prom by auto
  next
    case False
    have "Buffer_ReadableBytes (out_buf ?w) \<le> Buffer_ReadableBytes (out_buf w)" unfolding w2 by simp
    then have "e = EPOLLIN OR EPOLLOUT" using e(3) False by simp
    then have "conn_ok ?w" using same wf wf2 unfolding conn_ok_def by auto
    then show ?thesis unfolding eq using False prom same by auto
  qed
qed

section \<open>The output as a message sink\<close>

text \<open>
  What the RPC layer relies on when it sends from the loop thread: a send succeeds, keeps the sink
  usable and appends exactly its bytes to what has been promised to the peer.
\<close>

locale message_sink =
  fixes ok :: "'w \<Rightarrow> bool"
    and taken :: "'w \<Rightarrow> bytes"
    and send :: "bytes \<Rightarrow> 'w \<Rightarrow> 'w option"
  assumes send_ok: "ok w \<Longrightarrow> \<exists>w'. send data w = Some w' \<and> ok w' \<and> taken w' = taken w @ data"
begin

fun send_all :: "bytes list \<Rightarrow> 'w \<Rightarrow> 'w option" where
  "send_all [] w = Some w"
| "send_all (d # ds) w = Option.bind (send d w) (send_all ds)"

lemma send_all_ok:
  "ok w \<Longrightarrow> \<exists>w'. send_all ds w = Some w' \<and> ok w' \<and> taken w' = taken w @ concat ds"
proof (induction ds arbitrary: w)
  case (Cons d ds)
  obtain w1 where w1: "send d w = Some w1" "ok w1" "taken w1 = taken w @ d"
    using send_ok [OF Cons.prems] by blast
  from Cons.IH [OF w1(2)] show ?case using w1 by auto
qed simp

end

definition open_in_loop :: "nat \<Rightarrow> ('k, 'z) conn_world_scheme \<Rightarrow> bool" where
  "open_in_loop self w \<longleftrightarrow> conn_ok w \<and> thread_id w = self"

interpretation conn_sink: message_sink "open_in_loop self" promised "TcpConnection_send sys junk self"
  for self sys junk
proof unfold_locales
  fix w :: "('a, 'b) conn_world_scheme" and data
  assume "open_in_loop self w"
  then have w: "conn_ok w" "thread_id w = self" by (simp_all add: open_in_loop_def)
  then have "TcpConnection_send sys junk self data w = TcpConnection_sendInLoop sys junk data w"
    by (simp add: TcpConnection_send_def EventLoop_IsInLoopThread_def conn_ok_def)
  then show "\<exists>w'. TcpConnection_send sys junk self data w = Some w' \<and> open_in_loop self w' \<and>
      promised w' = promised w @ data"
    using sendInLoop_ok [OF w(1), of sys junk data] w(2) by (auto simp: open_in_loop_def)
qed

section \<open>The input as a byte stream\<close>

definition in_view :: "('k, 'z) conn_world_scheme \<Rightarrow> bytes" where
  "in_view w = Buffer_PeekStringView (in_buf w)"

definition in_feed :: "bytes \<Rightarrow> ('k, 'z) conn_world_scheme \<Rightarrow> ('k, 'z) conn_world_scheme" where
  "in_feed xs w = w\<lparr>in_buf := Buffer_Append xs (in_buf w)\<rparr>"

definition in_consume :: "nat \<Rightarrow> ('k, 'z) conn_world_scheme \<Rightarrow> ('k, 'z) conn_world_scheme" where
  "in_consume n w = w\<lparr>in_buf := Buffer_Retrieve n (in_buf w)\<rparr>"

lemmas in_defs [model_defs] = in_view_def in_feed_def in_consume_def

lemma open_in_loop_wf: "open_in_loop self w \<Longrightarrow> wf_buffer (in_buf w)"
  by (simp add: open_in_loop_def conn_ok_def)

lemma open_in_loop_in_buf: "open_in_loop self w \<Longrightarrow> wf_buffer b \<Longrightarrow> open_in_loop self (w\<lparr>in_buf := b\<rparr>)"
  by (simp add: open_in_loop_def conn_ok_def)

lemma promised_in_buf [simp]: "promised (w\<lparr>in_buf := b\<rparr>) = promised w"
  by (simp add: promised_def)

interpretation conn_input: byte_stream "open_in_loop self" in_view in_feed in_consume
  for self
proof unfold_locales
  fix w :: "('a, 'b) conn_world_scheme" and xs n
  assume w: "open_in_loop self w"
  note wf = open_in_loop_wf [OF w]
  show "open_in_loop self (in_feed xs w)"
    using open_in_loop_in_buf [OF w wf_Append [OF wf]] by (simp add: in_feed_def)
  show "in_view (in_feed xs w) = in_view w @ xs" using wf by (simp add: in_defs view_Append)
  show "open_in_loop self (in_consume n w)"
    using open_in_loop_in_buf [OF w wf_Retrieve [OF wf]] by (simp add: in_consume_def)
  show "in_view (in_consume n w) = drop n (in_view w)" using wf by (simp add: in_defs view_Retrieve)
qed

text \<open>A run of sends and writability events on the loop thread.\<close>

datatype conn_op = Do_send bytes | Do_writable

fun conn_run ::
  "'k kernel \<Rightarrow> 64 word \<Rightarrow> conn_op list \<Rightarrow> ('k, 'z) conn_world_scheme \<Rightarrow> ('k, 'z) conn_world_scheme option" where
  "conn_run sys junk [] w = Some w"
| "conn_run sys junk (Do_send data # ops) w =
     Option.bind (TcpConnection_sendInLoop sys junk data w) (conn_run sys junk ops)"
| "conn_run sys junk (Do_writable # ops) w =
     Option.bind (TcpConnection_handleWrite sys junk w) (conn_run sys junk ops)"

fun sent_bytes :: "conn_op list \<Rightarrow> bytes" where
  "sent_bytes [] = []"
| "sent_bytes (Do_send data # ops) = data @ sent_bytes ops"
| "sent_bytes (Do_writable # ops) = sent_bytes ops"

lemma conn_run_ok:
  "conn_ok w \<Longrightarrow> \<exists>w'. conn_run sys junk ops w = Some w' \<and> conn_ok w' \<and>
     promised w' = promised w @ sent_bytes ops"
proof (induction ops arbitrary: w rule: sent_bytes.induct)
  case (2 data ops)
  obtain w1 where w1: "TcpConnection_sendInLoop sys junk data w = Some w1" "conn_ok w1"
    "promised w1 = promised w @ data" using sendInLoop_ok [OF "2.prems"] by blast
  from "2.IH" [OF w1(2)] show ?case using w1 by auto
next
  case (3 ops)
  obtain w1 where w1: "TcpConnection_handleWrite sys junk w = Some w1" "conn_ok w1"
    "promised w1 = promised w" using handleWrite_ok [OF "3.prems"] by blast
  from "3.IH" [OF w1(2)] show ?case using w1 by auto
qed simp

section \<open>Closing\<close>

text \<open>The world after \<open>DisableAll\<close> and \<open>Remove\<close>, before the callbacks.\<close>

lemma handleClose_steps:
  assumes ok: "conn_ok w"
  shows "\<exists>k'. TcpConnection_handleClose sys junk cbs w =
    (let w2 = w\<lparr>cstate := Disconnected, chans := (chans w)(chp w \<mapsto> Channel_new (sockfd w)), kern := k'\<rparr>
     in Option.bind (invoke (connectionCallback cbs) w2) (invoke (closeCallback cbs)))"
proof -
  obtain e where e: "chans w (chp w) = Some ((conn_channel (sockfd w))\<lparr>ch_events := e\<rparr>)"
    using ok by (auto simp: conn_ok_def)
  let ?w0 = "w\<lparr>cstate := Disconnected\<rparr>"
  have e0: "chans ?w0 (chp w) = Some ((conn_channel (sockfd w))\<lparr>ch_events := e\<rparr>)" using e by simp
  obtain k1 where k1: "Channel_DisableAll sys junk (chp w) ?w0 =
      Some (?w0\<lparr>chans := (chans w)(chp w \<mapsto> (conn_channel (sockfd w))\<lparr>ch_events := 0\<rparr>), kern := k1\<rparr>)"
    using set_events_alive [OF e0, of sys junk "\<lambda>_. 0"] by (auto simp: Channel_DisableAll_def)
  let ?w1 = "?w0\<lparr>chans := (chans w)(chp w \<mapsto> (conn_channel (sockfd w))\<lparr>ch_events := 0\<rparr>), kern := k1\<rparr>"
  have "chans ?w1 (chp w) = Some ((conn_channel (sockfd w))\<lparr>ch_events := 0\<rparr>)" by simp
  from Remove_alive [OF this, of sys] obtain k2 where
    k2: "Channel_Remove sys (chp w) ?w1 =
      Some (?w1\<lparr>chans := (chans w)(chp w \<mapsto> Channel_new (sockfd w)), kern := k2\<rparr>)"
    by (auto simp: conn_channel_def Channel_new_def Channel_SetReadCallback_def
        Channel_SetWriteCallback_def Channel_SetCloseCallback_def)
  show ?thesis
    using ok k1 k2 by (intro exI [of _ k2]) (simp add: TcpConnection_handleClose_def conn_ok_def Let_def)
qed

lemma invoke_None [simp]: "alive w \<Longrightarrow> invoke None w = Some w"
  by (simp add: invoke_def)

lemma invoke_Some:
  "invoke (Some f) = (\<lambda>w. if alive w then map_option release (f (w\<lparr>refs := refs w + 1\<rparr>)) else None)"
  by (rule ext) (simp add: invoke_def)

lemma handleClose_no_callbacks:
  assumes "conn_ok w" and "connectionCallback cbs = None" and "closeCallback cbs = None"
  shows "\<exists>k'. TcpConnection_handleClose sys junk cbs w = Some (w\<lparr>cstate := Disconnected,
    chans := (chans w)(chp w \<mapsto> Channel_new (sockfd w)), kern := k'\<rparr>)"
  using handleClose_steps [OF assms(1), of sys junk cbs] assms(2,3) by (simp add: Let_def alive_def)

lemma conn_channel_simps [simp]:
  "read_callback (conn_channel fd) = Some CB_handleRead" "write_callback (conn_channel fd) = Some CB_handleWrite"
  "close_callback (conn_channel fd) = Some CB_handleClose" "error_callback (conn_channel fd) = None"
  by (simp_all add: conn_channel_def Channel_SetReadCallback_def Channel_SetWriteCallback_def
      Channel_SetCloseCallback_def Channel_new_def)

section \<open>Properties\<close>

text \<open>A fresh connection on descriptor 7 with the given scripts, for the witnesses.\<close>

definition demo_conn :: "(errno + nat) list \<Rightarrow> (errno + bytes) list \<Rightarrow> unit conn_world" where
  "demo_conn ws rs = \<lparr>quit = False, pending = [], wakeups = 0, epoller = \<lparr>epollFd = 3, event_buf = []\<rparr>,
     kern = (), chans = [64 \<mapsto> (conn_channel 7)\<lparr>ch_events := EPOLLIN\<rparr>], timer = TimeWheel_new (\<lambda>_. 0) 10,
     wakeup_fd = 4, thread_id = 0, in_buf = Buffer_new 16, out_buf = Buffer_new 16, sockfd = 7,
     cstate = Connected, chp = 64, peer_ip = [], peer_port = 0, refs = 1, fd_open = True, wire = [],
     write_script = ws, read_script = rs\<rparr>"

lemma demo_conn_ok: "conn_ok (demo_conn ws rs)"
  by (auto simp: conn_ok_def demo_conn_def Buffer_new_def Buffer_ReadableBytes_def wf_buffer_def)

lemma promised_demo: "promised (demo_conn ws rs) = []"
  by (simp add: promised_def demo_conn_def)

text \<open>
  C16. Sends on the loop thread and writability events, in any order and whatever part of each write
  the kernel accepts or refuses: every operation succeeds, the bytes on the wire followed by the
  bytes waiting are exactly the bytes sent, in order, and while bytes are waiting the channel is
  registered for \<open>EPOLLOUT\<close>, so that they will be written.
\<close>

theorem connection_output_stream:
  assumes "conn_ok w"
  shows "\<exists>w'. conn_run sys junk ops w = Some w' \<and>
    wire w' @ Buffer_PeekStringView (out_buf w') =
      wire w @ Buffer_PeekStringView (out_buf w) @ sent_bytes ops \<and>
    (0 < Buffer_ReadableBytes (out_buf w') \<longrightarrow>
      (\<exists>c. chans w' (chp w') = Some c \<and> ch_events c AND EPOLLOUT \<noteq> 0))"
proof -
  obtain w' where w': "conn_run sys junk ops w = Some w'" "conn_ok w'" "promised w' = promised w @ sent_bytes ops"
    using conn_run_ok [OF assms] by blast
  then have "0 < Buffer_ReadableBytes (out_buf w') \<longrightarrow>
      (\<exists>c. chans w' (chp w') = Some c \<and> ch_events c AND EPOLLOUT \<noteq> 0)"
    by (auto simp: conn_ok_def epoll_masks)
  then show ?thesis using w' by (auto simp: promised_def)
qed

theorem connection_output_stream_witness:
  "\<exists>w'. conn_run null_kernel 0 [Do_send [1, 2, 3], Do_send [4], Do_writable] (demo_conn [Inr 2, Inl 11] []) = Some w' \<and>
     wire w' @ Buffer_PeekStringView (out_buf w') = [1, 2, 3, 4]"
  using connection_output_stream [OF demo_conn_ok, of null_kernel 0 "[Do_send [1, 2, 3], Do_send [4], Do_writable]"
      "[Inr 2, Inl 11]" "[]"] promised_demo [of "[Inr 2, Inl 11]" "[]"]
  by (auto simp: promised_def)

lemma send_functor:
  assumes "conn_ok w" and "1 < refs w"
  shows "\<exists>w2. conn_call sys junk cbs (CB_send data) w = Some w2 \<and> conn_ok w2 \<and> promised w2 = promised w @ data \<and>
    send_frame (w\<lparr>refs := refs w - 1\<rparr>) w2"
proof -
  obtain v where v: "TcpConnection_sendInLoop sys junk data w = Some v" "conn_ok v" "promised v = promised w @ data"
    using sendInLoop_ok [OF assms(1)] by blast
  note fr = sendInLoop_frame [OF v(1)]
  have refs: "refs v = refs w" using send_frame_field [OF fr, of refs] by (simp add: send_erased_def)
  then have rel: "release v = v\<lparr>refs := refs w - 1\<rparr>" using assms(2) by (simp add: release_def Let_def)
  have "conn_call sys junk cbs (CB_send data) w = Some (v\<lparr>refs := refs w - 1\<rparr>)"
    using v(1) assms(1) rel by (simp add: conn_call_def conn_ok_def)
  moreover have "conn_ok (v\<lparr>refs := refs w - 1\<rparr>)" using v(2) assms(2) by (simp add: conn_ok_def)
  moreover have "send_erased k (x\<lparr>refs := n\<rparr>) = (send_erased k x)\<lparr>refs := n\<rparr>" for k n and x :: "('a, 'b) conn_world_scheme"
    by (simp add: send_erased_def)
  then have "send_frame (w\<lparr>refs := refs w - 1\<rparr>) (v\<lparr>refs := refs w - 1\<rparr>)"
    using fr by (simp add: send_frame_def)
  ultimately show ?thesis using v(3) by (simp add: promised_def)
qed

lemma other_thread_send:
  assumes "conn_ok w" and "thread_id w \<noteq> self"
  shows "\<exists>w1. TcpConnection_send sys junk self data w = Some w1 \<and>
    pending w1 = pending w @ [Fn (CB_send data)] \<and> refs w1 = refs w + 1 \<and> promised w1 = promised w \<and>
    (\<exists>w2. conn_call sys junk cbs (CB_send data) w1 = Some w2 \<and> conn_ok w2 \<and>
      promised w2 = promised w @ data) \<and>
    conn_call sys junk cbs (CB_send data) (w1\<lparr>cstate := Disconnected\<rparr>) = Some (release (w1\<lparr>cstate := Disconnected\<rparr>))"
proof -
  let ?w1 = "EventLoop_QueueInLoop (Fn (CB_send data)) (w\<lparr>refs := refs w + 1\<rparr>)"
  have s: "TcpConnection_send sys junk self data w = Some ?w1"
    using assms by (simp add: TcpConnection_send_def EventLoop_IsInLoopThread_def conn_ok_def)
  have ok1: "conn_ok ?w1" using assms(1) by (simp add: conn_ok_def EventLoop_QueueInLoop_def queue_defs)
  have "1 < refs ?w1" using assms(1) by (simp add: conn_ok_def EventLoop_QueueInLoop_def queue_defs)
  from send_functor [OF ok1 this, of sys junk cbs data]
  obtain w2 where "conn_call sys junk cbs (CB_send data) ?w1 = Some w2" "conn_ok w2" "promised w2 = promised ?w1 @ data" by blast
  moreover have "promised ?w1 = promised w" by (simp add: promised_def EventLoop_QueueInLoop_def queue_defs)
  ultimately show ?thesis using s
    by (auto simp: conn_call_def promised_def EventLoop_QueueInLoop_def queue_defs)
qed

lemma queued_send_runs:
  assumes "conn_ok w"
  shows "\<exists>w2. conn_call sys junk cbs (CB_send data) (EventLoop_QueueInLoop (Fn (CB_send data)) (w\<lparr>refs := refs w + 1\<rparr>)) = Some w2 \<and>
    conn_ok w2 \<and> promised w2 = promised w @ data"
proof -
  have t: "thread_id w \<noteq> thread_id w + 1" by simp
  have "TcpConnection_send sys junk (thread_id w + 1) data w =
      Some (EventLoop_QueueInLoop (Fn (CB_send data)) (w\<lparr>refs := refs w + 1\<rparr>))"
    using assms by (simp add: TcpConnection_send_def EventLoop_IsInLoopThread_def conn_ok_def)
  then show ?thesis using other_thread_send [OF assms t, of sys junk data cbs] by auto
qed

text \<open>
  A send from another thread: the bytes are queued with an owner for the connection; when the
  loop runs the functor on the still open connection they are appended to what it has promised and
  the owner is dropped; if the connection has closed in between, they are dropped.
\<close>

theorem send_from_other_thread:
  assumes "conn_ok w" and "thread_id w \<noteq> self"
  shows "\<exists>w1. TcpConnection_send sys junk self data w = Some w1 \<and>
    pending w1 = pending w @ [Fn (CB_send data)] \<and> refs w1 = refs w + 1 \<and> promised w1 = promised w \<and>
    (\<exists>w2. conn_call sys junk cbs (CB_send data) w1 = Some w2 \<and> conn_ok w2 \<and>
      promised w2 = promised w @ data) \<and>
    conn_call sys junk cbs (CB_send data) (w1\<lparr>cstate := Disconnected\<rparr>) = Some (release (w1\<lparr>cstate := Disconnected\<rparr>))"
  by (rule other_thread_send [OF assms])

theorem send_from_other_thread_witness:
  "\<exists>w1. TcpConnection_send null_kernel 0 5 [9] (demo_conn [] []) = Some w1 \<and>
     pending w1 = [Fn (CB_send [9])] \<and> refs w1 = 2"
proof -
  have d: "thread_id (demo_conn [] []) \<noteq> 5" "pending (demo_conn [] []) = []" "refs (demo_conn [] []) = 1"
    by (simp_all add: demo_conn_def)
  from send_from_other_thread [OF demo_conn_ok d(1), of null_kernel 0 "[9]" undefined]
  show ?thesis by (elim exE conjE) (simp add: d)
qed

text \<open>
  An error or hang-up on a connection is ignored: the constructor sets no error callback, so the
  dispatch of \<open>EPOLLERR\<close> or \<open>EPOLLHUP\<close> changes nothing, whatever other flags are set. A reset connection
  stays \<open>Connected\<close> and neither its close callback nor its connection callback is called.
\<close>

theorem hangup_is_ignored:
  assumes "conn_ok w" and "r AND EPOLLERR \<noteq> 0 \<or> r AND EPOLLHUP \<noteq> 0"
  shows "Channel_HandleEvent (conn_call sys junk cbs) (chp w) r w = Some w \<and> cstate w = Connected"
  using assms by (auto simp: conn_ok_def Channel_HandleEvent_def)

theorem hangup_is_ignored_witness:
  "Channel_HandleEvent (conn_call null_kernel 0 \<lparr>connectionCallback = None, messageCallback = None,
     closeCallback = None, layerCallback = (\<lambda>_ _. None)\<rparr>) 64 (EPOLLIN OR EPOLLHUP OR EPOLLRDHUP) (demo_conn [] [Inl 104]) =
   Some (demo_conn [] [Inl 104])"
  using hangup_is_ignored [OF demo_conn_ok, of "EPOLLIN OR EPOLLHUP OR EPOLLRDHUP" null_kernel 0 _ "[]" "[Inl 104]"]
  by (simp add: epoll_masks demo_conn_def)

text \<open>
  When the peer has shut down its sending side, the connection is closed without reading: bytes
  that have arrived and not been read yet are discarded, and so is the output that has not been
  written. Here without user callbacks: the read script and the wire are as before.
\<close>

theorem RDHUP_discards_unread_input:
  assumes "conn_ok w" and "r AND (EPOLLERR OR EPOLLHUP) = 0" and "r AND EPOLLRDHUP \<noteq> 0"
    and "connectionCallback cbs = None" and "closeCallback cbs = None"
  shows "\<exists>w'. Channel_HandleEvent (conn_call sys junk cbs) (chp w) r w = Some w' \<and>
    cstate w' = Disconnected \<and> read_script w' = read_script w \<and> in_buf w' = in_buf w \<and> wire w' = wire w"
proof -
  have "r AND EPOLLERR = 0" "r AND EPOLLHUP = 0"
    using assms(2) by (simp_all add: bit.conj_disj_distrib or_eq_0_iff)
  then have "Channel_HandleEvent (conn_call sys junk cbs) (chp w) r w = TcpConnection_handleClose sys junk cbs w"
    using assms(1,3) by (auto simp: conn_ok_def Channel_HandleEvent_def conn_call_def)
  then show ?thesis using handleClose_no_callbacks [OF assms(1,4,5), of sys junk] by auto
qed

theorem RDHUP_discards_unread_input_witness:
  "\<exists>w'. Channel_HandleEvent (conn_call null_kernel 0 \<lparr>connectionCallback = None, messageCallback = None,
     closeCallback = None, layerCallback = (\<lambda>_ _. None)\<rparr>) 64 (EPOLLIN OR EPOLLRDHUP) (demo_conn [] [Inr [1, 2]]) = Some w' \<and>
     read_script w' = [Inr [1, 2]]"
proof -
  let ?cbs = "\<lparr>connectionCallback = None, messageCallback = None, closeCallback = None, layerCallback = (\<lambda>_ _. None)\<rparr> :: (unit, unit) conn_callbacks"
  have "(EPOLLIN OR EPOLLRDHUP) AND (EPOLLERR OR EPOLLHUP) = 0" "(EPOLLIN OR EPOLLRDHUP) AND EPOLLRDHUP \<noteq> 0"
    by (simp_all add: epoll_masks)
  from RDHUP_discards_unread_input [OF demo_conn_ok this, of ?cbs null_kernel 0 "[]" "[Inr [1, 2]]"]
  show ?thesis by (auto simp: demo_conn_def)
qed

text \<open>
  Closing runs the callbacks once: on an open connection the state becomes \<open>Disconnected\<close>, the
  channel loses its interest and its callbacks, and then the connection callback and the close
  callback are called, each once and in this order, each with a temporary owner; closing again does nothing.
\<close>

theorem close_calls_back_once:
  assumes "conn_ok w" and "connectionCallback cbs = Some f" and "closeCallback cbs = Some g"
  shows "(\<exists>k'. TcpConnection_handleClose sys junk cbs w =
      (let w2 = w\<lparr>cstate := Disconnected, chans := (chans w)(chp w \<mapsto> Channel_new (sockfd w)), kern := k',
             refs := refs w + 1\<rparr>
       in Option.bind (map_option release (f w2))
            (\<lambda>w3. if alive w3 then map_option release (g (w3\<lparr>refs := refs w3 + 1\<rparr>)) else None))) \<and>
    (cstate v = Disconnected \<longrightarrow> TcpConnection_handleClose sys junk cbs v = Some v)"
proof
  obtain k' where "TcpConnection_handleClose sys junk cbs w =
    (let w2 = w\<lparr>cstate := Disconnected, chans := (chans w)(chp w \<mapsto> Channel_new (sockfd w)), kern := k'\<rparr>
     in Option.bind (invoke (connectionCallback cbs) w2) (invoke (closeCallback cbs)))"
    using handleClose_steps [OF assms(1)] by blast
  then show "\<exists>k'. TcpConnection_handleClose sys junk cbs w =
      (let w2 = w\<lparr>cstate := Disconnected, chans := (chans w)(chp w \<mapsto> Channel_new (sockfd w)), kern := k',
             refs := refs w + 1\<rparr>
       in Option.bind (map_option release (f w2))
            (\<lambda>w3. if alive w3 then map_option release (g (w3\<lparr>refs := refs w3 + 1\<rparr>)) else None))"
    using assms(2,3) by (intro exI [of _ k']) (simp add: Let_def invoke_Some, simp add: alive_def)
qed (simp add: TcpConnection_handleClose_def)

theorem close_calls_back_once_witness:
  "\<exists>w'. TcpConnection_handleClose null_kernel 0 \<lparr>connectionCallback = Some (\<lambda>w. Some w), messageCallback = None,
     closeCallback = Some (\<lambda>w. Some w), layerCallback = (\<lambda>_ _. None)\<rparr> (demo_conn [] []) = Some w' \<and> cstate w' = Disconnected"
proof -
  let ?cbs = "\<lparr>connectionCallback = Some (\<lambda>w. Some w), messageCallback = None,
     closeCallback = Some (\<lambda>w. Some w), layerCallback = (\<lambda>_ _. None)\<rparr> :: (unit, unit) conn_callbacks"
  from close_calls_back_once [OF demo_conn_ok, of ?cbs "\<lambda>w. Some w" "\<lambda>w. Some w" null_kernel 0 "[]" "[]" "demo_conn [] []"]
  show ?thesis by (auto simp: Let_def release_def alive_def demo_conn_def)
qed

text \<open>
  C37. Closing from inside the read callback can free the connection under the dispatch: when the
  message callback closes the connection (as both receivers do on a corrupted frame), the close
  callback drops the last owner (as the server's map does) and the event also reports writability,
  \<open>HandleEvent\<close> goes on to test the write callback of the destroyed channel.
\<close>

theorem close_in_read_callback_frees_channel:
  assumes "conn_ok w" and "refs w = 1" and "read_script w = Inr (x # xs) # rs"
    and "connectionCallback cbs = None" and "closeCallback cbs = Some (\<lambda>w. Some (w\<lparr>refs := refs w - 1\<rparr>))"
    and "messageCallback cbs = Some (TcpConnection_close sys junk cbs (thread_id w))"
    and "r AND (EPOLLERR OR EPOLLHUP OR EPOLLRDHUP) = 0" and "r AND EPOLLIN \<noteq> 0" and "r AND EPOLLOUT \<noteq> 0"
  shows "Channel_HandleEvent (conn_call sys junk cbs) (chp w) r w = None"
proof -
  have flags: "r AND EPOLLERR = 0" "r AND EPOLLHUP = 0" "r AND EPOLLRDHUP = 0"
    using assms(7) by (simp_all add: bit.conj_disj_distrib or_eq_0_iff)
  obtain b where rd: "Buffer_ReadFd (Inr (x # xs)) (in_buf w) = (b, Inr (Suc (length xs)))"
    by (force simp: Buffer_ReadFd_def Let_def)
  let ?w1 = "w\<lparr>read_script := rs, in_buf := b, refs := 2\<rparr>"
  have inb: "wf_buffer (in_buf w)" using assms(1) by (simp add: conn_ok_def)
  have ok1: "conn_ok ?w1" using assms(1) wf_ReadFd [OF inb, of "Inr (x # xs)"] rd by (simp add: conn_ok_def)
  obtain k' where hc: "TcpConnection_handleClose sys junk cbs ?w1 =
    (let w2 = ?w1\<lparr>cstate := Disconnected, chans := (chans ?w1)(chp ?w1 \<mapsto> Channel_new (sockfd ?w1)), kern := k'\<rparr>
     in Option.bind (invoke (connectionCallback cbs) w2) (invoke (closeCallback cbs)))"
    using handleClose_steps [OF ok1] by blast
  then have hc': "TcpConnection_handleClose sys junk cbs ?w1 =
    Some (?w1\<lparr>cstate := Disconnected, chans := (chans w)(chp w \<mapsto> Channel_new (sockfd w)), kern := k', refs := 1\<rparr>)"
    using assms(4,5) by (simp add: Let_def invoke_def alive_def release_def)
  have al: "alive (w\<lparr>read_script := rs, in_buf := b\<rparr>)" using assms(1) by (auto simp: alive_def conn_ok_def)
  have "TcpConnection_handleRead sys junk cbs w =
    invoke (Some (TcpConnection_close sys junk cbs (thread_id w))) (w\<lparr>read_script := rs, in_buf := b\<rparr>)"
    using assms(1,3,6) rd by (simp add: TcpConnection_handleRead_def sys_read_def conn_ok_def Let_def)
  also have "\<dots> = map_option release (TcpConnection_handleClose sys junk cbs ?w1)"
    using al assms(2) by (simp add: invoke_def TcpConnection_close_def EventLoop_IsInLoopThread_def numeral_2_eq_2)
  finally have "\<exists>w'. TcpConnection_handleRead sys junk cbs w = Some w' \<and> chans w' (chp w) = None"
    unfolding hc' by (simp add: release_def TcpConnection_delete_def Channel_delete_def Let_def)
  then show ?thesis
    using assms(1,8,9) flags
    by (auto simp: conn_ok_def Channel_HandleEvent_def conn_call_def)
qed

theorem close_in_read_callback_frees_channel_witness:
  "\<exists>cbs. Channel_HandleEvent (conn_call null_kernel 0 cbs) 64 (EPOLLIN OR EPOLLOUT) (demo_conn [] [Inr [1]]) = None"
proof -
  let ?c = "\<lparr>connectionCallback = None, messageCallback = None,
     closeCallback = Some (\<lambda>w. Some (w\<lparr>refs := refs w - 1\<rparr>)), layerCallback = (\<lambda>_ _. None)\<rparr> :: (unit, unit) conn_callbacks"
  let ?cbs = "?c\<lparr>messageCallback := Some (TcpConnection_close null_kernel 0 ?c 0)\<rparr>"
  have "TcpConnection_close null_kernel 0 ?c 0 = TcpConnection_close null_kernel 0 ?cbs 0"
    by (intro ext) (simp add: TcpConnection_close_def TcpConnection_handleClose_def)
  then have "Channel_HandleEvent (conn_call null_kernel 0 ?cbs) (chp (demo_conn [] [Inr [1]])) (EPOLLIN OR EPOLLOUT)
      (demo_conn [] [Inr [1]]) = None"
    by (intro close_in_read_callback_frees_channel [OF demo_conn_ok, of _ _ 1 "[]" "[]"])
      (simp_all add: demo_conn_def epoll_masks)
  then show ?thesis by (intro exI [of _ ?cbs]) (simp add: demo_conn_def)
qed

end
