(* ===== verification/TcpClientModel.thy ===== *)
theory TcpClientModel
  imports TcpConnModel
begin

text \<open>
  \<open>code/network/tcp/tcp_client.h\<close>, \<open>tcp_client.cc\<close>: making, losing and closing the client's connection.

  The world is a connection's world extended with the fields of \<open>TcpClient\<close>; the connection in it is
  the one made last, and \<open>has_connection\<close> says whether \<open>connection_\<close> points to it (a second connection is made
  only after \<open>connection_\<close> was reset). \<open>own_closes\<close> records the descriptors passed to \<open>::close\<close> by the
  client itself, while \<open>fd_open\<close> turns false when \<open>~TcpConnection\<close> closes its own. The results of \<open>socket\<close> and
  \<open>connect\<close> are arguments, the answer of \<open>getsockopt(SO_ERROR)\<close> and the address of the next object
  are fields of the environment, with the user's callbacks. A lambda or bound member queued in the loop is
  \<open>CB_layer\<close> with what it captured.
\<close>

section \<open>State\<close>

record 'k tcp_client_world = "'k conn_world" +
  sock_fd :: int
  conn_chan :: "ptr option"
  has_connection :: bool
  connecting :: bool
  tc_stopped :: bool
  tc_connected :: bool
  own_closes :: "int list"

type_synonym ('k, 'z) tcw = "('k, 'z) tcp_client_world_scheme"

record ('k, 'z) tcp_client_env =
  t_sys :: "'k kernel"
  t_junk :: "64 word"
  t_self :: nat
  t_connectionCallback :: "(('k, 'z) tcw \<Rightarrow> ('k, 'z) tcw option) option"
  t_messageCallback :: "(('k, 'z) tcw \<Rightarrow> ('k, 'z) tcw option) option"
  t_errorCallback :: "(int \<Rightarrow> ('k, 'z) tcw \<Rightarrow> ('k, 'z) tcw option) option"
  t_layer :: "bytes \<Rightarrow> ('k, 'z) tcw \<Rightarrow> ('k, 'z) tcw option"
  t_alloc :: ptr
  t_so_error :: int
  t_ip :: string
  t_port :: "16 word"

definition EINPROGRESS :: int where "EINPROGRESS = 115"

text \<open>\<open>connect\<close>: 0, or -1 with \<open>errno\<close>.\<close>

datatype connect_result = Connect_done | Connect_failed int

text \<open>The lambdas and bound members that reach the loop.\<close>

definition established_tag :: "int \<Rightarrow> bytes" where "established_tag fd = 1 # store_u32 (word_of_int fd)"
definition watch_tag :: "int \<Rightarrow> bytes" where "watch_tag fd = 2 # store_u32 (word_of_int fd)"
definition HandleWrite_tag :: bytes where "HandleWrite_tag = [3]"
definition HandleError_tag :: bytes where "HandleError_tag = [4]"
definition StopInLoop_tag :: bytes where "StopInLoop_tag = [5]"
definition DisconnectInLoop_tag :: bytes where "DisconnectInLoop_tag = [6]"

section \<open>Operations\<close>

definition TcpClient_SetConnected :: "bool \<Rightarrow> ('k, 'z) tcw \<Rightarrow> ('k, 'z) tcw" where
  "TcpClient_SetConnected b w = w\<lparr>tc_connected := b\<rparr>"

definition TcpClient_IsConnected :: "('k, 'z) tcw \<Rightarrow> bool" where
  "TcpClient_IsConnected w = tc_connected w"

definition TcpClient_GetFd :: "('k, 'z) tcw \<Rightarrow> int" where
  "TcpClient_GetFd w = sock_fd w"

text \<open>The callbacks that the client installs on its connection.\<close>

definition TcpClient_conn_cbs :: "('k, 'z) tcp_client_env \<Rightarrow> ('k, 'z tcp_client_world_ext) conn_callbacks" where
  "TcpClient_conn_cbs env =
     \<lparr>connectionCallback = t_connectionCallback env, messageCallback = t_messageCallback env,
      closeCallback = Some (\<lambda>w. Some (TcpClient_SetConnected False w)), layerCallback = t_layer env\<rparr>"

definition call_error :: "('k, 'z) tcp_client_env \<Rightarrow> int \<Rightarrow> ('k, 'z) tcw \<Rightarrow> ('k, 'z) tcw option" where
  "call_error env err w = (case t_errorCallback env of None \<Rightarrow> Some w | Some f \<Rightarrow> f err w)"

definition call_connection :: "('k, 'z) tcp_client_env \<Rightarrow> ('k, 'z) tcw \<Rightarrow> ('k, 'z) tcw option" where
  "call_connection env w = (case t_connectionCallback env of None \<Rightarrow> Some w | Some f \<Rightarrow> f w)"

definition close_sock :: "('k, 'z) tcp_client_env \<Rightarrow> int \<Rightarrow> ('k, 'z) tcw \<Rightarrow> ('k, 'z) tcw" where
  "close_sock env fd w = w\<lparr>own_closes := own_closes w @ [fd], kern := sys_close (t_sys env) fd (kern w), sock_fd := -1\<rparr>"

text \<open>\<open>loop_->RunInLoop\<close> of a lambda: its body at once on the loop thread, otherwise the queue.\<close>

definition run_in_loop ::
  "('k, 'z) tcp_client_env \<Rightarrow> bytes \<Rightarrow> (('k, 'z) tcw \<Rightarrow> ('k, 'z) tcw option) \<Rightarrow> ('k, 'z) tcw \<Rightarrow> ('k, 'z) tcw option" where
  "run_in_loop env tag body w =
     (if EventLoop_IsInLoopThread (t_self env) w then body w
      else Some (EventLoop_QueueInLoop (Fn (CB_layer tag)) w))"

text \<open>The connection is made, by \<open>Connect\<close> at once or by \<open>HandleWrite\<close> later.\<close>

definition TcpClient_established :: "('k, 'z) tcp_client_env \<Rightarrow> int \<Rightarrow> ('k, 'z) tcw \<Rightarrow> ('k, 'z) tcw option" where
  "TcpClient_established env fd w =
     Option.bind (TcpConnection_new (t_sys env) (t_junk env) (t_alloc env) fd (t_ip env) (t_port env) w) (\<lambda>w1.
       let w2 = TcpClient_SetConnected True (w1\<lparr>has_connection := True\<rparr>)
       in call_connection env w2)"

text \<open>The channel that waits for a connection in progress.\<close>

definition connect_channel :: "int \<Rightarrow> conn_cb channel" where
  "connect_channel fd = Channel_SetErrorCallback (CB_layer HandleError_tag)
     (Channel_SetWriteCallback (CB_layer HandleWrite_tag) (Channel_new fd))"

definition TcpClient_watch :: "('k, 'z) tcp_client_env \<Rightarrow> int \<Rightarrow> ('k, 'z) tcw \<Rightarrow> ('k, 'z) tcw option" where
  "TcpClient_watch env fd w =
     (let p = t_alloc env
      in Channel_EnableWriting (t_sys env) (t_junk env) p
           (w\<lparr>conn_chan := Some p, chans := (chans w)(p \<mapsto> connect_channel fd)\<rparr>))"

definition TcpClient_Connect ::
  "('k, 'z) tcp_client_env \<Rightarrow> errno + int \<Rightarrow> connect_result \<Rightarrow> ('k, 'z) tcw \<Rightarrow> ('k, 'z) tcw option" where
  "TcpClient_Connect env sock conn w =
     (if sock_fd w \<noteq> -1 \<or> connecting w then Some w
      else
        let w1 = w\<lparr>connecting := True\<rparr>
        in (case sock of
              Inl err \<Rightarrow> call_error env err (w1\<lparr>connecting := False\<rparr>)
            | Inr fd \<Rightarrow>
                let w2 = w1\<lparr>sock_fd := fd\<rparr>
                in (case conn of
                      Connect_done \<Rightarrow>
                        run_in_loop env (established_tag fd) (TcpClient_established env fd) (w2\<lparr>connecting := False\<rparr>)
                    | Connect_failed err \<Rightarrow>
                        if err = EINPROGRESS then run_in_loop env (watch_tag fd) (TcpClient_watch env fd) w2
                        else call_error env err (close_sock env fd (w2\<lparr>connecting := False\<rparr>)))))"

text \<open>\<open>channel_.reset()\<close>\<close>

definition reset_channel :: "('k, 'z) tcw \<Rightarrow> ('k, 'z) tcw" where
  "reset_channel w =
     (case conn_chan w of None \<Rightarrow> w | Some p \<Rightarrow> (Channel_delete p w)\<lparr>conn_chan := None\<rparr>)"

definition TcpClient_HandleWrite :: "('k, 'z) tcp_client_env \<Rightarrow> ('k, 'z) tcw \<Rightarrow> ('k, 'z) tcw option" where
  "TcpClient_HandleWrite env w =
     (let w1 = w\<lparr>connecting := False\<rparr>
      in case conn_chan w1 of
           None \<Rightarrow> None
         | Some p \<Rightarrow>
             Option.bind (Channel_DisableWriting (t_sys env) (t_junk env) p w1) (\<lambda>w2.
             map_option reset_channel
               (if t_so_error env = 0 then TcpClient_established env (sock_fd w2) w2
                else call_error env (t_so_error env) (close_sock env (sock_fd w2) w2))))"

definition disable_channel :: "('k, 'z) tcp_client_env \<Rightarrow> ('k, 'z) tcw \<Rightarrow> ('k, 'z) tcw option" where
  "disable_channel env w =
     (case conn_chan w of None \<Rightarrow> Some w | Some p \<Rightarrow> Channel_DisableAll (t_sys env) (t_junk env) p w)"

definition TcpClient_HandleError :: "('k, 'z) tcp_client_env \<Rightarrow> ('k, 'z) tcw \<Rightarrow> ('k, 'z) tcw option" where
  "TcpClient_HandleError env w =
     Option.bind (disable_channel env (w\<lparr>connecting := False\<rparr>)) (\<lambda>w1.
     map_option reset_channel
       (if 0 \<le> sock_fd w1 then call_error env (t_so_error env) (close_sock env (sock_fd w1) w1) else Some w1))"

definition TcpClient_DisconnectInLoop :: "('k, 'z) tcp_client_env \<Rightarrow> ('k, 'z) tcw \<Rightarrow> ('k, 'z) tcw option" where
  "TcpClient_DisconnectInLoop env w =
     Option.bind (disable_channel env (TcpClient_SetConnected False w)) (\<lambda>w1.
     Option.bind
       (let w2 = reset_channel w1
        in if has_connection w2 then
             map_option (\<lambda>w3. release (w3\<lparr>has_connection := False\<rparr>))
               (TcpConnection_close (t_sys env) (t_junk env) (TcpClient_conn_cbs env) (t_self env) w2)
           else Some w2)
       (\<lambda>w3. let w4 = (if 0 \<le> sock_fd w3 then close_sock env (sock_fd w3) w3 else w3)
             in Some (w4\<lparr>connecting := False\<rparr>)))"

definition TcpClient_Disconnect :: "('k, 'z) tcp_client_env \<Rightarrow> ('k, 'z) tcw \<Rightarrow> ('k, 'z) tcw option" where
  "TcpClient_Disconnect env w = run_in_loop env DisconnectInLoop_tag (TcpClient_DisconnectInLoop env) w"

definition TcpClient_StopInLoop :: "('k, 'z) tcp_client_env \<Rightarrow> ('k, 'z) tcw \<Rightarrow> ('k, 'z) tcw option" where
  "TcpClient_StopInLoop env w = TcpClient_Disconnect env w"

definition TcpClient_Stop :: "('k, 'z) tcp_client_env \<Rightarrow> ('k, 'z) tcw \<Rightarrow> ('k, 'z) tcw option" where
  "TcpClient_Stop env w =
     (if \<not> tc_stopped w then run_in_loop env StopInLoop_tag (TcpClient_StopInLoop env) (w\<lparr>tc_stopped := True\<rparr>)
      else Some w)"

definition TcpClient_delete :: "('k, 'z) tcp_client_env \<Rightarrow> ('k, 'z) tcw \<Rightarrow> ('k, 'z) tcw option" where
  "TcpClient_delete env w = (if \<not> tc_stopped w then TcpClient_Stop env w else Some w)"

definition TcpClient_Send :: "'k kernel \<Rightarrow> 64 word \<Rightarrow> nat \<Rightarrow> bytes \<Rightarrow> ('k, 'z) tcw \<Rightarrow> ('k, 'z) tcw option" where
  "TcpClient_Send sys junk self data w =
     (if has_connection w then TcpConnection_send sys junk self data w else Some w)"

text \<open>What the loop runs for a lambda of this class; the rest belongs to the layer above.\<close>

definition TcpClient_layer :: "('k, 'z) tcp_client_env \<Rightarrow> bytes \<Rightarrow> ('k, 'z) tcw \<Rightarrow> ('k, 'z) tcw option" where
  "TcpClient_layer env tag w =
     (case tag of
        [] \<Rightarrow> t_layer env tag w
      | b # captured \<Rightarrow>
          if b = 1 then TcpClient_established env (sint (load_u32 captured)) w
          else if b = 2 then TcpClient_watch env (sint (load_u32 captured)) w
          else if b = 3 then TcpClient_HandleWrite env w
          else if b = 4 then TcpClient_HandleError env w
          else if b = 5 then TcpClient_StopInLoop env w
          else if b = 6 then TcpClient_DisconnectInLoop env w
          else t_layer env tag w)"

definition TcpClient_cbs :: "('k, 'z) tcp_client_env \<Rightarrow> ('k, 'z tcp_client_world_ext) conn_callbacks" where
  "TcpClient_cbs env = (TcpClient_conn_cbs env)\<lparr>layerCallback := TcpClient_layer env\<rparr>"

section \<open>Invariant\<close>

text \<open>
  \<open>connected_\<close> is right, a connection that \<open>connection_\<close> points to is there with the descriptor in \<open>sock_fd_\<close>,
  and a connect channel is there while a connection is being made.
\<close>

definition client_inv :: "('k, 'z) tcw \<Rightarrow> bool" where
  "client_inv w \<longleftrightarrow> tc_connected w = (has_connection w \<and> cstate w = Connected) \<and>
     (has_connection w \<longrightarrow> 0 < refs w \<and> chans w (chp w) \<noteq> None \<and> sock_fd w = sockfd w \<and> 0 \<le> sockfd w \<and>
        fd_open w \<and> \<not> connecting w \<and> conn_chan w = None) \<and>
     (\<forall>p. conn_chan w = Some p \<longrightarrow> chans w p \<noteq> None \<and> connecting w \<and> 0 \<le> sock_fd w \<and> \<not> has_connection w) \<and>
     (sock_fd w = -1 \<longrightarrow> conn_chan w = None)"

definition client_new :: "'k conn_world \<Rightarrow> 'k tcp_client_world" where
  "client_new c = conn_world.extend c (tcp_client_world.fields (-1) None False False False False [])"

text \<open>What the layer above must leave alone in a callback.\<close>

definition client_core where
  "client_core w = ((cstate w, refs w, chans w, chp w, sockfd w, fd_open w, thread_id w),
     (sock_fd w, conn_chan w, has_connection w, connecting w, tc_connected w, own_closes w))"

definition quiet_env :: "('k, 'z) tcp_client_env \<Rightarrow> bool" where
  "quiet_env env \<longleftrightarrow>
     (\<forall>f w. t_connectionCallback env = Some f \<longrightarrow> (\<exists>w'. f w = Some w' \<and> client_core w' = client_core w)) \<and>
     (\<forall>f e w. t_errorCallback env = Some f \<longrightarrow> (\<exists>w'. f e w = Some w' \<and> client_core w' = client_core w))"

lemma client_core_inv: "client_core w' = client_core w \<Longrightarrow> client_inv w' = client_inv w"
  by (simp add: client_core_def client_inv_def)

lemma call_error_quiet: "quiet_env env \<Longrightarrow> \<exists>w'. call_error env e w = Some w' \<and> client_core w' = client_core w"
  by (auto simp: call_error_def quiet_env_def split: option.split)

lemma call_connection_quiet: "quiet_env env \<Longrightarrow> \<exists>w'. call_connection env w = Some w' \<and> client_core w' = client_core w"
  by (auto simp: call_connection_def quiet_env_def split: option.split)

lemma established_ok:
  assumes "quiet_env env"
  shows "\<exists>w'. TcpClient_established env fd w = Some w' \<and>
    client_core w' = ((Connected, 1, (chans w)(t_alloc env \<mapsto> (conn_channel fd)\<lparr>ch_events := EPOLLIN\<rparr>),
      t_alloc env, fd, True, thread_id w), (sock_fd w, conn_chan w, True, connecting w, True, own_closes w))"
proof -
  let ?w0 = "w\<lparr>in_buf := Buffer_new Buffer_INITIAL_SIZE, out_buf := Buffer_new Buffer_INITIAL_SIZE,
          sockfd := fd, cstate := Connected, chp := t_alloc env, peer_ip := t_ip env, peer_port := t_port env,
          refs := 1, fd_open := True, chans := (chans w)(t_alloc env \<mapsto> conn_channel fd)\<rparr>"
  have c: "ch_events (conn_channel fd) OR EPOLLIN = EPOLLIN"
    by (simp add: conn_channel_def Channel_new_def Channel_SetReadCallback_def Channel_SetWriteCallback_def
        Channel_SetCloseCallback_def)
  obtain k' where "Channel_EnableReading (t_sys env) (t_junk env) (t_alloc env) ?w0 =
      Some (?w0\<lparr>chans := (chans w)(t_alloc env \<mapsto> (conn_channel fd)\<lparr>ch_events := EPOLLIN\<rparr>), kern := k'\<rparr>)"
    using set_events_alive [of ?w0 "t_alloc env" "conn_channel fd" "t_sys env" "t_junk env" "\<lambda>e. e OR EPOLLIN"] c
    by (auto simp: Channel_EnableReading_def)
  then have "TcpClient_established env fd w = call_connection env (TcpClient_SetConnected True
      (?w0\<lparr>chans := (chans w)(t_alloc env \<mapsto> (conn_channel fd)\<lparr>ch_events := EPOLLIN\<rparr>), kern := k', has_connection := True\<rparr>))"
    by (simp add: TcpClient_established_def TcpConnection_new_def)
  with call_connection_quiet [OF assms, of "TcpClient_SetConnected True
      (?w0\<lparr>chans := (chans w)(t_alloc env \<mapsto> (conn_channel fd)\<lparr>ch_events := EPOLLIN\<rparr>), kern := k', has_connection := True\<rparr>)"]
  show ?thesis by (auto simp: TcpClient_SetConnected_def client_core_def)
qed

definition dead_channel :: "int \<Rightarrow> conn_cb channel" where
  "dead_channel fd = \<lparr>ch_fd = fd, ch_events = 0, read_callback = None, write_callback = None,
     close_callback = None, error_callback = None\<rparr>"

lemma invoke_connection_quiet:
  assumes "quiet_env env" and "alive w" and "0 < refs w"
  shows "\<exists>w'. invoke (t_connectionCallback env) w = Some w' \<and> client_core w' = client_core w"
proof (cases "t_connectionCallback env")
  case (Some f)
  then obtain w' where "f (w\<lparr>refs := refs w + 1\<rparr>) = Some w'" "client_core w' = client_core (w\<lparr>refs := refs w + 1\<rparr>)"
    using assms(1) unfolding quiet_env_def by blast
  then show ?thesis using Some assms(2,3) by (auto simp: invoke_def release_def client_core_def Let_def)
qed (use assms(2) in \<open>simp add: invoke_def\<close>)

lemma handleClose_ok:
  assumes "quiet_env env" and "cstate w = Connected" and "chans w (chp w) = Some c" and "0 < refs w"
  shows "\<exists>w'. TcpConnection_handleClose (t_sys env) (t_junk env) (TcpClient_conn_cbs env) w = Some w' \<and>
    client_core w' = ((Disconnected, refs w, (chans w)(chp w \<mapsto> dead_channel (ch_fd c)), chp w, sockfd w, fd_open w,
      thread_id w), (sock_fd w, conn_chan w, has_connection w, connecting w, False, own_closes w))"
proof -
  let ?w0 = "w\<lparr>cstate := Disconnected\<rparr>"
  obtain k1 where 1: "Channel_DisableAll (t_sys env) (t_junk env) (chp w) ?w0 =
      Some (?w0\<lparr>chans := (chans w)(chp w \<mapsto> c\<lparr>ch_events := 0\<rparr>), kern := k1\<rparr>)"
    using set_events_alive [of ?w0 "chp w" c "t_sys env" "t_junk env" "\<lambda>_. 0"] assms(3) by (auto simp: Channel_DisableAll_def)
  let ?w1 = "?w0\<lparr>chans := (chans w)(chp w \<mapsto> c\<lparr>ch_events := 0\<rparr>), kern := k1\<rparr>"
  obtain k2 where 2: "Channel_Remove (t_sys env) (chp w) ?w1 =
      Some (?w1\<lparr>chans := (chans w)(chp w \<mapsto> dead_channel (ch_fd c)), kern := k2\<rparr>)"
    using Remove_alive [of ?w1 "chp w" "c\<lparr>ch_events := 0\<rparr>" "t_sys env"] by (cases c) (auto simp: dead_channel_def)
  let ?w2 = "?w1\<lparr>chans := (chans w)(chp w \<mapsto> dead_channel (ch_fd c)), kern := k2\<rparr>"
  have "alive ?w2" "0 < refs ?w2" using assms(4) by (simp_all add: alive_def)
  from invoke_connection_quiet [OF assms(1) this]
  obtain w3 where w3: "invoke (t_connectionCallback env) ?w2 = Some w3" "client_core w3 = client_core ?w2" by blast
  then have a: "alive w3" "refs w3 = refs w" using assms(4) by (simp_all add: alive_def client_core_def)
  then have "invoke (Some (\<lambda>w. Some (TcpClient_SetConnected False w))) w3 = Some (w3\<lparr>tc_connected := False\<rparr>)"
    using assms(4) by (simp add: invoke_def release_def TcpClient_SetConnected_def)
  with 1 2 w3 show ?thesis using assms(2)
    by (simp add: TcpConnection_handleClose_def TcpClient_conn_cbs_def client_core_def)
qed

text \<open>The events of the client on the loop thread.\<close>

datatype client_event = Ev_Connect "errno + int" connect_result | Ev_writable | Ev_error | Ev_peer_close | Ev_Disconnect

fun client_step :: "('k, 'z) tcp_client_env \<Rightarrow> client_event \<Rightarrow> ('k, 'z) tcw \<Rightarrow> ('k, 'z) tcw option" where
  "client_step env (Ev_Connect sock conn) w = TcpClient_Connect env sock conn w"
| "client_step env Ev_writable w = (if conn_chan w = None then Some w else TcpClient_HandleWrite env w)"
| "client_step env Ev_error w = (if conn_chan w = None then Some w else TcpClient_HandleError env w)"
| "client_step env Ev_peer_close w =
     (if has_connection w then TcpConnection_handleClose (t_sys env) (t_junk env) (TcpClient_conn_cbs env) w else Some w)"
| "client_step env Ev_Disconnect w = TcpClient_DisconnectInLoop env w"

lemma disable_channel_ok:
  assumes "\<forall>p. conn_chan w = Some p \<longrightarrow> chans w p \<noteq> None"
  shows "\<exists>w' C. disable_channel env w = Some w' \<and> dom C = dom (chans w) \<and>
    (\<forall>q. conn_chan w \<noteq> Some q \<longrightarrow> C q = chans w q) \<and>
    client_core w' = ((cstate w, refs w, C, chp w, sockfd w, fd_open w, thread_id w),
      (sock_fd w, conn_chan w, has_connection w, connecting w, tc_connected w, own_closes w))"
proof (cases "conn_chan w")
  case None
  then show ?thesis by (intro exI [of _ w] exI [of _ "chans w"]) (simp add: disable_channel_def client_core_def)
next
  case (Some p)
  then obtain c where c: "chans w p = Some c" using assms by blast
  obtain k' where "Channel_DisableAll (t_sys env) (t_junk env) p w =
      Some (w\<lparr>chans := (chans w)(p \<mapsto> c\<lparr>ch_events := 0\<rparr>), kern := k'\<rparr>)"
    using set_events_alive [OF c, of "t_sys env" "t_junk env" "\<lambda>_. 0"] by (auto simp: Channel_DisableAll_def)
  then show ?thesis using Some c
    by (intro exI [of _ "w\<lparr>chans := (chans w)(p \<mapsto> c\<lparr>ch_events := 0\<rparr>), kern := k'\<rparr>"]
        exI [of _ "(chans w)(p \<mapsto> c\<lparr>ch_events := 0\<rparr>)"])
      (auto simp: disable_channel_def client_core_def)
qed

lemma run_in_loop_here: "thread_id w = t_self env \<Longrightarrow> run_in_loop env tag body w = body w"
  by (simp add: run_in_loop_def EventLoop_IsInLoopThread_def)

lemma watch_ok:
  "\<exists>w'. TcpClient_watch env fd w = Some w' \<and>
    client_core w' = ((cstate w, refs w, (chans w)(t_alloc env \<mapsto> (connect_channel fd)\<lparr>ch_events := EPOLLOUT\<rparr>),
      chp w, sockfd w, fd_open w, thread_id w),
      (sock_fd w, Some (t_alloc env), has_connection w, connecting w, tc_connected w, own_closes w))"
proof -
  let ?p = "t_alloc env"
  let ?w0 = "w\<lparr>conn_chan := Some ?p, chans := (chans w)(?p \<mapsto> connect_channel fd)\<rparr>"
  have "ch_events (connect_channel fd) OR EPOLLOUT = EPOLLOUT"
    by (simp add: connect_channel_def Channel_SetErrorCallback_def Channel_SetWriteCallback_def Channel_new_def)
  then obtain k' where "Channel_EnableWriting (t_sys env) (t_junk env) ?p ?w0 =
      Some (?w0\<lparr>chans := (chans w)(?p \<mapsto> (connect_channel fd)\<lparr>ch_events := EPOLLOUT\<rparr>), kern := k'\<rparr>)"
    using set_events_alive [of ?w0 ?p "connect_channel fd" "t_sys env" "t_junk env" "\<lambda>e. e OR EPOLLOUT"]
    by (auto simp: Channel_EnableWriting_def)
  then show ?thesis by (auto simp: TcpClient_watch_def Let_def client_core_def)
qed

lemma Connect_step:
  assumes "quiet_env env" and "client_inv w" and "thread_id w = t_self env" and "\<forall>fd. sock = Inr fd \<longrightarrow> 0 \<le> fd"
  shows "\<exists>w'. TcpClient_Connect env sock conn w = Some w' \<and> client_inv w' \<and> thread_id w' = t_self env"
proof (cases "sock_fd w \<noteq> -1 \<or> connecting w")
  case True
  then show ?thesis using assms(2,3) by (simp add: TcpClient_Connect_def)
next
  case False
  then have idle: "\<not> has_connection w" "conn_chan w = None" "\<not> tc_connected w" "sock_fd w = -1"
    using assms(2) by (auto simp: client_inv_def)
  have err: "\<exists>w'. call_error env e v = Some w' \<and> client_inv w' \<and> thread_id w' = t_self env"
    if "client_inv v" "thread_id v = t_self env" for e v
  proof -
    obtain w' where w': "call_error env e v = Some w'" "client_core w' = client_core v"
      using call_error_quiet [OF assms(1)] by blast
    then have "thread_id w' = thread_id v" by (simp add: client_core_def)
    then show ?thesis using client_core_inv [OF w'(2)] w'(1) that by simp
  qed
  show ?thesis
  proof (cases sock)
    case (Inl e)
    show ?thesis using err [of "w\<lparr>connecting := False\<rparr>" e] False Inl idle assms(3)
      by (simp add: TcpClient_Connect_def client_inv_def)
  next
    case (Inr fd)
    note fd = assms(4) [rule_format, OF Inr]
    show ?thesis
    proof (cases conn)
      case Connect_done
      let ?v = "w\<lparr>sock_fd := fd, connecting := False\<rparr>"
      obtain w' where "TcpClient_established env fd ?v = Some w'"
        "client_core w' = ((Connected, 1, (chans w)(t_alloc env \<mapsto> (conn_channel fd)\<lparr>ch_events := EPOLLIN\<rparr>),
          t_alloc env, fd, True, thread_id w), (fd, None, True, False, True, own_closes w))"
        using established_ok [OF assms(1), of fd ?v] idle by auto
      then show ?thesis using False Inr Connect_done fd assms(3)
        by (auto simp: TcpClient_Connect_def run_in_loop_here client_core_def client_inv_def)
    next
      case (Connect_failed e)
      show ?thesis
      proof (cases "e = EINPROGRESS")
        case True
        let ?v = "w\<lparr>connecting := True, sock_fd := fd\<rparr>"
        obtain w' where "TcpClient_watch env fd ?v = Some w'"
          "client_core w' = ((cstate w, refs w, (chans w)(t_alloc env \<mapsto> (connect_channel fd)\<lparr>ch_events := EPOLLOUT\<rparr>),
            chp w, sockfd w, fd_open w, thread_id w), (fd, Some (t_alloc env), False, True, False, own_closes w))"
          using watch_ok [of env fd ?v] idle by auto
        then show ?thesis using False Inr Connect_failed True fd assms(3)
          by (auto simp: TcpClient_Connect_def run_in_loop_here client_core_def client_inv_def)
      next
        case no: False
        show ?thesis
          using err [of "close_sock env fd (w\<lparr>sock_fd := fd, connecting := False\<rparr>)" e] False Inr Connect_failed no idle assms(3)
          by (simp add: TcpClient_Connect_def client_inv_def close_sock_def)
      qed
    qed
  qed
qed

lemma reset_channel_core:
  "client_core (reset_channel w) = ((cstate w, refs w,
      (case conn_chan w of None \<Rightarrow> chans w | Some p \<Rightarrow> (chans w)(p := None)), chp w, sockfd w, fd_open w, thread_id w),
      (sock_fd w, None, has_connection w, connecting w, tc_connected w, own_closes w))"
  by (simp add: reset_channel_def client_core_def Channel_delete_def split: option.split)

lemma HandleWrite_step:
  assumes "quiet_env env" and "client_inv w" and "thread_id w = t_self env" and "conn_chan w = Some p"
    and "chans w (t_alloc env) = None"
  shows "\<exists>w'. TcpClient_HandleWrite env w = Some w' \<and> client_inv w' \<and> thread_id w' = t_self env"
proof -
  obtain c where c: "chans w p = Some c" and i: "0 \<le> sock_fd w" "\<not> has_connection w" "\<not> tc_connected w"
    using assms(2,4) by (auto simp: client_inv_def)
  have ne: "t_alloc env \<noteq> p" using c assms(5) by auto
  let ?w1 = "w\<lparr>connecting := False\<rparr>"
  obtain k' where dw: "Channel_DisableWriting (t_sys env) (t_junk env) p ?w1 =
      Some (?w1\<lparr>chans := (chans w)(p \<mapsto> c\<lparr>ch_events := ch_events c AND NOT EPOLLOUT\<rparr>), kern := k'\<rparr>)"
    using set_events_alive [of ?w1 p c "t_sys env" "t_junk env" "\<lambda>e. e AND NOT EPOLLOUT"] c
    by (auto simp: Channel_DisableWriting_def)
  let ?w2 = "?w1\<lparr>chans := (chans w)(p \<mapsto> c\<lparr>ch_events := ch_events c AND NOT EPOLLOUT\<rparr>), kern := k'\<rparr>"
  have r: "TcpClient_HandleWrite env w = map_option reset_channel
      (if t_so_error env = 0 then TcpClient_established env (sock_fd w) ?w2
       else call_error env (t_so_error env) (close_sock env (sock_fd w) ?w2))"
    using dw assms(4) by (simp add: TcpClient_HandleWrite_def)
  show ?thesis
  proof (cases "t_so_error env = 0")
    case True
    obtain w' where "TcpClient_established env (sock_fd w) ?w2 = Some w'"
      "client_core w' = ((Connected, 1, (chans ?w2)(t_alloc env \<mapsto> (conn_channel (sock_fd w))\<lparr>ch_events := EPOLLIN\<rparr>),
        t_alloc env, sock_fd w, True, thread_id w), (sock_fd w, Some p, True, False, True, own_closes w))"
      using established_ok [OF assms(1), of "sock_fd w" ?w2] assms(4) by auto
    then show ?thesis using r True i(1) ne assms(3) reset_channel_core [of w']
      by (auto simp: client_core_def client_inv_def)
  next
    case False
    obtain w' where "call_error env (t_so_error env) (close_sock env (sock_fd w) ?w2) = Some w'"
      "client_core w' = client_core (close_sock env (sock_fd w) ?w2)"
      using call_error_quiet [OF assms(1)] by blast
    then show ?thesis using r False i assms(3) reset_channel_core [of w']
      by (auto simp: client_core_def client_inv_def close_sock_def)
  qed
qed

lemma HandleError_step:
  assumes "quiet_env env" and "client_inv w" and "thread_id w = t_self env" and "conn_chan w = Some p"
  shows "\<exists>w'. TcpClient_HandleError env w = Some w' \<and> client_inv w' \<and> thread_id w' = t_self env"
proof -
  have i: "\<forall>q. conn_chan (w\<lparr>connecting := False\<rparr>) = Some q \<longrightarrow> chans (w\<lparr>connecting := False\<rparr>) q \<noteq> None" "0 \<le> sock_fd w"
    "\<not> has_connection w" "\<not> tc_connected w"
    using assms(2,4) by (auto simp: client_inv_def)
  obtain w1 C where w1: "disable_channel env (w\<lparr>connecting := False\<rparr>) = Some w1"
    "client_core w1 = ((cstate w, refs w, C, chp w, sockfd w, fd_open w, thread_id w),
      (sock_fd w, conn_chan w, has_connection w, False, tc_connected w, own_closes w))"
    using disable_channel_ok [OF i(1), of env] by auto
  then have "sock_fd w1 = sock_fd w" by (simp add: client_core_def)
  then have r: "TcpClient_HandleError env w =
      map_option reset_channel (call_error env (t_so_error env) (close_sock env (sock_fd w) w1))"
    using w1(1) i(2) by (simp add: TcpClient_HandleError_def)
  obtain w' where "call_error env (t_so_error env) (close_sock env (sock_fd w) w1) = Some w'"
    "client_core w' = client_core (close_sock env (sock_fd w) w1)"
    using call_error_quiet [OF assms(1)] by blast
  then show ?thesis using r w1(2) i(3,4) assms(3) reset_channel_core [of w']
    by (auto simp: client_core_def client_inv_def close_sock_def)
qed

lemma peer_close_step:
  assumes "quiet_env env" and "client_inv w" and "thread_id w = t_self env" and "has_connection w"
  shows "\<exists>w'. TcpConnection_handleClose (t_sys env) (t_junk env) (TcpClient_conn_cbs env) w = Some w' \<and>
    client_inv w' \<and> thread_id w' = t_self env \<and> cstate w' = Disconnected \<and> refs w' = refs w \<and> has_connection w' \<and>
    sock_fd w' = sock_fd w \<and> conn_chan w' = conn_chan w \<and> own_closes w' = own_closes w \<and> sockfd w' = sockfd w"
proof (cases "cstate w = Disconnected")
  case True
  then show ?thesis using assms(2-4) by (simp add: TcpConnection_handleClose_def)
next
  case False
  then have c: "cstate w = Connected" by (cases "cstate w") simp_all
  obtain ch where ch: "chans w (chp w) = Some ch" "0 < refs w" using assms(2,4) by (auto simp: client_inv_def)
  obtain w' where "TcpConnection_handleClose (t_sys env) (t_junk env) (TcpClient_conn_cbs env) w = Some w'"
    "client_core w' = ((Disconnected, refs w, (chans w)(chp w \<mapsto> dead_channel (ch_fd ch)), chp w, sockfd w, fd_open w,
      thread_id w), (sock_fd w, conn_chan w, has_connection w, connecting w, False, own_closes w))"
    using handleClose_ok [OF assms(1) c ch] by blast
  then show ?thesis using assms(2-4) by (auto simp: client_core_def client_inv_def)
qed

lemma close_core:
  assumes "quiet_env env" and "chans w (chp w) \<noteq> None" and "0 < refs w" and "\<not> tc_connected w"
  shows "\<exists>w' C. TcpConnection_handleClose (t_sys env) (t_junk env) (TcpClient_conn_cbs env) w = Some w' \<and>
    client_core w' = ((Disconnected, refs w, C, chp w, sockfd w, fd_open w, thread_id w),
      (sock_fd w, conn_chan w, has_connection w, connecting w, False, own_closes w))"
proof (cases "cstate w = Disconnected")
  case True
  then show ?thesis using assms(4)
    by (intro exI [of _ w] exI [of _ "chans w"]) (simp add: TcpConnection_handleClose_def client_core_def)
next
  case False
  then have c: "cstate w = Connected" by (cases "cstate w") simp_all
  obtain ch where ch: "chans w (chp w) = Some ch" using assms(2) by blast
  show ?thesis using handleClose_ok [OF assms(1) c ch assms(3)] by blast
qed

lemma DisconnectInLoop_step:
  assumes "quiet_env env" and "client_inv w" and "thread_id w = t_self env"
  shows "\<exists>w'. TcpClient_DisconnectInLoop env w = Some w' \<and> client_inv w' \<and> thread_id w' = t_self env \<and>
    \<not> has_connection w' \<and> \<not> connecting w' \<and> conn_chan w' = None \<and>
    sock_fd w' = (if 0 \<le> sock_fd w then -1 else sock_fd w) \<and>
    own_closes w' = own_closes w @ (if 0 \<le> sock_fd w then [sock_fd w] else []) \<and>
    (has_connection w \<and> refs w = 1 \<longrightarrow> \<not> fd_open w' \<and> sockfd w' = sockfd w)"
proof -
  let ?w0 = "TcpClient_SetConnected False w"
  have i: "\<forall>q. conn_chan ?w0 = Some q \<longrightarrow> chans ?w0 q \<noteq> None"
    using assms(2) by (auto simp: client_inv_def TcpClient_SetConnected_def)
  obtain w1 C where w1: "disable_channel env ?w0 = Some w1" "\<forall>q. conn_chan w \<noteq> Some q \<longrightarrow> C q = chans w q"
    "client_core w1 = ((cstate w, refs w, C, chp w, sockfd w, fd_open w, thread_id w),
      (sock_fd w, conn_chan w, has_connection w, connecting w, False, own_closes w))"
    using disable_channel_ok [OF i, of env] by (auto simp: TcpClient_SetConnected_def)
  have eq: "conn_chan w = None \<longrightarrow> C = chans w" using w1(2) by auto
  define w2 where "w2 = reset_channel w1"
  obtain D where D: "conn_chan w = None \<longrightarrow> D = chans w"
    "client_core w2 = ((cstate w, refs w, D, chp w, sockfd w, fd_open w, thread_id w),
      (sock_fd w, None, has_connection w, connecting w, False, own_closes w))"
    using eq w1(3) reset_channel_core [of w1] by (auto simp: client_core_def w2_def split: option.splits)
  define close_conn where "close_conn = (if has_connection w2 then
             map_option (\<lambda>w3. release (w3\<lparr>has_connection := False\<rparr>))
               (TcpConnection_close (t_sys env) (t_junk env) (TcpClient_conn_cbs env) (t_self env) w2)
           else Some w2)"
  have "\<exists>w3. close_conn = Some w3 \<and> thread_id w3 = thread_id w \<and> \<not> has_connection w3 \<and> conn_chan w3 = None \<and>
      \<not> tc_connected w3 \<and> sock_fd w3 = sock_fd w \<and> own_closes w3 = own_closes w \<and>
      (has_connection w \<and> refs w = 1 \<longrightarrow> \<not> fd_open w3 \<and> sockfd w3 = sockfd w)"
  proof (cases "has_connection w")
    case True
    then have h: "conn_chan w = None" "chans w (chp w) \<noteq> None" "0 < refs w" "0 \<le> sockfd w"
      using assms(2) by (auto simp: client_inv_def)
    have pre: "chans w2 (chp w2) \<noteq> None" "0 < refs w2" "\<not> tc_connected w2"
      using D h by (auto simp: client_core_def)
    obtain w3 E where w3: "TcpConnection_handleClose (t_sys env) (t_junk env) (TcpClient_conn_cbs env) w2 = Some w3"
      "client_core w3 = ((Disconnected, refs w2, E, chp w2, sockfd w2, fd_open w2, thread_id w2),
        (sock_fd w2, conn_chan w2, has_connection w2, connecting w2, False, own_closes w2))"
      using close_core [OF assms(1) pre] by blast
    have "close_conn = Some (release (w3\<lparr>has_connection := False\<rparr>))"
      using True D(2) w3(1) assms(3)
      by (simp add: close_conn_def TcpConnection_close_def EventLoop_IsInLoopThread_def client_core_def)
    then show ?thesis using w3(2) D(2) h(4)
      by (auto simp: client_core_def release_def TcpConnection_delete_def Channel_delete_def Let_def)
  next
    case False
    then show ?thesis using D(2) by (auto simp: close_conn_def client_core_def)
  qed
  then obtain w3 where w3: "close_conn = Some w3" "thread_id w3 = thread_id w" "\<not> has_connection w3" "conn_chan w3 = None"
    "\<not> tc_connected w3" "sock_fd w3 = sock_fd w" "own_closes w3 = own_closes w"
    "has_connection w \<and> refs w = 1 \<longrightarrow> \<not> fd_open w3 \<and> sockfd w3 = sockfd w" by blast
  have "TcpClient_DisconnectInLoop env w = Some ((if 0 \<le> sock_fd w3 then close_sock env (sock_fd w3) w3 else w3)\<lparr>connecting := False\<rparr>)"
    by (simp only: TcpClient_DisconnectInLoop_def w1(1) bind.simps Let_def w2_def [symmetric]
        close_conn_def [symmetric] w3(1))
  then show ?thesis using w3(2-8) assms(3)
    by (auto simp: client_inv_def close_sock_def)
qed

section \<open>Properties\<close>

definition demo_tenv :: "int \<Rightarrow> (unit, unit) tcp_client_env" where
  "demo_tenv err = \<lparr>t_sys = null_kernel, t_junk = 0, t_self = 0, t_connectionCallback = None, t_messageCallback = None,
     t_errorCallback = None, t_layer = (\<lambda>_ _. None), t_alloc = 64, t_so_error = err, t_ip = ''h'', t_port = 80\<rparr>"

definition demo_tclient :: "unit tcp_client_world" where
  "demo_tclient = client_new ((demo_conn [] [])\<lparr>chans := Map.empty\<rparr>)"

lemma demo_tclient_ok [simp]: "quiet_env (demo_tenv e)" "client_inv demo_tclient" "thread_id demo_tclient = 0"
  "t_self (demo_tenv e) = 0" "t_alloc (demo_tenv e) = 64" "sock_fd demo_tclient = -1" "\<not> connecting demo_tclient"
  "chans demo_tclient = Map.empty" "own_closes demo_tclient = []"
  by (simp_all add: demo_tenv_def quiet_env_def demo_tclient_def client_new_def client_inv_def demo_conn_def
      conn_world.defs tcp_client_world.defs)

text \<open>
  C25. The client's state stays consistent: a \<open>Connect\<close> with any outcome, writability or an error on the
  connecting socket, a closing peer and \<open>Disconnect\<close>, handled on the loop thread, all return and keep
  the invariant, so that \<open>IsConnected()\<close> is true exactly while there is an open connection, and the connect
  channel exists exactly as long as its pointer is kept.
\<close>

theorem client_inv_step:
  assumes "quiet_env env" and "client_inv w" and "thread_id w = t_self env" and "chans w (t_alloc env) = None"
    and "\<forall>fd conn. ev = Ev_Connect (Inr fd) conn \<longrightarrow> 0 \<le> fd"
  shows "\<exists>w'. client_step env ev w = Some w' \<and> client_inv w' \<and> thread_id w' = t_self env \<and>
    TcpClient_IsConnected w' = (has_connection w' \<and> cstate w' = Connected)"
proof -
  have "\<exists>w'. client_step env ev w = Some w' \<and> client_inv w' \<and> thread_id w' = t_self env"
  proof (cases ev)
    case (Ev_Connect sock conn)
    then show ?thesis using Connect_step [OF assms(1-3), of sock conn] assms(5) by simp
  next
    case Ev_writable
    then show ?thesis using HandleWrite_step [OF assms(1-3) _ assms(4)] assms(2,3) by (cases "conn_chan w") auto
  next
    case Ev_error
    then show ?thesis using HandleError_step [OF assms(1-3)] assms(2,3) by (cases "conn_chan w") auto
  next
    case Ev_peer_close
    then show ?thesis using peer_close_step [OF assms(1-3)] assms(2,3) by (cases "has_connection w") auto
  next
    case Ev_Disconnect
    then show ?thesis using DisconnectInLoop_step [OF assms(1-3)] by auto
  qed
  then show ?thesis by (auto simp: TcpClient_IsConnected_def client_inv_def)
qed

theorem client_inv_step_witness:
  "\<exists>w'. client_step (demo_tenv 0) (Ev_Connect (Inr 5) (Connect_failed EINPROGRESS)) demo_tclient = Some w' \<and>
     client_inv w' \<and> \<not> TcpClient_IsConnected w'"
proof -
  obtain w' where w': "TcpClient_watch (demo_tenv 0) 5 (demo_tclient\<lparr>connecting := True, sock_fd := 5\<rparr>) = Some w'"
    "has_connection w' = has_connection demo_tclient"
    using watch_ok [of "demo_tenv 0" 5 "demo_tclient\<lparr>connecting := True, sock_fd := 5\<rparr>"] by (auto simp: client_core_def)
  have "\<not> has_connection demo_tclient"
    by (simp add: demo_tclient_def client_new_def conn_world.defs tcp_client_world.defs demo_conn_def)
  moreover have "client_step (demo_tenv 0) (Ev_Connect (Inr 5) (Connect_failed EINPROGRESS)) demo_tclient = Some w'"
    using w'(1) by (simp add: TcpClient_Connect_def run_in_loop_here)
  ultimately show ?thesis
    using client_inv_step [of "demo_tenv 0" demo_tclient "Ev_Connect (Inr 5) (Connect_failed EINPROGRESS)"] w'(2) by auto
qed

text \<open>
  The descriptor is closed twice: \<open>DisconnectInLoop\<close> closes and drops the connection, whose destructor
  closes the socket, and then calls \<open>::close\<close> on the same number, which another thread may have been
  given in between.
\<close>

theorem descriptor_closed_twice:
  assumes "quiet_env env" and "client_inv w" and "thread_id w = t_self env" and "has_connection w" and "refs w = 1"
  shows "\<exists>w'. TcpClient_DisconnectInLoop env w = Some w' \<and> \<not> fd_open w' \<and> sockfd w' = sockfd w \<and>
    own_closes w' = own_closes w @ [sockfd w]"
proof -
  have "sock_fd w = sockfd w" "0 \<le> sock_fd w" using assms(2,4) by (auto simp: client_inv_def)
  then show ?thesis using DisconnectInLoop_step [OF assms(1-3)] assms(4,5) by auto
qed

theorem descriptor_closed_twice_witness:
  "\<exists>w w'. TcpClient_Connect (demo_tenv 0) (Inr 5) Connect_done demo_tclient = Some w \<and>
     TcpClient_DisconnectInLoop (demo_tenv 0) w = Some w' \<and> \<not> fd_open w' \<and> sockfd w' = 5 \<and> own_closes w' = [5]"
proof -
  obtain w where w: "TcpClient_established (demo_tenv 0) 5 (demo_tclient\<lparr>sock_fd := 5, connecting := False\<rparr>) = Some w"
    "has_connection w" "refs w = 1" "sockfd w = 5" "own_closes w = []"
    using established_ok [of "demo_tenv 0" 5 "demo_tclient\<lparr>sock_fd := 5, connecting := False\<rparr>"] by (auto simp: client_core_def)
  have c: "TcpClient_Connect (demo_tenv 0) (Inr 5) Connect_done demo_tclient = Some w"
    using w(1) by (simp add: TcpClient_Connect_def run_in_loop_here)
  then have "client_inv w" "thread_id w = t_self (demo_tenv 0)"
    using Connect_step [of "demo_tenv 0" demo_tclient "Inr 5" Connect_done] by simp_all
  from descriptor_closed_twice [OF _ this w(2,3)] c w(4,5) show ?thesis by auto
qed

text \<open>
  A client whose connection was closed by the peer does not connect again: \<open>sock_fd_\<close> still holds the old
  number, so \<open>Connect\<close> returns at once until somebody calls \<open>Disconnect\<close>.
\<close>

lemma no_reconnect_after_peer_close:
  assumes "quiet_env env" and "client_inv w" and "thread_id w = t_self env" and "has_connection w"
  shows "\<exists>w'. client_step env Ev_peer_close w = Some w' \<and> \<not> TcpClient_IsConnected w' \<and>
    TcpClient_Connect env sock conn w' = Some w'"
proof -
  obtain w' where "TcpConnection_handleClose (t_sys env) (t_junk env) (TcpClient_conn_cbs env) w = Some w'"
    "client_inv w'" "cstate w' = Disconnected" "has_connection w'"
    using peer_close_step [OF assms] by blast
  then show ?thesis using assms(4) by (auto simp: client_inv_def TcpClient_IsConnected_def TcpClient_Connect_def)
qed

text \<open>A second \<open>Connect\<close> while one is under way or after it has succeeded is ignored; so is a \<open>Send\<close> without a connection.\<close>

lemma Connect_busy: "sock_fd w \<noteq> -1 \<or> connecting w \<Longrightarrow> TcpClient_Connect env sock conn w = Some w"
  by (simp add: TcpClient_Connect_def)

end
