(* ===== verification/TcpServerModel.thy ===== *)
theory TcpServerModel
  imports TcpConnModel
begin

text \<open>
  \<open>code/network/tcp/tcp_server.h\<close>, \<open>tcp_server.cc\<close>: the listening socket and the table of connections.

  The world is the event loop's record extended with the fields of \<open>TcpServer\<close> and a heap of connection
  objects. Of a connection this layer sees its descriptor, its state, its channel and the number of its
  owners; reading, writing and buffering are in \<open>TcpConnModel\<close>, and \<open>sconn_close\<close> is its \<open>handleClose\<close> with the
  close callback that the server installs. \<open>connections_\<close> is an association list, whose order stands for
  the iteration order of the hash map. The results of \<open>socket\<close> and \<open>accept4\<close> and the addresses of new
  objects are arguments; \<open>s_user\<close> is the user's connection callback on a connection.
\<close>

section \<open>State\<close>

record srv_conn =
  so_fd :: int
  so_state :: conn_state
  so_chan :: ptr
  so_refs :: nat

datatype server_cb =
    SC_HandleAccept
  | SC_conn nat conn_cb
  | SC_start                  \<comment> \<open>the lambda queued by \<open>Start\<close>\<close>
  | SC_StopAcceptingInLoop
  | SC_StopInLoop
  | SC_remove nat             \<comment> \<open>the lambda queued by \<open>RemoveConnection\<close>\<close>
  | SC_user bytes             \<comment> \<open>a lambda of the layer above\<close>

record 'k tcp_server_world = "(server_cb, 'k) event_loop" +
  listen_fd :: int
  listening :: bool
  shut :: bool
  accept_chan :: "ptr option"
  connections :: "(int \<times> nat) list"
  objs :: "nat \<rightharpoonup> srv_conn"
  ts_stopped :: bool

type_synonym ('k, 'z) tsw = "('k, 'z) tcp_server_world_scheme"

record ('k, 'z) tcp_server_env =
  s_sys :: "'k kernel"
  s_junk :: "64 word"
  s_self :: nat
  s_user :: "(nat \<Rightarrow> ('k, 'z) tsw \<Rightarrow> ('k, 'z) tsw option) option"

text \<open>The constructor's socket; the results of \<open>setsockopt\<close> and \<open>bind\<close> are not looked at.\<close>

definition TcpServer_new :: "int \<Rightarrow> (server_cb, 'k) event_loop \<Rightarrow> 'k tcp_server_world" where
  "TcpServer_new fd L = event_loop.extend L (tcp_server_world.fields fd False False None [] Map.empty False)"

section \<open>Connections as the server sees them\<close>

definition own :: "nat \<Rightarrow> ('k, 'z) tsw \<Rightarrow> ('k, 'z) tsw option" where
  "own i w = (case objs w i of None \<Rightarrow> None | Some c \<Rightarrow> Some (w\<lparr>objs := (objs w)(i \<mapsto> c\<lparr>so_refs := so_refs c + 1\<rparr>)\<rparr>))"

text \<open>Dropping an owner: the last one destroys the connection, which closes its socket, and with it its channel.\<close>

definition disown :: "('k, 'z) tcp_server_env \<Rightarrow> nat \<Rightarrow> ('k, 'z) tsw \<Rightarrow> ('k, 'z) tsw option" where
  "disown env i w =
     (case objs w i of
        None \<Rightarrow> None
      | Some c \<Rightarrow>
          if so_refs c \<le> 1
          then Some (Channel_delete (so_chan c)
            (w\<lparr>objs := (objs w)(i := None), kern := sys_close (s_sys env) (so_fd c) (kern w)\<rparr>))
          else Some (w\<lparr>objs := (objs w)(i \<mapsto> c\<lparr>so_refs := so_refs c - 1\<rparr>)\<rparr>))"

definition server_channel :: "nat \<Rightarrow> int \<Rightarrow> server_cb channel" where
  "server_channel i fd =
     Channel_SetCloseCallback (SC_conn i CB_handleClose)
       (Channel_SetWriteCallback (SC_conn i CB_handleWrite)
         (Channel_SetReadCallback (SC_conn i CB_handleRead) (Channel_new fd)))"

definition sconn_new :: "('k, 'z) tcp_server_env \<Rightarrow> nat \<Rightarrow> ptr \<Rightarrow> int \<Rightarrow> ('k, 'z) tsw \<Rightarrow> ('k, 'z) tsw option" where
  "sconn_new env i p fd w =
     Channel_EnableReading (s_sys env) (s_junk env) p
       (w\<lparr>objs := (objs w)(i \<mapsto> \<lparr>so_fd = fd, so_state = Connected, so_chan = p, so_refs = 1\<rparr>),
          chans := (chans w)(p \<mapsto> server_channel i fd)\<rparr>)"

definition user_callback :: "('k, 'z) tcp_server_env \<Rightarrow> nat \<Rightarrow> ('k, 'z) tsw \<Rightarrow> ('k, 'z) tsw option" where
  "user_callback env i w = (case s_user env of None \<Rightarrow> Some w | Some f \<Rightarrow> f i w)"

section \<open>Operations\<close>

definition TcpServer_Start_lambda :: "('k, 'z) tcp_server_env \<Rightarrow> ptr \<Rightarrow> ('k, 'z) tsw \<Rightarrow> ('k, 'z) tsw option" where
  "TcpServer_Start_lambda env p w =
     Channel_EnableReading (s_sys env) (s_junk env) p
       (w\<lparr>listening := True, accept_chan := Some p,
          chans := (chans w)(p \<mapsto> Channel_SetReadCallback SC_HandleAccept (Channel_new (listen_fd w)))\<rparr>)"

definition TcpServer_Start :: "('k, 'z) tcp_server_env \<Rightarrow> ptr \<Rightarrow> ('k, 'z) tsw \<Rightarrow> ('k, 'z) tsw option" where
  "TcpServer_Start env p w =
     (if EventLoop_IsInLoopThread (s_self env) w then TcpServer_Start_lambda env p w
      else Some (EventLoop_QueueInLoop (Fn SC_start) w))"

definition TcpServer_StopAcceptingInLoop :: "('k, 'z) tcp_server_env \<Rightarrow> ('k, 'z) tsw \<Rightarrow> ('k, 'z) tsw option" where
  "TcpServer_StopAcceptingInLoop env w =
     (case accept_chan w of
        None \<Rightarrow> Some w
      | Some p \<Rightarrow>
          map_option (\<lambda>w1. (Channel_delete p w1)\<lparr>accept_chan := None\<rparr>)
            (Channel_DisableAll (s_sys env) (s_junk env) p w))"

definition shutdown_listener :: "('k, 'z) tsw \<Rightarrow> ('k, 'z) tsw" where
  "shutdown_listener w = (if 0 \<le> listen_fd w then w\<lparr>shut := True\<rparr> else w)"

definition TcpServer_StopAccepting :: "('k, 'z) tcp_server_env \<Rightarrow> ('k, 'z) tsw \<Rightarrow> ('k, 'z) tsw option" where
  "TcpServer_StopAccepting env w =
     (let w1 = shutdown_listener w
      in if EventLoop_IsInLoopThread (s_self env) w1 then TcpServer_StopAcceptingInLoop env w1
         else Some (EventLoop_QueueInLoop (Fn SC_StopAcceptingInLoop) w1))"

text \<open>\<open>RemoveConnection\<close>; the queued lambda owns the connection.\<close>

definition erase_connection :: "('k, 'z) tcp_server_env \<Rightarrow> int \<Rightarrow> ('k, 'z) tsw \<Rightarrow> ('k, 'z) tsw option" where
  "erase_connection env fd w =
     (case map_of (connections w) fd of
        None \<Rightarrow> Some w
      | Some j \<Rightarrow> disown env j (w\<lparr>connections := AList.delete fd (connections w)\<rparr>))"

definition TcpServer_RemoveConnection :: "('k, 'z) tcp_server_env \<Rightarrow> nat \<Rightarrow> ('k, 'z) tsw \<Rightarrow> ('k, 'z) tsw option" where
  "TcpServer_RemoveConnection env i w =
     (if ts_stopped w then Some w
      else case objs w i of
          None \<Rightarrow> None
        | Some c \<Rightarrow>
            if EventLoop_IsInLoopThread (s_self env) w then erase_connection env (so_fd c) w
            else map_option (EventLoop_QueueInLoop (Fn (SC_remove i))) (own i w))"

text \<open>\<open>handleClose\<close> of a connection of this server: both callbacks get a temporary owner.\<close>

definition sconn_close :: "('k, 'z) tcp_server_env \<Rightarrow> nat \<Rightarrow> ('k, 'z) tsw \<Rightarrow> ('k, 'z) tsw option" where
  "sconn_close env i w =
     (case objs w i of
        None \<Rightarrow> None
      | Some c \<Rightarrow>
          if so_state c = Disconnected then Some w
          else
            Option.bind (Channel_DisableAll (s_sys env) (s_junk env) (so_chan c)
              (w\<lparr>objs := (objs w)(i \<mapsto> c\<lparr>so_state := Disconnected\<rparr>)\<rparr>)) (\<lambda>w1.
            Option.bind (Channel_Remove (s_sys env) (so_chan c) w1) (\<lambda>w2.
            Option.bind (Option.bind (own i w2) (\<lambda>v. Option.bind (user_callback env i v) (disown env i))) (\<lambda>w3.
            Option.bind (own i w3) (\<lambda>v. Option.bind (TcpServer_RemoveConnection env i v) (disown env i))))))"

definition TcpServer_HandleAccept ::
  "('k, 'z) tcp_server_env \<Rightarrow> int \<Rightarrow> nat \<Rightarrow> ptr \<Rightarrow> ('k, 'z) tsw \<Rightarrow> ('k, 'z) tsw option" where
  "TcpServer_HandleAccept env conn_fd i p w =
     (if ts_stopped w then Some w
      else if conn_fd < 0 then Some w
      else
        Option.bind (sconn_new env i p conn_fd w) (\<lambda>w1.
        Option.bind (case map_of (connections w1) conn_fd of None \<Rightarrow> Some w1 | Some j \<Rightarrow> disown env j w1) (\<lambda>w2.
        Option.bind (own i (w2\<lparr>connections := AList.update conn_fd i (connections w2)\<rparr>)) (\<lambda>w3.
        Option.bind (user_callback env i w3) (disown env i)))))"

text \<open>\<open>f\<close> on every connection, in the order of the table.\<close>

fun for_each :: "(nat \<Rightarrow> ('k, 'z) tsw \<Rightarrow> ('k, 'z) tsw option) \<Rightarrow> nat list \<Rightarrow> ('k, 'z) tsw \<Rightarrow> ('k, 'z) tsw option" where
  "for_each f [] w = Some w"
| "for_each f (i # is) w = Option.bind (f i w) (for_each f is)"

definition TcpServer_ForEachConnectionInLoop ::
  "(nat \<Rightarrow> ('k, 'z) tsw \<Rightarrow> ('k, 'z) tsw option) \<Rightarrow> ('k, 'z) tsw \<Rightarrow> ('k, 'z) tsw option" where
  "TcpServer_ForEachConnectionInLoop f w = for_each f (map snd (connections w)) w"

text \<open>
  \<open>StopInLoop\<close>: the table is copied to a vector of owners, every connection is closed, the table is
  cleared, and the vector is destroyed.
\<close>

definition TcpServer_StopInLoop :: "('k, 'z) tcp_server_env \<Rightarrow> ('k, 'z) tsw \<Rightarrow> ('k, 'z) tsw option" where
  "TcpServer_StopInLoop env w =
     Option.bind (TcpServer_StopAcceptingInLoop env w) (\<lambda>w1.
       let w2 = shutdown_listener w1; conns = map snd (connections w2)
       in Option.bind (for_each own conns w2) (\<lambda>w3.
          Option.bind (for_each (sconn_close env) conns w3) (\<lambda>w4.
          Option.bind (for_each (disown env) (map snd (connections w4)) (w4\<lparr>connections := []\<rparr>))
            (for_each (disown env) conns))))"

definition TcpServer_Stop :: "('k, 'z) tcp_server_env \<Rightarrow> ('k, 'z) tsw \<Rightarrow> ('k, 'z) tsw option" where
  "TcpServer_Stop env w =
     (if \<not> ts_stopped w then
        let w1 = w\<lparr>ts_stopped := True\<rparr>
        in if EventLoop_IsInLoopThread (s_self env) w1 then TcpServer_StopInLoop env w1
           else Some (EventLoop_QueueInLoop (Fn SC_StopInLoop) w1)
      else Some w)"

definition TcpServer_delete :: "('k, 'z) tcp_server_env \<Rightarrow> ('k, 'z) tsw \<Rightarrow> ('k, 'z) tsw option" where
  "TcpServer_delete env w =
     map_option (\<lambda>w1. if 0 \<le> listen_fd w1 then w1\<lparr>kern := sys_close (s_sys env) (listen_fd w1) (kern w1)\<rparr> else w1)
       (if \<not> ts_stopped w then TcpServer_Stop env w else Some w)"

text \<open>What the loop runs for each callback; \<open>accepted\<close> is the result of \<open>accept4\<close> with the new object's names.\<close>

definition server_call ::
  "('k, 'z) tcp_server_env \<Rightarrow> (nat \<Rightarrow> conn_cb \<Rightarrow> ('k, 'z) tsw \<Rightarrow> ('k, 'z) tsw option) \<Rightarrow>
     (bytes \<Rightarrow> ('k, 'z) tsw \<Rightarrow> ('k, 'z) tsw option) \<Rightarrow> int \<times> nat \<times> ptr \<Rightarrow> server_cb \<Rightarrow> ('k, 'z) tsw \<Rightarrow> ('k, 'z) tsw option" where
  "server_call env conn_io layer accepted cb w =
     (case accepted of (fd, i, p) \<Rightarrow>
       (case cb of
          SC_HandleAccept \<Rightarrow> TcpServer_HandleAccept env fd i p w
        | SC_conn j ccb \<Rightarrow> if ccb = CB_handleClose then sconn_close env j w else conn_io j ccb w
        | SC_start \<Rightarrow> TcpServer_Start_lambda env p w
        | SC_StopAcceptingInLoop \<Rightarrow> TcpServer_StopAcceptingInLoop env w
        | SC_StopInLoop \<Rightarrow> TcpServer_StopInLoop env w
        | SC_remove j \<Rightarrow>
            Option.bind (if ts_stopped w then Some w
                         else case objs w j of None \<Rightarrow> None | Some c \<Rightarrow> erase_connection env (so_fd c) w) (disown env j)
        | SC_user tag \<Rightarrow> layer tag w))"

section \<open>Invariant\<close>

text \<open>
  The table is exactly the open connections under their descriptors; every object has an owner and its own
  channel, and none of them is the accept channel.
\<close>

definition server_inv :: "('k, 'z) tsw \<Rightarrow> bool" where
  "server_inv w \<longleftrightarrow> distinct (map fst (connections w)) \<and>
     (\<forall>fd i. (fd, i) \<in> set (connections w) \<longleftrightarrow> (\<exists>c. objs w i = Some c \<and> so_fd c = fd \<and> so_state c = Connected)) \<and>
     (\<forall>i c. objs w i = Some c \<longrightarrow> 0 < so_refs c \<and> chans w (so_chan c) \<noteq> None \<and> accept_chan w \<noteq> Some (so_chan c)) \<and>
     (\<forall>i j c d. objs w i = Some c \<longrightarrow> objs w j = Some d \<longrightarrow> so_chan c = so_chan d \<longrightarrow> i = j) \<and>
     (\<forall>p. accept_chan w = Some p \<longrightarrow> chans w p \<noteq> None)"

definition server_core where
  "server_core w = ((objs w, connections w, ts_stopped w, accept_chan w), (thread_id w, chans w, listen_fd w))"

definition quiet_user :: "('k, 'z) tcp_server_env \<Rightarrow> bool" where
  "quiet_user env \<longleftrightarrow> (\<forall>f i w. s_user env = Some f \<longrightarrow> (\<exists>w'. f i w = Some w' \<and> server_core w' = server_core w))"

lemma user_callback_quiet: "quiet_user env \<Longrightarrow> \<exists>w'. user_callback env i w = Some w' \<and> server_core w' = server_core w"
  by (auto simp: user_callback_def quiet_user_def split: option.split)

lemma own_core:
  assumes "objs w i = Some c"
  shows "\<exists>w'. own i w = Some w' \<and> server_core w' = (((objs w)(i \<mapsto> c\<lparr>so_refs := so_refs c + 1\<rparr>), connections w,
    ts_stopped w, accept_chan w), (thread_id w, chans w, listen_fd w))"
  using assms by (simp add: own_def server_core_def)

lemma disown_core:
  assumes "objs w i = Some c"
  shows "\<exists>w'. disown env i w = Some w' \<and> server_core w' =
    (if so_refs c \<le> 1
     then (((objs w)(i := None), connections w, ts_stopped w, accept_chan w), (thread_id w, (chans w)(so_chan c := None), listen_fd w))
     else (((objs w)(i \<mapsto> c\<lparr>so_refs := so_refs c - 1\<rparr>), connections w, ts_stopped w, accept_chan w), (thread_id w, chans w, listen_fd w)))"
  using assms by (simp add: disown_def server_core_def Channel_delete_def)

definition dead_server_channel :: "int \<Rightarrow> server_cb channel" where
  "dead_server_channel fd = \<lparr>ch_fd = fd, ch_events = 0, read_callback = None, write_callback = None,
     close_callback = None, error_callback = None\<rparr>"

text \<open>The first half of \<open>handleClose\<close>: the state and the channel, then the user's callback.\<close>

definition sconn_shut :: "('k, 'z) tcp_server_env \<Rightarrow> nat \<Rightarrow> srv_conn \<Rightarrow> ('k, 'z) tsw \<Rightarrow> ('k, 'z) tsw option" where
  "sconn_shut env i c w =
     Option.bind (Channel_DisableAll (s_sys env) (s_junk env) (so_chan c)
       (w\<lparr>objs := (objs w)(i \<mapsto> c\<lparr>so_state := Disconnected\<rparr>)\<rparr>)) (\<lambda>w1.
     Option.bind (Channel_Remove (s_sys env) (so_chan c) w1) (\<lambda>w2.
     Option.bind (own i w2) (\<lambda>v. Option.bind (user_callback env i v) (disown env i))))"

lemma sconn_shut_core:
  assumes "quiet_user env" and "chans w (so_chan c) = Some ch" and "0 < so_refs c"
  shows "\<exists>w'. sconn_shut env i c w = Some w' \<and> server_core w' =
    (((objs w)(i \<mapsto> c\<lparr>so_state := Disconnected\<rparr>), connections w, ts_stopped w, accept_chan w),
     (thread_id w, (chans w)(so_chan c \<mapsto> dead_server_channel (ch_fd ch)), listen_fd w))"
proof -
  let ?c = "c\<lparr>so_state := Disconnected\<rparr>"
  let ?w0 = "w\<lparr>objs := (objs w)(i \<mapsto> ?c)\<rparr>"
  obtain k1 where 1: "Channel_DisableAll (s_sys env) (s_junk env) (so_chan c) ?w0 =
      Some (?w0\<lparr>chans := (chans w)(so_chan c \<mapsto> ch\<lparr>ch_events := 0\<rparr>), kern := k1\<rparr>)"
    using set_events_alive [of ?w0 "so_chan c" ch "s_sys env" "s_junk env" "\<lambda>_. 0"] assms(2) by (auto simp: Channel_DisableAll_def)
  let ?w1 = "?w0\<lparr>chans := (chans w)(so_chan c \<mapsto> ch\<lparr>ch_events := 0\<rparr>), kern := k1\<rparr>"
  obtain k2 where 2: "Channel_Remove (s_sys env) (so_chan c) ?w1 =
      Some (?w1\<lparr>chans := (chans w)(so_chan c \<mapsto> dead_server_channel (ch_fd ch)), kern := k2\<rparr>)"
    using Remove_alive [of ?w1 "so_chan c" "ch\<lparr>ch_events := 0\<rparr>" "s_sys env"] by (cases ch) (auto simp: dead_server_channel_def)
  let ?w2 = "?w1\<lparr>chans := (chans w)(so_chan c \<mapsto> dead_server_channel (ch_fd ch)), kern := k2\<rparr>"
  let ?H = "(thread_id w, (chans w)(so_chan c \<mapsto> dead_server_channel (ch_fd ch)), listen_fd w)"
  obtain v where v: "own i ?w2 = Some v" "server_core v = (((objs w)(i \<mapsto> ?c\<lparr>so_refs := so_refs c + 1\<rparr>), connections w,
    ts_stopped w, accept_chan w), ?H)"
    using own_core [of ?w2 i ?c] by auto
  obtain u where u: "user_callback env i v = Some u" "server_core u = server_core v"
    using user_callback_quiet [OF assms(1)] by blast
  have "objs u i = Some (?c\<lparr>so_refs := so_refs c + 1\<rparr>)" using v(2) u(2) by (simp add: server_core_def)
  from disown_core [OF this, of env] obtain x where x: "disown env i u = Some x"
    "server_core x = (((objs w)(i \<mapsto> ?c), connections w, ts_stopped w, accept_chan w), ?H)"
    using v(2) u(2) assms(3) by (auto simp: server_core_def)
  show ?thesis using 1 2 v(1) u(1) x by (simp add: sconn_shut_def)
qed

lemma sconn_close_shut:
  "objs w i = Some c \<Longrightarrow> so_state c = Connected \<Longrightarrow> sconn_close env i w = Option.bind (sconn_shut env i c w) (\<lambda>w3.
     Option.bind (own i w3) (\<lambda>v. Option.bind (TcpServer_RemoveConnection env i v) (disown env i)))"
  unfolding sconn_close_def sconn_shut_def by (simp add: bind_assoc)

lemma sconn_close_stopped:
  assumes "quiet_user env" and "objs w i = Some c" and "so_state c = Connected" and "chans w (so_chan c) = Some ch"
    and "0 < so_refs c" and "ts_stopped w"
  shows "\<exists>w'. sconn_close env i w = Some w' \<and> server_core w' =
    (((objs w)(i \<mapsto> c\<lparr>so_state := Disconnected\<rparr>), connections w, ts_stopped w, accept_chan w),
     (thread_id w, (chans w)(so_chan c \<mapsto> dead_server_channel (ch_fd ch)), listen_fd w))"
proof -
  let ?c = "c\<lparr>so_state := Disconnected\<rparr>"
  obtain w3 where w3: "sconn_shut env i c w = Some w3" "server_core w3 =
    (((objs w)(i \<mapsto> ?c), connections w, ts_stopped w, accept_chan w),
     (thread_id w, (chans w)(so_chan c \<mapsto> dead_server_channel (ch_fd ch)), listen_fd w))"
    using sconn_shut_core [OF assms(1,4,5)] by blast
  have "objs w3 i = Some ?c" using w3(2) by (simp add: server_core_def)
  from own_core [OF this] obtain v where v: "own i w3 = Some v" "server_core v = (((objs w3)(i \<mapsto> ?c\<lparr>so_refs := so_refs c + 1\<rparr>),
    connections w3, ts_stopped w3, accept_chan w3), (thread_id w3, chans w3, listen_fd w3))" by auto
  then have r: "TcpServer_RemoveConnection env i v = Some v" "objs v i = Some (?c\<lparr>so_refs := so_refs c + 1\<rparr>)"
    using w3(2) assms(6) by (auto simp: TcpServer_RemoveConnection_def server_core_def)
  from disown_core [OF r(2), of env] obtain x where x: "disown env i v = Some x" "server_core x =
     (((objs v)(i \<mapsto> ?c), connections v, ts_stopped v, accept_chan v), (thread_id v, chans v, listen_fd v))"
    using assms(5) by auto
  show ?thesis using sconn_close_shut [OF assms(2,3), of env] w3 v r(1) x
    by (auto simp: server_core_def)
qed

lemma sconn_close_running:
  assumes "quiet_user env" and "objs w i = Some c" and "so_state c = Connected" and "chans w (so_chan c) = Some ch"
    and "0 < so_refs c" and "\<not> ts_stopped w" and "thread_id w = s_self env" and "map_of (connections w) (so_fd c) = Some i"
  shows "\<exists>w'. sconn_close env i w = Some w' \<and> server_core w' =
    (((if so_refs c = 1 then (objs w)(i := None)
       else (objs w)(i \<mapsto> c\<lparr>so_state := Disconnected, so_refs := so_refs c - 1\<rparr>)),
      AList.delete (so_fd c) (connections w), ts_stopped w, accept_chan w),
     (thread_id w, (if so_refs c = 1 then (chans w)(so_chan c := None)
        else (chans w)(so_chan c \<mapsto> dead_server_channel (ch_fd ch))), listen_fd w))"
proof -
  let ?c = "c\<lparr>so_state := Disconnected\<rparr>" and ?H = "(chans w)(so_chan c \<mapsto> dead_server_channel (ch_fd ch))"
  obtain w3 where w3: "sconn_shut env i c w = Some w3" "server_core w3 =
    (((objs w)(i \<mapsto> ?c), connections w, ts_stopped w, accept_chan w), (thread_id w, ?H, listen_fd w))"
    using sconn_shut_core [OF assms(1,4,5)] by blast
  have "objs w3 i = Some ?c" using w3(2) by (simp add: server_core_def)
  from own_core [OF this] obtain v where v: "own i w3 = Some v" "server_core v = (((objs w)(i \<mapsto> ?c\<lparr>so_refs := so_refs c + 1\<rparr>),
    connections w, ts_stopped w, accept_chan w), (thread_id w, ?H, listen_fd w))" using w3(2) by (auto simp: server_core_def)
  let ?v = "v\<lparr>connections := AList.delete (so_fd c) (connections v)\<rparr>"
  have ov: "objs v i = Some (?c\<lparr>so_refs := so_refs c + 1\<rparr>)" using v(2) by (simp add: server_core_def)
  then have "objs ?v i = Some (?c\<lparr>so_refs := so_refs c + 1\<rparr>)" by simp
  from disown_core [OF this, of env] obtain x where x: "disown env i ?v = Some x" "server_core x =
     (((objs w)(i \<mapsto> ?c), AList.delete (so_fd c) (connections w), ts_stopped w, accept_chan w), (thread_id w, ?H, listen_fd w))"
    using assms(5) v(2) by (auto simp: server_core_def)
  have r: "TcpServer_RemoveConnection env i v = Some x"
    using v(2) ov x(1) assms(6-8)
    by (simp add: TcpServer_RemoveConnection_def erase_connection_def EventLoop_IsInLoopThread_def server_core_def)
  have "objs x i = Some ?c" using x(2) by (simp add: server_core_def)
  from disown_core [OF this, of env] obtain y where y: "disown env i x = Some y" "server_core y =
    (if so_refs c \<le> 1
     then (((objs x)(i := None), connections x, ts_stopped x, accept_chan x), (thread_id x, (chans x)(so_chan c := None), listen_fd x))
     else (((objs x)(i \<mapsto> ?c\<lparr>so_refs := so_refs c - 1\<rparr>), connections x, ts_stopped x, accept_chan x), (thread_id x, chans x, listen_fd x)))"
    by auto
  show ?thesis using sconn_close_shut [OF assms(2,3), of env] w3(1) v(1) r x(2) y assms(5)
    by (auto simp: server_core_def split: if_splits)
qed

section \<open>The table of connections\<close>

lemma HandleAccept_core:
  assumes "quiet_user env" and "\<not> ts_stopped w" and "0 \<le> fd" and "map_of (connections w) fd = None"
  shows "\<exists>w'. TcpServer_HandleAccept env fd i p w = Some w' \<and> server_core w' =
    (((objs w)(i \<mapsto> \<lparr>so_fd = fd, so_state = Connected, so_chan = p, so_refs = 1\<rparr>), AList.update fd i (connections w),
      ts_stopped w, accept_chan w),
     (thread_id w, (chans w)(p \<mapsto> (server_channel i fd)\<lparr>ch_events := EPOLLIN\<rparr>), listen_fd w))"
proof -
  let ?c = "\<lparr>so_fd = fd, so_state = Connected, so_chan = p, so_refs = 1\<rparr>"
  let ?w0 = "w\<lparr>objs := (objs w)(i \<mapsto> ?c), chans := (chans w)(p \<mapsto> server_channel i fd)\<rparr>"
  let ?H = "(thread_id w, (chans w)(p \<mapsto> (server_channel i fd)\<lparr>ch_events := EPOLLIN\<rparr>), listen_fd w)"
  have "ch_events (server_channel i fd) OR EPOLLIN = EPOLLIN"
    by (simp add: server_channel_def Channel_new_def Channel_SetReadCallback_def Channel_SetWriteCallback_def
        Channel_SetCloseCallback_def)
  then obtain k' where "Channel_EnableReading (s_sys env) (s_junk env) p ?w0 =
      Some (?w0\<lparr>chans := (chans w)(p \<mapsto> (server_channel i fd)\<lparr>ch_events := EPOLLIN\<rparr>), kern := k'\<rparr>)"
    using set_events_alive [of ?w0 p "server_channel i fd" "s_sys env" "s_junk env" "\<lambda>e. e OR EPOLLIN"]
    by (auto simp: Channel_EnableReading_def)
  then obtain w1 where w1: "sconn_new env i p fd w = Some w1" "server_core w1 =
      (((objs w)(i \<mapsto> ?c), connections w, ts_stopped w, accept_chan w), ?H)"
    by (auto simp: sconn_new_def server_core_def)
  let ?w2 = "w1\<lparr>connections := AList.update fd i (connections w1)\<rparr>"
  have "objs ?w2 i = Some ?c" using w1(2) by (simp add: server_core_def)
  from own_core [OF this] obtain v where v: "own i ?w2 = Some v" "server_core v =
      (((objs w)(i \<mapsto> ?c\<lparr>so_refs := 2\<rparr>), AList.update fd i (connections w), ts_stopped w, accept_chan w), ?H)"
    using w1(2) by (auto simp: server_core_def numeral_2_eq_2)
  obtain u where u: "user_callback env i v = Some u" "server_core u = server_core v"
    using user_callback_quiet [OF assms(1)] by blast
  have "objs u i = Some (?c\<lparr>so_refs := 2\<rparr>)" using u(2) v(2) by (simp add: server_core_def)
  from disown_core [OF this, of env] obtain x where x: "disown env i u = Some x" "server_core x =
      (((objs w)(i \<mapsto> ?c), AList.update fd i (connections w), ts_stopped w, accept_chan w), ?H)"
    using u(2) v(2) by (auto simp: server_core_def)
  have "connections w1 = connections w" using w1(2) by (simp add: server_core_def)
  then show ?thesis using assms(2-4) w1(1) v(1) u(1) x by (simp add: TcpServer_HandleAccept_def)
qed

lemma StopAcceptingInLoop_core:
  assumes "\<forall>p. accept_chan w = Some p \<longrightarrow> chans w p \<noteq> None"
  shows "\<exists>w' . TcpServer_StopAcceptingInLoop env w = Some w' \<and> server_core w' =
    ((objs w, connections w, ts_stopped w, None),
     (thread_id w, (case accept_chan w of None \<Rightarrow> chans w | Some p \<Rightarrow> (chans w)(p := None)), listen_fd w))"
proof (cases "accept_chan w")
  case None
  then show ?thesis by (simp add: TcpServer_StopAcceptingInLoop_def server_core_def)
next
  case (Some p)
  then obtain c where c: "chans w p = Some c" using assms by blast
  from set_events_alive [OF this, of "s_sys env" "s_junk env" "\<lambda>_. 0"] Some
  show ?thesis
    by (auto simp: TcpServer_StopAcceptingInLoop_def Channel_DisableAll_def Channel_delete_def server_core_def)
qed

lemma server_core_inv: "server_core v = server_core w \<Longrightarrow> server_inv v = server_inv w"
  by (simp add: server_core_def server_inv_def)

lemma accept_inv:
  assumes "server_inv w" and "objs w i = None" and "chans w p = None" and "map_of (connections w) fd = None"
    and "server_core w' =
      (((objs w)(i \<mapsto> \<lparr>so_fd = fd, so_state = Connected, so_chan = p, so_refs = 1\<rparr>), AList.update fd i (connections w),
        ts_stopped w, accept_chan w),
       (thread_id w, (chans w)(p \<mapsto> ch), listen_fd w))"
  shows "server_inv w'"
proof -
  have f: "objs w' = (objs w)(i \<mapsto> \<lparr>so_fd = fd, so_state = Connected, so_chan = p, so_refs = 1\<rparr>)"
    "connections w' = connections w @ [(fd, i)]" "accept_chan w' = accept_chan w" "chans w' = (chans w)(p \<mapsto> ch)"
  proof -
    have "AList.update fd i (connections w) = connections w @ [(fd, i)]"
      using assms(4) by (simp add: update_absent map_of_eq_None_iff)
    then show "objs w' = (objs w)(i \<mapsto> \<lparr>so_fd = fd, so_state = Connected, so_chan = p, so_refs = 1\<rparr>)"
      "connections w' = connections w @ [(fd, i)]" "accept_chan w' = accept_chan w" "chans w' = (chans w)(p \<mapsto> ch)"
      using assms(5) by (simp_all add: server_core_def)
  qed
  have "fd \<notin> fst ` set (connections w)" using assms(4) by (simp add: map_of_eq_None_iff)
  moreover have "p \<noteq> so_chan c" if "objs w j = Some c" for j c using assms(1,3) that unfolding server_inv_def by force
  moreover have "accept_chan w \<noteq> Some p" using assms(1,3) unfolding server_inv_def by force
  moreover have "(fd', i) \<notin> set (connections w)" for fd' using assms(1,2) unfolding server_inv_def by force
  ultimately show ?thesis using assms(1,2) unfolding server_inv_def f by (auto simp: eq_commute [of p])
qed

lemma close_inv:
  assumes "server_inv w" and "objs w i = Some c" and "so_state c = Connected" and "(so_fd c, i) \<in> set (connections w)"
    and "server_core w' =
      (((if so_refs c = 1 then (objs w)(i := None)
         else (objs w)(i \<mapsto> c\<lparr>so_state := Disconnected, so_refs := so_refs c - 1\<rparr>)),
        AList.delete (so_fd c) (connections w), ts_stopped w, accept_chan w),
       (thread_id w, (if so_refs c = 1 then (chans w)(so_chan c := None) else (chans w)(so_chan c \<mapsto> ch)), listen_fd w))"
  shows "server_inv w'"
proof -
  have f: "objs w' = (if so_refs c = 1 then (objs w)(i := None)
         else (objs w)(i \<mapsto> c\<lparr>so_state := Disconnected, so_refs := so_refs c - 1\<rparr>))"
    "connections w' = AList.delete (so_fd c) (connections w)" "accept_chan w' = accept_chan w"
    "chans w' = (if so_refs c = 1 then (chans w)(so_chan c := None) else (chans w)(so_chan c \<mapsto> ch))"
    using assms(5) by (simp_all add: server_core_def)
  have d: "distinct (map fst (connections w))" using assms(1) by (simp add: server_inv_def)
  have del: "(fd, j) \<in> set (AList.delete (so_fd c) (connections w)) \<longleftrightarrow> (fd, j) \<in> set (connections w) \<and> fd \<noteq> so_fd c" for fd j
    by (auto simp: AList.delete_eq)
  have uniq: "j = i" if "(so_fd c, j) \<in> set (connections w)" for j
    using d that assms(4) by (metis eq_key_imp_eq_value)
  have tab: "(fd, j) \<in> set (connections w) \<longleftrightarrow> (\<exists>e. objs w j = Some e \<and> so_fd e = fd \<and> so_state e = Connected)" for fd j
    using assms(1) unfolding server_inv_def by blast
  have same: "so_fd e = so_fd c \<longrightarrow> j = i" if "objs w j = Some e" "so_state e = Connected" for j e
    using uniq assms(1) that unfolding server_inv_def by metis
  have chan: "so_chan e \<noteq> so_chan c" if "objs w j = Some e" "j \<noteq> i" for j e
    using assms(1,2) that unfolding server_inv_def by metis
  have "0 < so_refs c" using assms(1,2) unfolding server_inv_def by blast
  then have r: "so_refs c = Suc 0 \<or> Suc 0 < so_refs c" by linarith
  have "distinct (map fst (connections w'))" using d f(2) by (simp add: distinct_delete)
  moreover have "(fd, j) \<in> set (connections w') \<longleftrightarrow> (\<exists>e. objs w' j = Some e \<and> so_fd e = fd \<and> so_state e = Connected)" for fd j
  proof (cases "j = i")
    case True
    have "\<not> (\<exists>e. objs w' i = Some e \<and> so_state e = Connected)" by (auto simp: f(1))
    moreover have "fd = so_fd c" if "(fd, i) \<in> set (connections w)" using tab [of fd i] that assms(2) by auto
    ultimately show ?thesis using True by (auto simp: f(2) del)
  next
    case False
    then have "objs w' j = objs w j" by (simp add: f(1))
    then show ?thesis using tab [of fd j] uniq [of j] False by (auto simp: f(2) del)
  qed
  moreover have "0 < so_refs e \<and> chans w' (so_chan e) \<noteq> None \<and> accept_chan w' \<noteq> Some (so_chan e)" if "objs w' j = Some e" for j e
    using assms(1,2) that chan r unfolding f server_inv_def by (cases "j = i") (auto split: if_splits)
  moreover have "j = k" if h: "objs w' j = Some e" "objs w' k = Some g" "so_chan e = so_chan g" for j k e g
  proof -
    have old: "\<exists>x. objs w l = Some x \<and> so_chan x = so_chan y" if "objs w' l = Some y" for l y
      using that assms(2) f(1) by (cases "l = i"; cases "so_refs c = 1") auto
    obtain e' g' where "objs w j = Some e'" "objs w k = Some g'" "so_chan e' = so_chan e" "so_chan g' = so_chan g"
      using old [OF h(1)] old [OF h(2)] by blast
    then show ?thesis using assms(1) h(3) unfolding server_inv_def by metis
  qed
  moreover have "chans w' q \<noteq> None" if "accept_chan w' = Some q" for q
    using assms(1,2) that unfolding f server_inv_def by auto
  ultimately show ?thesis unfolding server_inv_def by blast
qed

section \<open>Stopping\<close>

lemma for_each_own:
  assumes "distinct is" and "\<forall>i \<in> set is. objs w i \<noteq> None"
  shows "\<exists>w'. for_each own is w = Some w' \<and> server_core w' =
    ((\<lambda>j. if j \<in> set is then map_option (\<lambda>c. c\<lparr>so_refs := so_refs c + 1\<rparr>) (objs w j) else objs w j,
      connections w, ts_stopped w, accept_chan w), (thread_id w, chans w, listen_fd w))"
  using assms
proof (induction "is" arbitrary: w)
  case Nil
  then show ?case by (simp add: server_core_def)
next
  case (Cons i "is")
  then obtain c where c: "objs w i = Some c" by auto
  obtain v where v: "own i w = Some v" "server_core v = (((objs w)(i \<mapsto> c\<lparr>so_refs := so_refs c + 1\<rparr>), connections w,
    ts_stopped w, accept_chan w), (thread_id w, chans w, listen_fd w))" using own_core [OF c] by blast
  have "\<forall>j \<in> set is. objs v j \<noteq> None" using Cons.prems(2) v(2) by (simp add: server_core_def)
  from Cons.IH [OF _ this] Cons.prems(1) obtain w' where "for_each own is v = Some w'" "server_core w' =
    ((\<lambda>j. if j \<in> set is then map_option (\<lambda>c. c\<lparr>so_refs := so_refs c + 1\<rparr>) (objs v j) else objs v j,
      connections v, ts_stopped v, accept_chan v), (thread_id v, chans v, listen_fd v))" by auto
  then show ?case using v c Cons.prems(1) by (auto simp: server_core_def fun_eq_iff)
qed

lemma for_each_disown:
  assumes "distinct is" and "\<forall>i \<in> set is. objs w i \<noteq> None"
  shows "\<exists>w'. for_each (disown env) is w = Some w' \<and>
    objs w' = (\<lambda>j. if j \<in> set is then Option.bind (objs w j) (\<lambda>c. if so_refs c \<le> 1 then None
       else Some (c\<lparr>so_refs := so_refs c - 1\<rparr>)) else objs w j) \<and>
    connections w' = connections w \<and> accept_chan w' = accept_chan w \<and> ts_stopped w' = ts_stopped w"
  using assms
proof (induction "is" arbitrary: w)
  case Nil
  then show ?case by simp
next
  case (Cons i "is")
  then obtain c where c: "objs w i = Some c" by auto
  obtain v where v: "disown env i w = Some v" "objs v = (objs w)(i := if so_refs c \<le> 1 then None
      else Some (c\<lparr>so_refs := so_refs c - 1\<rparr>))" "connections v = connections w" "accept_chan v = accept_chan w"
      "ts_stopped v = ts_stopped w"
    using disown_core [OF c, of env] by (auto simp: server_core_def split: if_splits)
  have "\<forall>j \<in> set is. objs v j \<noteq> None" using Cons.prems v(2) by auto
  from Cons.IH [OF _ this] Cons.prems(1) obtain w' where "for_each (disown env) is v = Some w'"
    "objs w' = (\<lambda>j. if j \<in> set is then Option.bind (objs v j) (\<lambda>c. if so_refs c \<le> 1 then None
       else Some (c\<lparr>so_refs := so_refs c - 1\<rparr>)) else objs v j)"
    "connections w' = connections v" "accept_chan w' = accept_chan v" "ts_stopped w' = ts_stopped v" by auto
  then show ?case using v c Cons.prems(1) by (auto simp: fun_eq_iff)
qed

lemma for_each_close:
  assumes "quiet_user env" and "distinct is" and "ts_stopped w"
    and "\<forall>i \<in> set is. \<exists>c. objs w i = Some c \<and> so_state c = Connected \<and> 0 < so_refs c"
    and "\<forall>i c. objs w i = Some c \<longrightarrow> chans w (so_chan c) \<noteq> None"
  shows "\<exists>w'. for_each (sconn_close env) is w = Some w' \<and>
    objs w' = (\<lambda>j. if j \<in> set is then map_option (\<lambda>c. c\<lparr>so_state := Disconnected\<rparr>) (objs w j) else objs w j) \<and>
    connections w' = connections w \<and> accept_chan w' = accept_chan w \<and> ts_stopped w'"
  using assms(2-)
proof (induction "is" arbitrary: w)
  case Nil
  then show ?case by simp
next
  case (Cons i "is")
  then obtain c ch where c: "objs w i = Some c" "so_state c = Connected" "0 < so_refs c" "chans w (so_chan c) = Some ch"
    by (metis list.set_intros(1) not_None_eq)
  obtain v where v: "sconn_close env i w = Some v" "server_core v =
    (((objs w)(i \<mapsto> c\<lparr>so_state := Disconnected\<rparr>), connections w, ts_stopped w, accept_chan w),
     (thread_id w, (chans w)(so_chan c \<mapsto> dead_server_channel (ch_fd ch)), listen_fd w))"
    using sconn_close_stopped [OF assms(1) c(1,2,4,3) Cons.prems(2)] by blast
  then have f: "objs v = (objs w)(i \<mapsto> c\<lparr>so_state := Disconnected\<rparr>)" "connections v = connections w" "ts_stopped v"
    "accept_chan v = accept_chan w" "chans v = (chans w)(so_chan c \<mapsto> dead_server_channel (ch_fd ch))"
    using Cons.prems(2) by (simp_all add: server_core_def)
  have "\<forall>j \<in> set is. \<exists>c. objs v j = Some c \<and> so_state c = Connected \<and> 0 < so_refs c"
    using Cons.prems(1,3) f(1) by auto
  moreover have "\<forall>j d. objs v j = Some d \<longrightarrow> chans v (so_chan d) \<noteq> None"
    using Cons.prems(4) c f(1,5) by (auto split: if_splits)
  ultimately obtain w' where "for_each (sconn_close env) is v = Some w'"
    "objs w' = (\<lambda>j. if j \<in> set is then map_option (\<lambda>c. c\<lparr>so_state := Disconnected\<rparr>) (objs v j) else objs v j)"
    "connections w' = connections v" "accept_chan w' = accept_chan v" "ts_stopped w'"
    using Cons.IH [of v] Cons.prems(1) f(3) by auto
  then show ?case using v(1) f c(1) Cons.prems(1) by (auto simp: fun_eq_iff)
qed

lemma table_ids:
  assumes "server_inv w"
  shows "distinct (map snd (connections w))"
    and "i \<in> set (map snd (connections w)) \<longleftrightarrow> (\<exists>c. objs w i = Some c \<and> so_state c = Connected)"
proof -
  have tab: "(fd, j) \<in> set (connections w) \<longleftrightarrow> (\<exists>c. objs w j = Some c \<and> so_fd c = fd \<and> so_state c = Connected)" for fd j
    using assms unfolding server_inv_def by blast
  have "inj_on snd (set (connections w))"
  proof (rule inj_onI)
    fix x y assume h: "x \<in> set (connections w)" "y \<in> set (connections w)" "snd x = snd y"
    obtain a i b where "x = (a, i)" "y = (b, i)" using h(3) by (cases x; cases y) simp
    then show "x = y" using h(1,2) tab [of a i] tab [of b i] by auto
  qed
  moreover have "distinct (connections w)" using assms by (simp add: server_inv_def distinct_map)
  ultimately show "distinct (map snd (connections w))" by (simp add: distinct_map)
  show "i \<in> set (map snd (connections w)) \<longleftrightarrow> (\<exists>c. objs w i = Some c \<and> so_state c = Connected)"
    using tab by force
qed

lemma StopInLoop_closes:
  assumes "quiet_user env" and "server_inv w" and "ts_stopped w"
  shows "\<exists>w'. TcpServer_StopInLoop env w = Some w' \<and> ts_stopped w' \<and> connections w' = [] \<and> accept_chan w' = None \<and>
    objs w' = (\<lambda>i. Option.bind (objs w i) (\<lambda>c. if so_state c = Disconnected then Some c
      else if so_refs c = 1 then None else Some (c\<lparr>so_state := Disconnected, so_refs := so_refs c - 1\<rparr>)))"
proof -
  let ?ids = "map snd (connections w)"
  note ids = table_ids [OF assms(2)]
  have inv: "\<forall>i c. objs w i = Some c \<longrightarrow> 0 < so_refs c \<and> chans w (so_chan c) \<noteq> None \<and> accept_chan w \<noteq> Some (so_chan c)"
    "\<forall>p. accept_chan w = Some p \<longrightarrow> chans w p \<noteq> None"
    using assms(2) unfolding server_inv_def by blast+
  obtain w1 where w1: "TcpServer_StopAcceptingInLoop env w = Some w1" "server_core w1 =
    ((objs w, connections w, ts_stopped w, None),
     (thread_id w, (case accept_chan w of None \<Rightarrow> chans w | Some p \<Rightarrow> (chans w)(p := None)), listen_fd w))"
    using StopAcceptingInLoop_core [OF inv(2), of env] by blast
  define w2 where "w2 = shutdown_listener w1"
  have f2: "objs w2 = objs w" "connections w2 = connections w" "ts_stopped w2" "accept_chan w2 = None"
    "chans w2 = (case accept_chan w of None \<Rightarrow> chans w | Some p \<Rightarrow> (chans w)(p := None))"
    using w1(2) assms(3) by (simp_all add: w2_def shutdown_listener_def server_core_def)
  have "\<forall>i \<in> set ?ids. objs w2 i \<noteq> None" using ids(2) f2(1) by auto
  from for_each_own [OF ids(1) this] obtain w3 where w3: "for_each own ?ids w2 = Some w3"
    "objs w3 = (\<lambda>j. if j \<in> set ?ids then map_option (\<lambda>c. c\<lparr>so_refs := so_refs c + 1\<rparr>) (objs w2 j) else objs w2 j)"
    "connections w3 = connections w" "ts_stopped w3" "accept_chan w3 = None" "chans w3 = chans w2"
    using f2 by (auto simp: server_core_def)
  have o3: "\<exists>c. objs w i = Some c \<and> so_state c = Connected \<and> 0 < so_refs c \<and> objs w3 i = Some (c\<lparr>so_refs := so_refs c + 1\<rparr>)"
    if i: "i \<in> set ?ids" for i
  proof -
    obtain c where c: "objs w i = Some c" "so_state c = Connected" using ids(2) i by blast
    moreover have "0 < so_refs c" using inv(1) c(1) by blast
    moreover have "objs w3 i = Some (c\<lparr>so_refs := so_refs c + 1\<rparr>)" using i c(1) by (simp only: w3(2) f2(1) if_True) simp
    ultimately show ?thesis by blast
  qed
  have "\<forall>i \<in> set ?ids. \<exists>c. objs w3 i = Some c \<and> so_state c = Connected \<and> 0 < so_refs c"
    using o3 by fastforce
  moreover have "\<forall>i c. objs w3 i = Some c \<longrightarrow> chans w3 (so_chan c) \<noteq> None"
  proof (intro allI impI)
    fix i c assume "objs w3 i = Some c"
    then obtain z where "objs w i = Some z" "so_chan z = so_chan c"
      unfolding w3(2) f2(1) by (auto split: if_splits)
    then have "chans w (so_chan c) \<noteq> None \<and> accept_chan w \<noteq> Some (so_chan c)" using inv(1) by metis
    then show "chans w3 (so_chan c) \<noteq> None" by (simp add: w3(6) f2(5) split: option.split)
  qed
  ultimately obtain w4 where w4: "for_each (sconn_close env) ?ids w3 = Some w4"
    "objs w4 = (\<lambda>j. if j \<in> set ?ids then map_option (\<lambda>c. c\<lparr>so_state := Disconnected\<rparr>) (objs w3 j) else objs w3 j)"
    "connections w4 = connections w" "accept_chan w4 = None" "ts_stopped w4"
    using for_each_close [OF assms(1) ids(1) w3(4)] w3(3,5) by auto
  have o4: "\<exists>c. objs w i = Some c \<and> so_state c = Connected \<and> 0 < so_refs c \<and>
      objs w4 i = Some (c\<lparr>so_state := Disconnected, so_refs := so_refs c + 1\<rparr>)" if i: "i \<in> set ?ids" for i
  proof -
    obtain c where c: "objs w i = Some c" "so_state c = Connected" "0 < so_refs c"
      "objs w3 i = Some (c\<lparr>so_refs := so_refs c + 1\<rparr>)" using o3 [OF i] by blast
    then have "objs w4 i = Some (c\<lparr>so_state := Disconnected, so_refs := so_refs c + 1\<rparr>)"
      using i by (simp only: w4(2) if_True) simp
    with c show ?thesis by blast
  qed
  define v4 where "v4 = w4\<lparr>connections := []\<rparr>"
  have v4: "objs v4 = objs w4" "connections v4 = []" "accept_chan v4 = None" "ts_stopped v4"
    using w4(4,5) by (simp_all add: v4_def)
  have "\<forall>i \<in> set ?ids. objs v4 i \<noteq> None" using o4 v4(1) by fastforce
  from for_each_disown [OF ids(1) this, of env] obtain w5 where w5: "for_each (disown env) ?ids v4 = Some w5"
    "objs w5 = (\<lambda>j. if j \<in> set ?ids then Option.bind (objs v4 j) (\<lambda>c. if so_refs c \<le> 1 then None
       else Some (c\<lparr>so_refs := so_refs c - 1\<rparr>)) else objs v4 j)"
    "connections w5 = []" "accept_chan w5 = None" "ts_stopped w5" using v4 by auto
  have o5: "\<exists>c. objs w i = Some c \<and> so_state c = Connected \<and> 0 < so_refs c \<and>
      objs w5 i = Some (c\<lparr>so_state := Disconnected, so_refs := so_refs c\<rparr>)" if i: "i \<in> set ?ids" for i
  proof -
    obtain c where c: "objs w i = Some c" "so_state c = Connected" "0 < so_refs c"
      "objs w4 i = Some (c\<lparr>so_state := Disconnected, so_refs := so_refs c + 1\<rparr>)" using o4 [OF i] by blast
    then have "objs w5 i = Some (c\<lparr>so_state := Disconnected, so_refs := so_refs c\<rparr>)"
      using i by (simp only: w5(2) v4(1) if_True) simp
    with c show ?thesis by blast
  qed
  have "\<forall>i \<in> set ?ids. objs w5 i \<noteq> None" using o5 by fastforce
  from for_each_disown [OF ids(1) this, of env] obtain w6 where w6: "for_each (disown env) ?ids w5 = Some w6"
    "objs w6 = (\<lambda>j. if j \<in> set ?ids then Option.bind (objs w5 j) (\<lambda>c. if so_refs c \<le> 1 then None
       else Some (c\<lparr>so_refs := so_refs c - 1\<rparr>)) else objs w5 j)"
    "connections w6 = []" "accept_chan w6 = None" "ts_stopped w6" using w5(3-5) by auto
  have r: "TcpServer_StopInLoop env w = Some w6"
    using w1(1) w3(1) w4(1,3) w5(1) w6(1) f2(2)
    by (simp add: TcpServer_StopInLoop_def Let_def w2_def [symmetric] v4_def)
  have "objs w6 i = Option.bind (objs w i) (\<lambda>c. if so_state c = Disconnected then Some c
      else if so_refs c = 1 then None else Some (c\<lparr>so_state := Disconnected, so_refs := so_refs c - 1\<rparr>))" for i
  proof (cases "i \<in> set ?ids")
    case True
    then obtain c where c: "objs w i = Some c" "so_state c = Connected" "0 < so_refs c"
      "objs w5 i = Some (c\<lparr>so_state := Disconnected, so_refs := so_refs c\<rparr>)" using o5 by blast
    then have "objs w6 i = (if so_refs c \<le> 1 then None else Some (c\<lparr>so_state := Disconnected, so_refs := so_refs c - 1\<rparr>))"
      using True by (simp only: w6(2) if_True) simp
    then show ?thesis using c by (simp add: le_Suc_eq)
  next
    case False
    then have "objs w6 i = objs w i" by (simp add: w6(2) w5(2) v4(1) w4(2) w3(2) f2(1))
    moreover have "so_state c = Disconnected" if "objs w i = Some c" for c
      using False ids(2) that by (cases "so_state c") auto
    ultimately show ?thesis by (cases "objs w i") simp_all
  qed
  then have "objs w6 = (\<lambda>i. Option.bind (objs w i) (\<lambda>c. if so_state c = Disconnected then Some c
      else if so_refs c = 1 then None else Some (c\<lparr>so_state := Disconnected, so_refs := so_refs c - 1\<rparr>)))" by (rule ext)
  with r w6(3-5) show ?thesis by blast
qed

section \<open>Properties\<close>

definition demo_server_loop :: "'k \<Rightarrow> (server_cb, 'k) event_loop" where
  "demo_server_loop k = \<lparr>quit = False, pending = [], wakeups = 0, epoller = \<lparr>epollFd = 3, event_buf = []\<rparr>,
     kern = k, chans = Map.empty, timer = TimeWheel_new (\<lambda>_. 0) 10, wakeup_fd = 4, thread_id = 0\<rparr>"

definition demo_senv :: "'k kernel \<Rightarrow> ('k, unit) tcp_server_env" where
  "demo_senv sys = \<lparr>s_sys = sys, s_junk = 0, s_self = 0, s_user = None\<rparr>"

abbreviation fresh_server where "fresh_server k \<equiv> TcpServer_new 9 (demo_server_loop k)"

lemma fresh_server_ok [simp]: "server_inv (fresh_server k)" "\<not> ts_stopped (fresh_server k)" "thread_id (fresh_server k) = 0"
  "objs (fresh_server k) = Map.empty" "chans (fresh_server k) = Map.empty" "connections (fresh_server k) = []"
  "quiet_user (demo_senv sys)" "s_self (demo_senv sys) = 0" "accept_chan (fresh_server k) = None"
  "listen_fd (fresh_server k) = 9" "kern (fresh_server k) = k" "epoller (fresh_server k) = \<lparr>epollFd = 3, event_buf = []\<rparr>"
  by (simp_all add: TcpServer_new_def event_loop.defs tcp_server_world.defs server_inv_def demo_server_loop_def
      demo_senv_def quiet_user_def)

text \<open>
  C24. The table of connections is exactly the open connections under their descriptors, and this is kept by
  accepting a connection and by the closing of one, both of which return: the accepted one is entered with the table as
  its only owner, a failed \<open>accept4\<close> changes nothing, and a closed one leaves the table and is destroyed
  unless something else still owns it.
\<close>

theorem connection_table:
  assumes "quiet_user env" and "server_inv w" and "\<not> ts_stopped w" and "thread_id w = s_self env"
  shows "(fd < 0 \<longrightarrow> TcpServer_HandleAccept env fd i p w = Some w) \<and>
    (0 \<le> fd \<and> objs w i = None \<and> chans w p = None \<and> map_of (connections w) fd = None \<longrightarrow>
      (\<exists>w'. TcpServer_HandleAccept env fd i p w = Some w' \<and> server_inv w' \<and> connections w' = connections w @ [(fd, i)] \<and>
        map_option so_refs (objs w' i) = Some 1)) \<and>
    ((fd, i) \<in> set (connections w) \<longrightarrow>
      (\<exists>w'. sconn_close env i w = Some w' \<and> server_inv w' \<and> connections w' = AList.delete fd (connections w) \<and>
        (map_option so_refs (objs w i) = Some 1 \<longrightarrow> objs w' i = None)))"
proof (intro conjI impI)
  show "TcpServer_HandleAccept env fd i p w = Some w" if "fd < 0"
    using that assms(3) by (simp add: TcpServer_HandleAccept_def)
next
  assume h: "0 \<le> fd \<and> objs w i = None \<and> chans w p = None \<and> map_of (connections w) fd = None"
  then obtain w' where w': "TcpServer_HandleAccept env fd i p w = Some w'" "server_core w' =
    (((objs w)(i \<mapsto> \<lparr>so_fd = fd, so_state = Connected, so_chan = p, so_refs = 1\<rparr>), AList.update fd i (connections w),
      ts_stopped w, accept_chan w),
     (thread_id w, (chans w)(p \<mapsto> (server_channel i fd)\<lparr>ch_events := EPOLLIN\<rparr>), listen_fd w))"
    using HandleAccept_core [OF assms(1,3)] by blast
  moreover have "server_inv w'" by (rule accept_inv [OF assms(2) _ _ _ w'(2)]) (use h in simp_all)
  moreover have "AList.update fd i (connections w) = connections w @ [(fd, i)]"
    using h by (intro update_absent) (simp add: map_of_eq_None_iff)
  ultimately show "\<exists>w'. TcpServer_HandleAccept env fd i p w = Some w' \<and> server_inv w' \<and>
      connections w' = connections w @ [(fd, i)] \<and> map_option so_refs (objs w' i) = Some 1"
    by (simp add: server_core_def)
next
  assume h: "(fd, i) \<in> set (connections w)"
  then obtain c where c: "objs w i = Some c" "so_fd c = fd" "so_state c = Connected"
    using assms(2) unfolding server_inv_def by blast
  obtain ch where ch: "chans w (so_chan c) = Some ch" "0 < so_refs c" using assms(2) c(1) unfolding server_inv_def by blast
  have "map_of (connections w) (so_fd c) = Some i" using h c(2) assms(2) by (simp add: server_inv_def)
  from sconn_close_running [OF assms(1) c(1,3) ch assms(3,4) this] obtain w' where w': "sconn_close env i w = Some w'"
    "server_core w' = (((if so_refs c = 1 then (objs w)(i := None)
       else (objs w)(i \<mapsto> c\<lparr>so_state := Disconnected, so_refs := so_refs c - 1\<rparr>)),
      AList.delete (so_fd c) (connections w), ts_stopped w, accept_chan w),
     (thread_id w, (if so_refs c = 1 then (chans w)(so_chan c := None)
        else (chans w)(so_chan c \<mapsto> dead_server_channel (ch_fd ch))), listen_fd w))" by blast
  have "server_inv w'" using close_inv [OF assms(2) c(1,3) _ w'(2)] h c(2) by blast
  then show "\<exists>w'. sconn_close env i w = Some w' \<and> server_inv w' \<and> connections w' = AList.delete fd (connections w) \<and>
      (map_option so_refs (objs w i) = Some 1 \<longrightarrow> objs w' i = None)"
    using w' c by (intro exI [of _ w']) (simp add: server_core_def)
qed

theorem connection_table_witness:
  "\<exists>w'. TcpServer_HandleAccept (demo_senv null_kernel) 7 0 64 (fresh_server ()) = Some w' \<and> server_inv w' \<and>
     connections w' = [(7, 0)]"
  using connection_table [where env = "demo_senv null_kernel" and w = "fresh_server ()" and fd = 7 and i = 0 and p = 64]
  by auto



text \<open>
  After \<open>StopAccepting\<close> the kernel still holds a pointer to the destroyed accept channel:
  \<open>DisableAll\<close> registers the descriptor again, with \<open>EPOLLRDHUP\<close>, and the channel is destroyed without
  \<open>DelFd\<close>. \<open>shutdown\<close> makes the descriptor report a hang-up, and the dispatch of that event reads the
  channel through the dangling pointer.
\<close>

theorem accept_channel_dangles:
  assumes "epoll_laws (s_sys env) (epollFd (epoller w)) interest" and "accept_chan w = Some p" and "p \<noteq> 0"
    and "chans w p = Some c" and "0 \<le> ch_fd c"
  shows "\<exists>w' ev. TcpServer_StopAcceptingInLoop env w = Some w' \<and> interest (kern w') (ch_fd c) = Some ev \<and>
    ev_data ev = p \<and> chans w' p = None \<and>
    (\<forall>e i. ev_data (event_buf e ! i) = ev_data ev \<longrightarrow> dispatch_event call i (w'\<lparr>epoller := e\<rparr>) = None)"
proof -
  let ?c = "c\<lparr>ch_events := 0\<rparr>"
  obtain k' where k': "Epoller_ModFd (s_sys env) (s_junk env) (epoller w) (ch_fd c) 0 p (kern w) = (True, k')"
    "interest k' = (interest (kern w))(ch_fd c \<mapsto> make_event (s_junk env) (ch_fd c) 0 p)"
    using ModFd_interest [OF assms(1,5)] by blast
  define w' where "w' = w\<lparr>chans := ((chans w)(p \<mapsto> ?c))(p := None), kern := k', accept_chan := None\<rparr>"
  have "TcpServer_StopAcceptingInLoop env w = Some w'"
    using assms(2,4) k'(1)
    by (simp add: TcpServer_StopAcceptingInLoop_def Channel_DisableAll_def set_events_def Channel_Update_def
        EventLoop_UpdateChannel_def Channel_delete_def w'_def)
  moreover have "dispatch_event call i (w'\<lparr>epoller := e\<rparr>) = None" if "ev_data (event_buf e ! i) = p" for e i
    using that assms(3)
    by (simp add: dispatch_event_def Let_def Epoller_GetChannel_def data_ptr_def read_wakeup_fd_def w'_def)
  ultimately show ?thesis using k'(2)
    by (intro exI [of _ w'] exI [of _ "make_event (s_junk env) (ch_fd c) 0 p"]) (simp add: w'_def)
qed

theorem accept_channel_dangles_witness:
  "\<exists>w w' ev. TcpServer_Start (demo_senv list_kernel) 64 (fresh_server Map.empty) = Some w \<and>
     TcpServer_StopAcceptingInLoop (demo_senv list_kernel) w = Some w' \<and> kern w' 9 = Some ev \<and> ev_data ev = 64 \<and>
     chans w' 64 = None"
proof -
  let ?env = "demo_senv list_kernel" and ?s = "fresh_server (Map.empty :: int \<rightharpoonup> epoll_event)"
  let ?ch = "Channel_SetReadCallback SC_HandleAccept (Channel_new 9)"
  let ?v = "?s\<lparr>listening := True, accept_chan := Some 64, chans := (chans ?s)(64 \<mapsto> ?ch)\<rparr>"
  obtain k' where k': "Channel_EnableReading (s_sys ?env) (s_junk ?env) 64 ?v =
      Some (?v\<lparr>chans := (chans ?v)(64 \<mapsto> ?ch\<lparr>ch_events := ch_events ?ch OR EPOLLIN\<rparr>), kern := k'\<rparr>)"
    using set_events_alive [of ?v 64 ?ch "s_sys ?env" "s_junk ?env" "\<lambda>e. e OR EPOLLIN"] by (auto simp: Channel_EnableReading_def)
  let ?w = "?v\<lparr>chans := (chans ?v)(64 \<mapsto> ?ch\<lparr>ch_events := ch_events ?ch OR EPOLLIN\<rparr>), kern := k'\<rparr>"
  have st: "TcpServer_Start ?env 64 ?s = Some ?w"
    using k' by (simp add: TcpServer_Start_def TcpServer_Start_lambda_def EventLoop_IsInLoopThread_def)
  have l: "epoll_laws (s_sys ?env) (epollFd (epoller ?w)) id" using list_kernel_laws by (simp add: demo_senv_def)
  have "accept_chan ?w = Some 64" "(64 :: ptr) \<noteq> 0" "chans ?w 64 = Some (?ch\<lparr>ch_events := ch_events ?ch OR EPOLLIN\<rparr>)"
    "0 \<le> ch_fd (?ch\<lparr>ch_events := ch_events ?ch OR EPOLLIN\<rparr>)"
    by (simp_all add: Channel_SetReadCallback_def Channel_new_def)
  from accept_channel_dangles [where call = "\<lambda>_ _. None", OF l this] st show ?thesis
    by (auto simp: Channel_SetReadCallback_def Channel_new_def)
qed

end
