(* ===== verification/RpcServerModel.thy ===== *)
theory RpcServerModel
  imports CodecModel RpcServiceModel ThreadPoolModel TcpConnModel
begin

text \<open>
  \<open>code/rpc/rpc_server.cc\<close>: the server's side of one connection, from the bytes that arrive to the
  responses that leave.

  The world is a connection extended with the server: its registry, the state of the application
  behind the handlers, the shared state of the thread pool and \<open>stopped_\<close>. A pool task is the
  request its lambda captured. The serialiser of \<open>RpcResponse\<close> and the parser of \<open>RpcRequest\<close> are in
  the environment record, with the kernel, the connection's callbacks and the calling thread.
  Logging has no effect here.
\<close>

section \<open>State\<close>

record ('k, 'a) server_world = "'k conn_world" +
  service :: "'a rpc_service"
  app :: 'a
  srv_pool :: "rpc_request pool"
  srv_stopped :: bool

record ('k, 'z) rpc_env =
  e_sys :: "'k kernel"
  e_junk :: "64 word"
  e_cbs :: "('k, 'z) conn_callbacks"
  e_self :: nat
  e_ser :: "rpc_response \<Rightarrow> bytes option"
  e_parse :: "bytes \<Rightarrow> rpc_request option"
  e_bad_call :: bytes

section \<open>Replies made by the loop thread\<close>

definition shutting_down_response :: "rpc_request \<Rightarrow> rpc_response" where
  "shutting_down_response request =
     RpcResponse_new\<lparr>rs_request_id := rq_request_id request, rs_code := code_value SERVER_SHUTTING_DOWN,
       rs_msg := str ''server shutting down''\<rparr>"

definition busy_response :: "rpc_request \<Rightarrow> rpc_response" where
  "busy_response request =
     RpcResponse_new\<lparr>rs_request_id := rq_request_id request, rs_code := code_value SERVER_BUSY,
       rs_msg := str ''Server busy, try again later''\<rparr>"

text \<open>The broadcast of \<open>Stop\<close>: no request id.\<close>

definition goaway_response :: rpc_response where
  "goaway_response = RpcResponse_new\<lparr>rs_code := code_value SERVER_SHUTTING_DOWN,
     rs_msg := str ''server shutting down''\<rparr>"

text \<open>\<open>if (encoded.has_value()) conn->send(...)\<close>\<close>

definition encode_and_send ::
  "('k, 'z) rpc_env \<Rightarrow> rpc_response \<Rightarrow> ('k, 'z) conn_world_scheme \<Rightarrow> ('k, 'z) conn_world_scheme option" where
  "encode_and_send env response w =
     (case Codec_encode (e_ser env) response of
        None \<Rightarrow> Some w
      | Some encoded \<Rightarrow> TcpConnection_send (e_sys env) (e_junk env) (e_self env) encoded w)"

text \<open>One request that \<open>onMessage\<close> has decoded.\<close>

definition RpcServer_handle_request ::
  "('k, ('a, 'z) server_world_ext) rpc_env \<Rightarrow> rpc_request \<Rightarrow> ('k, 'a, 'z) server_world_scheme \<Rightarrow>
     ('k, 'a, 'z) server_world_scheme option" where
  "RpcServer_handle_request env request w =
     (if srv_stopped w then encode_and_send env (shutting_down_response request) w
      else
        let (added, p) = ThreadPool_TryAddTask request (srv_pool w); w1 = w\<lparr>srv_pool := p\<rparr>
        in if added then Some w1 else encode_and_send env (busy_response request) w1)"

partial_function (option) RpcServer_onMessage ::
  "('k, ('a, 'z) server_world_ext) rpc_env \<Rightarrow> ('k, 'a, 'z) server_world_scheme \<Rightarrow>
     ('k, 'a, 'z) server_world_scheme option" where
  "RpcServer_onMessage env w =
     (if 4 \<le> Buffer_ReadableBytes (in_buf w) then
        (case Codec_decode (e_parse env) (Buffer_PeekStringView (in_buf w)) of
           (status, request, consumed) \<Rightarrow>
             (case status of
                Incomplete \<Rightarrow> Some w
              | Corrupted \<Rightarrow> TcpConnection_close (e_sys env) (e_junk env) (e_cbs env) (e_self env) w
              | Ok \<Rightarrow>
                  Option.bind
                    (RpcServer_handle_request env (the request)
                       (w\<lparr>in_buf := Buffer_Retrieve consumed (in_buf w)\<rparr>))
                    (RpcServer_onMessage env)))
      else Some w)"

section \<open>The pool task\<close>

text \<open>
  \<open>weak_conn.lock()\<close> fails on a destroyed connection and is an owner until the task ends. A handler
  that throws something other than a \<open>std::exception\<close> leaves \<open>Invoke\<close> by that exception; the worker
  swallows it, and the rest of the lambda is skipped.
\<close>

definition RpcServer_task ::
  "('k, ('a, 'z) server_world_ext) rpc_env \<Rightarrow> rpc_request \<Rightarrow> ('k, 'a, 'z) server_world_scheme \<Rightarrow>
     ('k, 'a, 'z) server_world_scheme option" where
  "RpcServer_task env request w =
     (if \<not> alive w then Some w
      else
        let w1 = w\<lparr>refs := refs w + 1\<rparr>;
            (result, response, a) = RpcService_Invoke (e_bad_call env) (service w1) request RpcResponse_new (app w1);
            w2 = w1\<lparr>app := a\<rparr>
        in case result of
             Invoke_propagated \<Rightarrow> Some (release w2)
           | Invoke_returned _ \<Rightarrow> map_option release (encode_and_send env response w2))"

section \<open>The receive loop reads the frames of the stream\<close>

definition reply_bytes :: "(rpc_response \<Rightarrow> bytes option) \<Rightarrow> rpc_response \<Rightarrow> bytes" where
  "reply_bytes ser response = (case Codec_encode ser response of None \<Rightarrow> [] | Some f \<Rightarrow> f)"

text \<open>
  What a request changes, the bytes promised to the peer and the pool, and what it leaves alone, the
  registry and the application.
\<close>

definition server_rest ::
  "('k, 'a, 'z) server_world_scheme \<Rightarrow> (bytes \<times> rpc_request pool \<times> bool) \<times> ('a rpc_service \<times> 'a)" where
  "server_rest w = ((promised w, srv_pool w, srv_stopped w), (service w, app w))"

definition admit ::
  "(rpc_response \<Rightarrow> bytes option) \<Rightarrow> rpc_request \<Rightarrow> bytes \<times> rpc_request pool \<times> bool \<Rightarrow>
     bytes \<times> rpc_request pool \<times> bool" where
  "admit ser m s =
     (case s of (out, p, stopped) \<Rightarrow>
        if stopped then (out @ reply_bytes ser (shutting_down_response m), p, stopped)
        else if fst (ThreadPool_TryAddTask m p) then (out, snd (ThreadPool_TryAddTask m p), stopped)
        else (out @ reply_bytes ser (busy_response m), p, stopped))"

definition server_effect ::
  "(rpc_response \<Rightarrow> bytes option) \<Rightarrow> rpc_request \<Rightarrow> (bytes \<times> rpc_request pool \<times> bool) \<times> 's \<Rightarrow>
     (bytes \<times> rpc_request pool \<times> bool) \<times> 's" where
  "server_effect ser m s = (admit ser m (fst s), snd s)"

lemma fold_server_effect: "fold (server_effect ser) ms (x, y) = (fold (admit ser) ms x, y)"
  by (induction ms arbitrary: x) (simp_all add: server_effect_def)

lemma open_in_loop_pool [simp]: "open_in_loop self (w\<lparr>srv_pool := p\<rparr>) = open_in_loop self w"
  by (simp add: open_in_loop_def conn_ok_def)

lemma promised_pool [simp]: "promised (w\<lparr>srv_pool := p\<rparr>) = promised w"
  by (simp add: promised_def)

lemma encode_and_send_ok:
  assumes "open_in_loop (e_self env) w"
  shows "\<exists>w'. encode_and_send env response w = Some w' \<and> open_in_loop (e_self env) w' \<and>
    promised w' = promised w @ reply_bytes (e_ser env) response \<and> send_frame w w'"
proof (cases "Codec_encode (e_ser env) response")
  case None
  then show ?thesis using assms by (simp add: encode_and_send_def reply_bytes_def)
next
  case (Some f)
  obtain w' where w': "TcpConnection_send (e_sys env) (e_junk env) (e_self env) f w = Some w'"
    "open_in_loop (e_self env) w'" "promised w' = promised w @ f"
    using conn_sink.send_ok [OF assms] by blast
  then have "TcpConnection_sendInLoop (e_sys env) (e_junk env) f w = Some w'"
    using assms by (simp add: TcpConnection_send_def EventLoop_IsInLoopThread_def open_in_loop_def conn_ok_def)
  from sendInLoop_frame [OF this] show ?thesis
    using w' Some by (simp add: encode_and_send_def reply_bytes_def)
qed

lemma handle_request_ok:
  fixes w :: "('k, 'a, 'z) server_world_scheme"
  assumes "open_in_loop (e_self env) w"
  shows "\<exists>w'. RpcServer_handle_request env m w = Some w' \<and> open_in_loop (e_self env) w' \<and>
    in_view w' = in_view w \<and> server_rest w' = server_effect (e_ser env) m (server_rest w) \<and>
    service w' = service w \<and> app w' = app w"
proof -
  have fr: "in_view w' = in_view w \<and> srv_pool w' = srv_pool w \<and> srv_stopped w' = srv_stopped w \<and>
      service w' = service w \<and> app w' = app w"
    if "send_frame w w'" for w w' :: "('k, 'a, 'z) server_world_scheme"
    using send_frame_field [OF that, of in_view] send_frame_field [OF that, of srv_pool]
      send_frame_field [OF that, of srv_stopped] send_frame_field [OF that, of service]
      send_frame_field [OF that, of app] by (simp add: send_erased_def in_view_def)
  show ?thesis
  proof (cases "srv_stopped w")
    case True
    then show ?thesis
      using encode_and_send_ok [OF assms, of "shutting_down_response m"] fr
      by (auto simp: RpcServer_handle_request_def server_rest_def server_effect_def admit_def)
  next
    case False
    obtain added p where t: "ThreadPool_TryAddTask m (srv_pool w) = (added, p)" by force
    have ow: "open_in_loop (e_self env) (w\<lparr>srv_pool := p\<rparr>)" using assms by simp
    have same: "\<not> added \<Longrightarrow> p = srv_pool w" using t by (auto simp: ThreadPool_TryAddTask_def split: if_splits)
    show ?thesis
    proof (cases added)
      case True
      then show ?thesis using t False ow
        by (simp add: RpcServer_handle_request_def server_rest_def server_effect_def admit_def in_view_def)
    next
      case na: False
      obtain w' where w': "encode_and_send env (busy_response m) (w\<lparr>srv_pool := p\<rparr>) = Some w'"
        "open_in_loop (e_self env) w'"
        "promised w' = promised w @ reply_bytes (e_ser env) (busy_response m)" "send_frame (w\<lparr>srv_pool := p\<rparr>) w'"
        using encode_and_send_ok [OF ow, of "busy_response m"] by auto
      then show ?thesis using t False na same fr [OF w'(4)]
        by (simp add: RpcServer_handle_request_def server_rest_def server_effect_def admit_def in_view_def)
    qed
  qed
qed

interpretation server_reader: frame_reader "open_in_loop (e_self env)" in_view in_feed in_consume "e_parse env"
  "RpcServer_onMessage env" "RpcServer_handle_request env"
  "TcpConnection_close (e_sys env) (e_junk env) (e_cbs env) (e_self env)" server_rest "server_effect (e_ser env)"
  for env :: "('k, ('a, 'z) server_world_ext) rpc_env"
proof (intro frame_reader.intro conn_input.byte_stream_axioms, unfold_locales)
  fix w :: "('k, 'a, 'z) server_world_scheme"
  assume w: "open_in_loop (e_self env) w"
  note wf = open_in_loop_wf [OF w]
  show "\<exists>w'. RpcServer_handle_request env m w = Some w' \<and> open_in_loop (e_self env) w' \<and>
      in_view w' = in_view w \<and> server_rest w' = server_effect (e_ser env) m (server_rest w)" for m
    using handle_request_ok [OF w] by blast
  note dl = length_view [OF wf, folded in_view_def]
  show "RpcServer_onMessage env w = Some w" if "Codec_decode (e_parse env) (in_view w) = (Incomplete, None, 0)"
    using that by (subst RpcServer_onMessage.simps) (simp add: in_view_def)
  show "RpcServer_onMessage env w = TcpConnection_close (e_sys env) (e_junk env) (e_cbs env) (e_self env) w"
    if d: "Codec_decode (e_parse env) (in_view w) = (Corrupted, mo, c)" for mo c
  proof -
    have "4 \<le> length (in_view w)" using d by (auto simp: Codec_decode_cases split: if_splits)
    then show ?thesis using d dl by (subst RpcServer_onMessage.simps) (simp add: in_view_def)
  qed
  show "RpcServer_onMessage env w =
      Option.bind (RpcServer_handle_request env m (in_consume c w)) (RpcServer_onMessage env)"
    if d: "Codec_decode (e_parse env) (in_view w) = (Ok, Some m, c)" for m c
  proof -
    have "4 \<le> length (in_view w)" using decode_Ok_bounds [OF d] by simp
    then show ?thesis using d dl
      by (subst RpcServer_onMessage.simps) (simp add: in_view_def in_consume_def)
  qed
qed (simp_all add: in_defs server_rest_def)

section \<open>Requests in bulk\<close>

lemma effect_stopped:
  "fold (admit ser) ms (out, p, True) =
     (out @ concat (map (\<lambda>m. reply_bytes ser (shutting_down_response m)) ms), p, True)"
  by (induction ms arbitrary: out) (simp_all add: admit_def)

lemma effect_running:
  assumes "\<not> isClosed p"
  shows "fold (admit ser) ms (out, p, False) =
     (out @ concat (map (\<lambda>m. reply_bytes ser (busy_response m)) (drop (maxQueueSize p - length (tasks p)) ms)),
      p\<lparr>tasks := tasks p @ take (maxQueueSize p - length (tasks p)) ms\<rparr>, False)"
  using assms
proof (induction ms arbitrary: out p)
  case (Cons m ms)
  show ?case
  proof (cases "maxQueueSize p \<le> length (tasks p)")
    case True
    then show ?thesis using Cons.prems Cons.IH [of p]
      by (simp add: admit_def ThreadPool_TryAddTask_def)
  next
    case False
    then have s: "maxQueueSize p - length (tasks p) = Suc (maxQueueSize p - Suc (length (tasks p)))" by simp
    have st: "admit ser m (out, p, False) = (out, p\<lparr>tasks := tasks p @ [m]\<rparr>, False)"
      using False Cons.prems by (simp add: admit_def ThreadPool_TryAddTask_def)
    show ?thesis using Cons.prems Cons.IH [of "p\<lparr>tasks := tasks p @ [m]\<rparr>" out] unfolding s by (simp add: st)
  qed
qed simp

lemma Invoke_request_id:
  "RpcService_Invoke bad svc request response a = (Invoke_returned b, resp, a') \<Longrightarrow>
     rs_request_id resp = rq_request_id request"
  by (auto simp: RpcService_Invoke_def Let_def split: option.splits prod.splits cb_outcome.splits)

section \<open>Properties\<close>

text \<open>A server with an empty registry on a fresh connection, for the witnesses.\<close>

definition demo_server :: "nat \<Rightarrow> bool \<Rightarrow> (unit, unit) server_world" where
  "demo_server q stopped = conn_world.extend (conn_world.truncate (demo_conn [] []))
     (server_world.fields RpcService_new () (ThreadPool_new q) stopped)"

definition demo_env :: "nat \<Rightarrow> (unit, (unit, unit) server_world_ext) rpc_env" where
  "demo_env self = \<lparr>e_sys = null_kernel, e_junk = 0,
     e_cbs = \<lparr>connectionCallback = None, messageCallback = None, closeCallback = None, layerCallback = (\<lambda>_ _. None)\<rparr>, e_self = self,
     e_ser = (\<lambda>r. Some (rs_request_id r)), e_parse = (\<lambda>bs. Some (RpcRequest_new\<lparr>rq_request_id := bs\<rparr>)),
     e_bad_call = []\<rparr>"

lemma demo_server_fields [simp]:
  "conn_ok (demo_server q stopped)" "thread_id (demo_server q stopped) = 0"
  "in_view (demo_server q stopped) = []" "promised (demo_server q stopped) = []"
  "srv_pool (demo_server q stopped) = ThreadPool_new q" "srv_stopped (demo_server q stopped) = stopped"
  "alive (demo_server q stopped)" "refs (demo_server q stopped) = 1" "pending (demo_server q stopped) = []"
  "service (demo_server q stopped) = RpcService_new"
  by (auto simp: demo_server_def demo_conn_def conn_world.defs server_world.defs conn_ok_def in_view_def
      promised_def alive_def Buffer_ReadableBytes_def wf_buffer_def Buffer_new_def Buffer_PeekStringView_def)

lemma demo_env_fields [simp]: "e_self (demo_env self) = self" "e_parse (demo_env self) bs = Some (RpcRequest_new\<lparr>rq_request_id := bs\<rparr>)"
  "e_ser (demo_env self) r = Some (rs_request_id r)" "e_bad_call (demo_env self) = []"
  by (simp_all add: demo_env_def)

text \<open>Two requests as the demo environment frames them: the body of a frame is the request id.\<close>

definition demo_stream :: bytes where
  "demo_stream = store_u32 (htonl 1) @ [7] @ store_u32 (htonl 1) @ [8]"

lemma demo_stream_frames:
  "split_frames (e_parse (demo_env self)) demo_stream =
     ([RpcRequest_new\<lparr>rq_request_id := [7]\<rparr>, RpcRequest_new\<lparr>rq_request_id := [8]\<rparr>], [], False)"
proof -
  let ?p = "e_parse (demo_env self)"
  have d: "Codec_decode ?p (store_u32 (htonl 1) @ [x] @ w) = (Ok, Some (RpcRequest_new\<lparr>rq_request_id := [x]\<rparr>), 5)"
    for x w using decode_encoded [of "[x]" ?p w] by (simp add: UINT32_MAX_def)
  have "split_frames ?p (store_u32 (htonl 1) @ [8]) = ([RpcRequest_new\<lparr>rq_request_id := [8]\<rparr>], [], False)"
    using split_frames_Ok [OF d [of 8 "[]"], of "[]" "[]" False] split_frames_short [of "[]" ?p] by simp
  then show ?thesis
    using split_frames_Ok [OF d [of 7 "store_u32 (htonl 1) @ [8]"],
        of "[RpcRequest_new\<lparr>rq_request_id := [8]\<rparr>]" "[]" False] by (simp add: demo_stream_def)
qed

text \<open>
  C10. Requests that arrive on an open connection while the server runs, however the bytes are cut
  into reads and with no worker taking a task meanwhile: in order, each goes to the pool's queue as
  long as there is room, and every one after that is answered with \<open>SERVER_BUSY\<close>; none is lost or
  answered twice, and an incomplete tail stays in the buffer.
\<close>

theorem server_queues_or_answers_busy:
  assumes "open_in_loop (e_self env) w" and "in_view w = []"
    and "split_frames (e_parse env) (concat cs) = (ms, r, False)"
    and "\<not> srv_stopped w" and "\<not> isClosed (srv_pool w)"
  shows "\<exists>w'. deliver in_feed (RpcServer_onMessage env) cs w = Some w' \<and> in_view w' = r \<and>
    tasks (srv_pool w') = tasks (srv_pool w) @
      take (maxQueueSize (srv_pool w) - length (tasks (srv_pool w))) ms \<and>
    promised w' = promised w @ concat (map (\<lambda>m. reply_bytes (e_ser env) (busy_response m))
      (drop (maxQueueSize (srv_pool w) - length (tasks (srv_pool w))) ms))"
proof -
  have "split_frames (e_parse env) (in_view w) = ([], in_view w, False)"
    using assms(2) by (simp add: split_frames_short)
  from server_reader.deliver_frames [OF assms(1) this, of cs ms r] assms(2,3)
  obtain w' where "deliver in_feed (RpcServer_onMessage env) cs w = Some w'" "in_view w' = r"
    "server_rest w' = fold (server_effect (e_ser env)) ms (server_rest w)" by auto
  then show ?thesis using assms(4) effect_running [OF assms(5), of "e_ser env" ms "promised w"]
    by (auto simp: server_rest_def fold_server_effect)
qed

theorem server_queues_or_answers_busy_witness:
  "\<exists>w'. deliver in_feed (RpcServer_onMessage (demo_env 0)) [take 6 demo_stream, drop 6 demo_stream] (demo_server 1 False) = Some w' \<and>
     tasks (srv_pool w') = [RpcRequest_new\<lparr>rq_request_id := [7]\<rparr>] \<and>
     promised w' = reply_bytes (e_ser (demo_env 0)) (busy_response (RpcRequest_new\<lparr>rq_request_id := [8]\<rparr>))"
  using server_queues_or_answers_busy [of "demo_env 0" "demo_server 1 False" "[take 6 demo_stream, drop 6 demo_stream]"]
    demo_stream_frames [of 0]
  by (fastforce simp: open_in_loop_def ThreadPool_new_def)

text \<open>
  Once the server is stopping, every request that arrives is answered at once, in order, with
  \<open>SERVER_SHUTTING_DOWN\<close> and its own request id, and the pool is not touched.
\<close>

theorem server_rejects_while_stopping:
  assumes "open_in_loop (e_self env) w" and "in_view w = []"
    and "split_frames (e_parse env) (concat cs) = (ms, r, False)" and "srv_stopped w"
  shows "\<exists>w'. deliver in_feed (RpcServer_onMessage env) cs w = Some w' \<and> in_view w' = r \<and>
    srv_pool w' = srv_pool w \<and>
    promised w' = promised w @ concat (map (\<lambda>m. reply_bytes (e_ser env) (shutting_down_response m)) ms)"
proof -
  have "split_frames (e_parse env) (in_view w) = ([], in_view w, False)"
    using assms(2) by (simp add: split_frames_short)
  from server_reader.deliver_frames [OF assms(1) this, of cs ms r] assms(2,3)
  obtain w' where "deliver in_feed (RpcServer_onMessage env) cs w = Some w'" "in_view w' = r"
    "server_rest w' = fold (server_effect (e_ser env)) ms (server_rest w)" by auto
  then show ?thesis using assms(4) effect_stopped [of "e_ser env" ms "promised w" "srv_pool w"]
    by (auto simp: server_rest_def fold_server_effect)
qed

theorem server_rejects_while_stopping_witness:
  "\<exists>w'. deliver in_feed (RpcServer_onMessage (demo_env 0)) [demo_stream] (demo_server 1 True) = Some w' \<and>
     tasks (srv_pool w') = []"
  using server_rejects_while_stopping [of "demo_env 0" "demo_server 1 True" "[demo_stream]"]
    demo_stream_frames [of 0]
  by (fastforce simp: open_in_loop_def ThreadPool_new_def)



lemma task_reply:
  assumes "conn_ok w" and "thread_id w \<noteq> e_self env"
    and "RpcService_Invoke (e_bad_call env) (service w) m RpcResponse_new (app w) = (result, response, a)"
    and "Codec_encode (e_ser env) response = Some frame"
  shows "(\<forall>b. result = Invoke_returned b \<longrightarrow> rs_request_id response = rq_request_id m \<and>
      RpcServer_task env m w = Some (EventLoop_QueueInLoop (Fn (CB_send frame)) (w\<lparr>app := a, refs := refs w + 1\<rparr>))) \<and>
    (result = Invoke_propagated \<longrightarrow> RpcServer_task env m w = Some (w\<lparr>app := a\<rparr>)) \<and>
    (\<not> alive v \<longrightarrow> RpcServer_task env m v = Some v)"
proof -
  have al: "alive w" "0 < refs w" "cstate w = Connected"
    using assms(1) by (auto simp: alive_def conn_ok_def)
  show ?thesis
  proof (intro conjI allI impI)
    fix b assume r: "result = Invoke_returned b"
    show "rs_request_id response = rq_request_id m" using assms(3) unfolding r by (rule Invoke_request_id)
    show "RpcServer_task env m w =
        Some (EventLoop_QueueInLoop (Fn (CB_send frame)) (w\<lparr>app := a, refs := refs w + 1\<rparr>))"
      using assms(2-4) al r
      by (simp add: RpcServer_task_def encode_and_send_def TcpConnection_send_def EventLoop_IsInLoopThread_def
          release_def EventLoop_QueueInLoop_def queue_defs Let_def)
  qed (use assms(2-4) al in \<open>simp_all add: RpcServer_task_def release_def Let_def\<close>)
qed

text \<open>
  A pool task answers its request once: if the handler returns or throws a \<open>std::exception\<close>, one
  response with the request's id is queued for the loop, which sends it as long as the connection
  is open; if the handler throws anything else, no response at all is sent; and for a connection
  that is gone the handler is not even called.
\<close>

theorem task_replies_once:
  assumes "conn_ok w" and "thread_id w \<noteq> e_self env"
    and "RpcService_Invoke (e_bad_call env) (service w) m RpcResponse_new (app w) = (result, response, a)"
    and "Codec_encode (e_ser env) response = Some frame"
  shows "(\<forall>b. result = Invoke_returned b \<longrightarrow> rs_request_id response = rq_request_id m \<and>
      RpcServer_task env m w = Some (EventLoop_QueueInLoop (Fn (CB_send frame)) (w\<lparr>app := a, refs := refs w + 1\<rparr>))) \<and>
    (result = Invoke_propagated \<longrightarrow> RpcServer_task env m w = Some (w\<lparr>app := a\<rparr>)) \<and>
    (\<not> alive v \<longrightarrow> RpcServer_task env m v = Some v)"
  by (rule task_reply [OF assms])

theorem task_replies_once_witness:
  "\<exists>w'. RpcServer_task (demo_env 3) (RpcRequest_new\<lparr>rq_request_id := [7]\<rparr>) (demo_server 1 False) = Some w' \<and>
     pending w' = [Fn (CB_send (store_u32 (htonl 1) @ [7]))]"
proof -
  let ?m = "RpcRequest_new\<lparr>rq_request_id := [7]\<rparr>"
  obtain resp where i: "RpcService_Invoke (e_bad_call (demo_env 3)) (service (demo_server 1 False)) ?m RpcResponse_new
      (app (demo_server 1 False)) = (Invoke_returned False, resp, ())" "rs_request_id resp = [7]"
    by (simp add: RpcService_Invoke_def RpcService_new_def Let_def)
  have e: "Codec_encode (e_ser (demo_env 3)) resp = Some (store_u32 (htonl 1) @ [7])"
    using i(2) by (simp add: Codec_encode_def UINT32_MAX_def)
  have "RpcServer_task (demo_env 3) ?m (demo_server 1 False) = Some (EventLoop_QueueInLoop
      (Fn (CB_send (store_u32 (htonl 1) @ [7]))) (demo_server 1 False\<lparr>app := (), refs := refs (demo_server 1 False) + 1\<rparr>))"
    using task_replies_once [OF _ _ i(1) e, THEN conjunct1, rule_format, of False] by simp
  then show ?thesis by (simp add: EventLoop_QueueInLoop_def queue_defs)
qed

end
