(* ===== verification/RpcServerLife.thy ===== *)
theory RpcServerLife
  imports RpcServerModel TcpServerModel
begin

text \<open>
  \<open>code/rpc/rpc_server.cc\<close>: construction, start and stop of the server.

  The world is that of \<open>TcpServer\<close>, extended with the flag and the pool. \<open>conn->send\<close> on the connection object
  \<open>i\<close> is the argument \<open>send\<close> (in detail \<open>TcpConnection_send\<close>). Waiting for the pool and joining the loop's
  thread are functions from the state at the call to the state on return, \<open>None\<close> if they do not return.
\<close>

record 'k server_life = "'k tcp_server_world" +
  life_stopped :: bool
  life_pool :: "rpc_request pool option"
  sent_to :: "(nat \<times> bytes) list"

definition RpcServer_new :: "int \<Rightarrow> nat \<Rightarrow> (server_cb, 'k) event_loop \<Rightarrow> 'k server_life" where
  "RpcServer_new fd max_queue L =
     tcp_server_world.extend (TcpServer_new fd L) (server_life.fields False (Some (ThreadPool_new max_queue)) [])"

definition RpcServer_Start ::
  "('k, 'z server_life_ext) tcp_server_env \<Rightarrow> ptr \<Rightarrow> ('k, 'z) server_life_scheme \<Rightarrow> ('k, 'z) server_life_scheme option" where
  "RpcServer_Start env p w = (if life_stopped w then Some w else TcpServer_Start env p w)"

text \<open>The lambda of step 2: the shutdown notice to every connection, if it can be encoded.\<close>

definition goaway_tag :: bytes where "goaway_tag = [1]"

definition RpcServer_goaway ::
  "(rpc_response \<Rightarrow> bytes option) \<Rightarrow> (nat \<Rightarrow> bytes \<Rightarrow> ('k, 'z) server_life_scheme \<Rightarrow> ('k, 'z) server_life_scheme option) \<Rightarrow>
     ('k, 'z) server_life_scheme \<Rightarrow> ('k, 'z) server_life_scheme option" where
  "RpcServer_goaway ser send w =
     TcpServer_ForEachConnectionInLoop
       (\<lambda>i w. case Codec_encode ser goaway_response of None \<Rightarrow> Some w | Some encoded \<Rightarrow> send i encoded w) w"

definition RpcServer_Stop ::
  "('k, 'z server_life_ext) tcp_server_env \<Rightarrow> (rpc_response \<Rightarrow> bytes option) \<Rightarrow>
     (nat \<Rightarrow> bytes \<Rightarrow> ('k, 'z) server_life_scheme \<Rightarrow> ('k, 'z) server_life_scheme option) \<Rightarrow>
     (('k, 'z) server_life_scheme \<Rightarrow> ('k, 'z) server_life_scheme option) \<Rightarrow>
     (('k, 'z) server_life_scheme \<Rightarrow> ('k, 'z) server_life_scheme option) \<Rightarrow>
     ('k, 'z) server_life_scheme \<Rightarrow> ('k, 'z) server_life_scheme option" where
  "RpcServer_Stop env ser send wait_for_tasks join w =
     (if life_stopped w then Some w
      else
        Option.bind (TcpServer_StopAccepting env (w\<lparr>life_stopped := True\<rparr>)) (\<lambda>w1.
        Option.bind
          (if EventLoop_IsInLoopThread (s_self env) w1 then RpcServer_goaway ser send w1
           else Some (EventLoop_QueueInLoop (Fn (SC_user goaway_tag)) w1)) (\<lambda>w2.
        Option.bind (wait_for_tasks w2) (\<lambda>w3.
        Option.bind (TcpServer_Stop env w3) (\<lambda>w4.
        map_option (\<lambda>w5. w5\<lparr>life_pool := None\<rparr>) (join (EventLoop_Quit w4)))))))"

text \<open>The destructor: \<open>Stop\<close>, and then that of \<open>tcp_server_\<close>; \<open>loop_\<close> outlives it.\<close>

definition RpcServer_delete ::
  "('k, 'z server_life_ext) tcp_server_env \<Rightarrow> (rpc_response \<Rightarrow> bytes option) \<Rightarrow>
     (nat \<Rightarrow> bytes \<Rightarrow> ('k, 'z) server_life_scheme \<Rightarrow> ('k, 'z) server_life_scheme option) \<Rightarrow>
     (('k, 'z) server_life_scheme \<Rightarrow> ('k, 'z) server_life_scheme option) \<Rightarrow>
     (('k, 'z) server_life_scheme \<Rightarrow> ('k, 'z) server_life_scheme option) \<Rightarrow>
     ('k, 'z) server_life_scheme \<Rightarrow> ('k, 'z) server_life_scheme option" where
  "RpcServer_delete env ser send wait_for_tasks join w =
     Option.bind (RpcServer_Stop env ser send wait_for_tasks join w) (TcpServer_delete env)"

section \<open>Properties\<close>

definition record_send :: "nat \<Rightarrow> bytes \<Rightarrow> ('k, 'z) server_life_scheme \<Rightarrow> ('k, 'z) server_life_scheme option" where
  "record_send i b w = Some (w\<lparr>sent_to := sent_to w @ [(i, b)]\<rparr>)"

lemma goaway_each:
  assumes "Codec_encode ser goaway_response = Some b"
  shows "for_each (\<lambda>i w. case Codec_encode ser goaway_response of None \<Rightarrow> Some w | Some encoded \<Rightarrow> record_send i encoded w) is w =
    Some (w\<lparr>sent_to := sent_to w @ map (\<lambda>i. (i, b)) is\<rparr>)"
  using assms by (induction "is" arbitrary: w) (simp_all add: record_send_def)



end
