(* ===== verification/RpcClientModel.thy ===== *)
theory RpcClientModel
  imports CodecModel RpcMessages TcpClientModel "HOL-Library.Multiset"
begin

text \<open>
  \<open>code/rpc/rpc_client.cc\<close>, \<open>rpc_client.h\<close>: calls, responses, timeouts and shutdown of a client.

  The world is the client's connection extended with the pending calls, the flags and a record of
  the callbacks made. \<open>pending_calls_\<close> is an association list with distinct keys. What a user
  callback does is the function \<open>c_user\<close> of the environment; an empty \<open>std::function\<close> is \<open>None\<close>.
  \<open>std::hash\<close> on strings is unspecified and is the parameter \<open>c_hash\<close>. A timeout lambda is the timer
  callback \<open>CB_layer request_id\<close>. Random numbers and the clock reach \<open>GenerateRequestId\<close> as arguments.
\<close>

section \<open>Request ids\<close>

definition hex_digit :: "nat \<Rightarrow> byte" where
  "hex_digit n = str ''0123456789abcdef'' ! n"

fun to_hex :: "nat \<Rightarrow> bytes" where
  "to_hex n = (if n < 16 then [hex_digit n] else to_hex (n div 16) @ [hex_digit (n mod 16)])"

declare to_hex.simps [simp del]

text \<open>\<open>std::setfill('0') << std::setw(16)\<close>\<close>

definition setw16 :: "bytes \<Rightarrow> bytes" where
  "setw16 s = replicate (16 - length s) (hex_digit 0) @ s"

definition RpcClient_GenerateRequestId :: "64 word \<Rightarrow> 64 word \<Rightarrow> bytes" where
  "RpcClient_GenerateRequestId millis random = setw16 (to_hex (unat millis)) @ setw16 (to_hex (unat random))"

section \<open>State\<close>

record ('k, 'u) client_world = "'k tcp_client_world" +
  pending_calls :: "(bytes \<times> 'u option) list"
  cli_stopped :: bool
  pending_locked :: bool
  answered :: "('u \<times> rpc_response) list"

record ('k, 'u, 'z) client_env =
  c_sys :: "'k kernel"
  c_junk :: "64 word"
  c_cbs :: "('k, ('u, 'z) client_world_ext tcp_client_world_ext) conn_callbacks"
  c_self :: nat
  c_clock :: "nat \<Rightarrow> int"
  c_hash :: "bytes \<Rightarrow> 64 word"
  c_ser :: "rpc_request \<Rightarrow> bytes option"
  c_parse :: "bytes \<Rightarrow> rpc_response option"
  c_user :: "'u \<Rightarrow> rpc_response \<Rightarrow> ('k, 'u, 'z) client_world_scheme \<Rightarrow> ('k, 'u, 'z) client_world_scheme option"

text \<open>\<open>int timer_id = std::hash<std::string>{}(request_id)\<close>: the low 32 bits, signed.\<close>

definition timer_id :: "('k, 'u, 'z) client_env \<Rightarrow> bytes \<Rightarrow> int" where
  "timer_id env request_id = sint (ucast (c_hash env request_id) :: 32 word)"

section \<open>The table of pending calls\<close>

text \<open>Under the mutex: look an id up, move its callback out and erase the entry; or take the whole table.\<close>

definition take_pending :: "bytes \<Rightarrow> (bytes \<times> 'u option) list \<Rightarrow> 'u option \<times> (bytes \<times> 'u option) list" where
  "take_pending request_id tbl =
     (case map_of tbl request_id of
        None \<Rightarrow> (None, tbl)
      | Some cb \<Rightarrow> (cb, AList.delete request_id tbl))"

definition make_response :: "bytes \<Rightarrow> RpcErrorCode \<Rightarrow> bytes \<Rightarrow> rpc_response" where
  "make_response request_id code msg =
     RpcResponse_new\<lparr>rs_request_id := request_id, rs_code := code_value code, rs_msg := msg\<rparr>"

text \<open>\<open>if (cb) cb(resp);\<close>\<close>

definition respond ::
  "('k, 'u, 'z) client_env \<Rightarrow> 'u option \<Rightarrow> rpc_response \<Rightarrow> ('k, 'u, 'z) client_world_scheme \<Rightarrow>
     ('k, 'u, 'z) client_world_scheme option" where
  "respond env cb resp w = (case cb of None \<Rightarrow> Some w | Some u \<Rightarrow> c_user env u resp w)"

definition client_call where
  "client_call env = conn_call (c_sys env) (c_junk env) (c_cbs env)"

definition remove_timer ::
  "('k, 'u, 'z) client_env \<Rightarrow> bytes \<Rightarrow> ('k, 'u, 'z) client_world_scheme \<Rightarrow> ('k, 'u, 'z) client_world_scheme option" where
  "remove_timer env request_id w =
     EventLoop_RemoveTimer (c_clock env) (client_call env) (c_self env) (timer_id env request_id) w"

section \<open>Operations\<close>

text \<open>The timeout lambda.\<close>

definition RpcClient_on_timeout ::
  "('k, 'u, 'z) client_env \<Rightarrow> bytes \<Rightarrow> ('k, 'u, 'z) client_world_scheme \<Rightarrow> ('k, 'u, 'z) client_world_scheme option" where
  "RpcClient_on_timeout env request_id w =
     (let (cb, tbl) = take_pending request_id (pending_calls w)
      in respond env cb (make_response request_id CLIENT_REQUEST_TIMEOUT (str ''request timeout''))
           (w\<lparr>pending_calls := tbl\<rparr>))"

text \<open>
  \<open>CallRaw\<close>, with the id it generated. When the client is not running, the callback is called
  without a test, so an empty one throws \<open>std::bad_function_call\<close>, and with \<open>pending_mutex_\<close> held:
  \<open>pending_locked\<close> says so, and locking the mutex again from that callback never returns (\<open>None\<close>).
  The other critical sections end before any callback is called.
\<close>

datatype call_end = Call_returned | Call_threw

definition RpcClient_CallRaw ::
  "('k, 'u, 'z) client_env \<Rightarrow> bytes \<Rightarrow> bytes \<Rightarrow> bytes \<Rightarrow> bytes \<Rightarrow> 'u option \<Rightarrow> int \<Rightarrow>
     ('k, 'u, 'z) client_world_scheme \<Rightarrow> (call_end \<times> ('k, 'u, 'z) client_world_scheme) option" where
  "RpcClient_CallRaw env request_id service_name method_name request_body callback timeout_ms w =
     (if pending_locked w then None
      else if cli_stopped w \<or> \<not> tc_connected w then
        (case callback of
           None \<Rightarrow> Some (Call_threw, w)
         | Some u \<Rightarrow>
             map_option (\<lambda>w'. (Call_returned, w'\<lparr>pending_locked := False\<rparr>))
               (c_user env u (make_response request_id CLIENT_NOT_RUNNING (str ''client stopped/disconnected''))
                  (w\<lparr>pending_locked := True\<rparr>)))
      else
        Option.bind
          (EventLoop_AddTimer (c_clock env) (client_call env) (c_self env) (timer_id env request_id)
             (CB_layer request_id) timeout_ms
             (w\<lparr>pending_calls := AList.update request_id callback (pending_calls w)\<rparr>))
          (\<lambda>w1.
             let request = RpcRequest_new\<lparr>rq_service_name := service_name, rq_method_name := method_name,
                   rq_request_id := request_id, rq_body := request_body\<rparr>
             in map_option (Pair Call_returned)
                  (case Codec_encode (c_ser env) request of
                     None \<Rightarrow>
                       (let (cb, tbl) = take_pending request_id (pending_calls w1)
                        in Option.bind (remove_timer env request_id (w1\<lparr>pending_calls := tbl\<rparr>))
                             (respond env cb (make_response request_id CLIENT_ENCODE_FAILED (str ''encode request failed''))))
                   | Some encoded \<Rightarrow> TcpClient_Send (c_sys env) (c_junk env) (c_self env) encoded w1)))"

text \<open>One response that \<open>onMessage\<close> has decoded, and the loop.\<close>

definition RpcClient_handle_response ::
  "('k, 'u, 'z) client_env \<Rightarrow> rpc_response \<Rightarrow> ('k, 'u, 'z) client_world_scheme \<Rightarrow>
     ('k, 'u, 'z) client_world_scheme option" where
  "RpcClient_handle_response env response w =
     (let (cb, tbl) = take_pending (rs_request_id response) (pending_calls w)
      in Option.bind (remove_timer env (rs_request_id response) (w\<lparr>pending_calls := tbl\<rparr>))
           (respond env cb response))"

partial_function (option) RpcClient_onMessage ::
  "('k, 'u, 'z) client_env \<Rightarrow> ('k, 'u, 'z) client_world_scheme \<Rightarrow> ('k, 'u, 'z) client_world_scheme option" where
  "RpcClient_onMessage env w =
     (if 4 \<le> Buffer_ReadableBytes (in_buf w) then
        (case Codec_decode (c_parse env) (Buffer_PeekStringView (in_buf w)) of
           (status, response, consumed) \<Rightarrow>
             (case status of
                Incomplete \<Rightarrow> Some w
              | Corrupted \<Rightarrow> TcpConnection_close (c_sys env) (c_junk env) (c_cbs env) (c_self env) w
              | Ok \<Rightarrow>
                  Option.bind
                    (RpcClient_handle_response env (the response)
                       (w\<lparr>in_buf := Buffer_Retrieve consumed (in_buf w)\<rparr>))
                    (RpcClient_onMessage env)))
      else Some w)"

fun drop_each ::
  "('k, 'u, 'z) client_env \<Rightarrow> RpcErrorCode \<Rightarrow> bytes \<Rightarrow> (bytes \<times> 'u option) list \<Rightarrow>
     ('k, 'u, 'z) client_world_scheme \<Rightarrow> ('k, 'u, 'z) client_world_scheme option" where
  "drop_each env code msg [] w = Some w"
| "drop_each env code msg ((req_id, cb) # tbl) w =
     Option.bind (remove_timer env req_id w) (\<lambda>w1.
     Option.bind (respond env cb (make_response req_id code msg) w1)
       (drop_each env code msg tbl))"

definition RpcClient_DropAllPending ::
  "('k, 'u, 'z) client_env \<Rightarrow> RpcErrorCode \<Rightarrow> bytes \<Rightarrow> ('k, 'u, 'z) client_world_scheme \<Rightarrow>
     ('k, 'u, 'z) client_world_scheme option" where
  "RpcClient_DropAllPending env code msg w =
     (if pending_locked w then None
      else drop_each env code msg (pending_calls w) (w\<lparr>pending_calls := []\<rparr>))"

definition RpcClient_onConnection ::
  "('k, 'u, 'z) client_env \<Rightarrow> ('k, 'u, 'z) client_world_scheme \<Rightarrow> ('k, 'u, 'z) client_world_scheme option" where
  "RpcClient_onConnection env w =
     (if cstate w = Connected then Some w
      else if \<not> cli_stopped w
        then RpcClient_DropAllPending env CLIENT_CONNECTION_DISCONNECTED (str ''tcp connection disconnected'') w
      else Some w)"

definition RpcClient_onError ::
  "('k, 'u, 'z) client_env \<Rightarrow> int \<Rightarrow> ('k, 'u, 'z) client_world_scheme \<Rightarrow> ('k, 'u, 'z) client_world_scheme option" where
  "RpcClient_onError env err w =
     (if \<not> cli_stopped w
      then RpcClient_DropAllPending env CLIENT_NETWORK_ERROR (str ''tcp client io error, err='' @ to_string err) w
      else Some w)"

section \<open>Construction, start and stop\<close>

text \<open>
  The constructor installs the callbacks of the \<open>TcpClient\<close>. \<open>sock\<close> and \<open>conn\<close> are the results of the
  system calls in the \<open>Connect\<close> that \<open>Start\<close> queues. The thread that \<open>Start\<close> creates runs \<open>EventLoop_Loop\<close>;
  joining it is the function \<open>join\<close> from the state at the call to the state the loop leaves, \<open>None\<close> if it
  does not end.
\<close>

definition Connect_tag :: bytes where "Connect_tag = [7]"

definition RpcClient_layer ::
  "('k, 'u, 'z) client_env \<Rightarrow> ('k, ('u, 'z) client_world_ext) tcp_client_env \<Rightarrow> errno + int \<Rightarrow> connect_result \<Rightarrow> bytes \<Rightarrow>
     ('k, 'u, 'z) client_world_scheme \<Rightarrow> ('k, 'u, 'z) client_world_scheme option" where
  "RpcClient_layer env tcp sock conn tag w =
     (if tag = Connect_tag then TcpClient_Connect tcp sock conn w else RpcClient_on_timeout env tag w)"

definition RpcClient_new ::
  "('k, 'u, 'z) client_env \<Rightarrow> ('k, ('u, 'z) client_world_ext) tcp_client_env \<Rightarrow> errno + int \<Rightarrow> connect_result \<Rightarrow>
     ('k, ('u, 'z) client_world_ext) tcp_client_env" where
  "RpcClient_new env tcp sock conn =
     (let tcp1 = tcp\<lparr>t_connectionCallback := Some (RpcClient_onConnection env),
            t_errorCallback := Some (RpcClient_onError env)\<rparr>;
          tcp2 = tcp1\<lparr>t_messageCallback := Some (RpcClient_onMessage (env\<lparr>c_cbs := TcpClient_conn_cbs tcp1\<rparr>))\<rparr>
      in tcp2\<lparr>t_layer := RpcClient_layer env tcp2 sock conn\<rparr>)"

definition RpcClient_Start :: "('k, 'u, 'z) client_world_scheme \<Rightarrow> ('k, 'u, 'z) client_world_scheme" where
  "RpcClient_Start w =
     (if cli_stopped w then w else EventLoop_QueueInLoop (Fn (CB_layer Connect_tag)) w)"

definition RpcClient_IsConnected :: "('k, 'u, 'z) client_world_scheme \<Rightarrow> bool" where
  "RpcClient_IsConnected w = TcpClient_IsConnected w"

definition RpcClient_Stop ::
  "('k, 'u, 'z) client_env \<Rightarrow> ('k, ('u, 'z) client_world_ext) tcp_client_env \<Rightarrow>
     (('k, 'u, 'z) client_world_scheme \<Rightarrow> ('k, 'u, 'z) client_world_scheme option) \<Rightarrow>
     ('k, 'u, 'z) client_world_scheme \<Rightarrow> ('k, 'u, 'z) client_world_scheme option" where
  "RpcClient_Stop env tcp join w =
     (if cli_stopped w then Some w
      else
        Option.bind (RpcClient_DropAllPending env CLIENT_NOT_RUNNING (str ''rpc client stopped'') (w\<lparr>cli_stopped := True\<rparr>)) (\<lambda>w1.
        Option.bind (TcpClient_Disconnect tcp w1) (\<lambda>w2.
        Option.bind (join (EventLoop_Quit w2)) (TcpClient_Stop tcp))))"

text \<open>The destructor: \<open>Stop\<close>, and then that of \<open>client_\<close>; \<open>loop_\<close> outlives it.\<close>

definition RpcClient_delete ::
  "('k, 'u, 'z) client_env \<Rightarrow> ('k, ('u, 'z) client_world_ext) tcp_client_env \<Rightarrow>
     (('k, 'u, 'z) client_world_scheme \<Rightarrow> ('k, 'u, 'z) client_world_scheme option) \<Rightarrow>
     ('k, 'u, 'z) client_world_scheme \<Rightarrow> ('k, 'u, 'z) client_world_scheme option" where
  "RpcClient_delete env tcp join w = Option.bind (RpcClient_Stop env tcp join w) (TcpClient_delete tcp)"

section \<open>The typed call\<close>

text \<open>
  \<open>Call<ReqT, RspT>\<close>: the serialiser of the request, the parser of the response and a fresh \<open>RspT\<close>
  are arguments. \<open>Call_raw_cb\<close> is what the stored lambda passes to the user's typed callback.
\<close>

datatype 'rsp typed_call = Typed_failed_now int bytes 'rsp | Typed_calls_raw bytes

definition RpcClient_Call :: "('req \<Rightarrow> bytes option) \<Rightarrow> 'rsp \<Rightarrow> 'req \<Rightarrow> 'rsp typed_call" where
  "RpcClient_Call serialize_req rsp_new req =
     (case serialize_req req of
        None \<Rightarrow> Typed_failed_now (code_value CLIENT_REQUEST_SERIALIZE_FAILED) (str ''serialize request failed'') rsp_new
      | Some body \<Rightarrow> Typed_calls_raw body)"

text \<open>A failed parse may leave fields set: \<open>partial\<close> is the message it leaves.\<close>

definition Call_raw_cb :: "(bytes \<Rightarrow> 'rsp option) \<Rightarrow> (bytes \<Rightarrow> 'rsp) \<Rightarrow> 'rsp \<Rightarrow> rpc_response \<Rightarrow> int \<times> bytes \<times> 'rsp" where
  "Call_raw_cb parse_rsp partial rsp_new resp =
     (if rs_code resp = code_value OK then
        (case parse_rsp (rs_body resp) of
           Some rsp \<Rightarrow> (rs_code resp, rs_msg resp, rsp)
         | None \<Rightarrow> (code_value CLIENT_RESPONSE_PARSE_FAILED, rs_msg resp, partial (rs_body resp)))
      else (rs_code resp, rs_msg resp, rsp_new))"

section \<open>The receive loop reads the frames of the stream\<close>

text \<open>The environment whose user callbacks are recorded and do nothing else.\<close>

definition recording :: "('k, 'u, 'z) client_env \<Rightarrow> ('k, 'u, 'z) client_env" where
  "recording env = env\<lparr>c_user := (\<lambda>u r w. Some (w\<lparr>answered := answered w @ [(u, r)]\<rparr>))\<rparr>"

lemma recording_simps [simp]:
  "c_sys (recording env) = c_sys env" "c_junk (recording env) = c_junk env" "c_cbs (recording env) = c_cbs env"
  "c_self (recording env) = c_self env" "c_parse (recording env) = c_parse env" "c_ser (recording env) = c_ser env"
  "c_user (recording env) u r w = Some (w\<lparr>answered := answered w @ [(u, r)]\<rparr>)"
  by (simp_all add: recording_def)

definition client_rest :: "('k, 'u, 'z) client_world_scheme \<Rightarrow> (bytes \<times> 'u option) list \<times> ('u \<times> rpc_response) list" where
  "client_rest w = (pending_calls w, answered w)"

definition client_effect ::
  "rpc_response \<Rightarrow> (bytes \<times> 'u option) list \<times> ('u \<times> rpc_response) list \<Rightarrow>
     (bytes \<times> 'u option) list \<times> ('u \<times> rpc_response) list" where
  "client_effect m s =
     (case s of (tbl, ans) \<Rightarrow>
        (AList.delete (rs_request_id m) tbl,
         ans @ (case map_of tbl (rs_request_id m) of Some (Some u) \<Rightarrow> [(u, m)] | _ \<Rightarrow> [])))"

lemma take_pending_spec:
  "take_pending i tbl = ((case map_of tbl i of Some cb \<Rightarrow> cb | None \<Rightarrow> None), AList.delete i tbl)"
proof (cases "map_of tbl i")
  case None
  then have "AList.delete i tbl = tbl" by (simp add: delete_id map_of_eq_None_iff)
  then show ?thesis using None by (simp add: take_pending_def)
qed (simp add: take_pending_def)

lemma remove_timer_in_loop:
  "thread_id w = c_self env \<Longrightarrow>
     remove_timer env i w = Some (w\<lparr>timer := TimeWheel_RemoveTimer (timer_id env i) (timer w)\<rparr>)"
  by (simp add: remove_timer_def EventLoop_RemoveTimer_def EventLoop_RunInLoop_def EventLoop_IsInLoopThread_def
      run_functor_def)

lemma remove_timer_other_thread:
  "thread_id w \<noteq> c_self env \<Longrightarrow>
     remove_timer env i w = Some (EventLoop_QueueInLoop (Fn_RemoveTimer (timer_id env i)) w)"
  by (simp add: remove_timer_def EventLoop_RemoveTimer_def EventLoop_RunInLoop_def EventLoop_IsInLoopThread_def)

lemma open_in_loop_client [simp]:
  "open_in_loop self (w\<lparr>pending_calls := p\<rparr>) = open_in_loop self w"
  "open_in_loop self (w\<lparr>answered := a\<rparr>) = open_in_loop self w"
  "open_in_loop self (w\<lparr>timer := tm\<rparr>) = open_in_loop self w"
  by (simp_all add: open_in_loop_def conn_ok_def)

lemma handle_response_ok:
  assumes "open_in_loop (c_self env) w"
  shows "\<exists>w'. RpcClient_handle_response (recording env) m w = Some w' \<and> open_in_loop (c_self env) w' \<and>
    in_view w' = in_view w \<and> client_rest w' = client_effect m (client_rest w)"
proof -
  have t: "thread_id w = c_self env" using assms by (simp add: open_in_loop_def)
  show ?thesis
    using assms t
    by (auto simp: RpcClient_handle_response_def take_pending_spec remove_timer_in_loop respond_def
        client_rest_def client_effect_def in_view_def Let_def split: option.splits)
qed

interpretation client_reader: frame_reader "open_in_loop (c_self env)" in_view in_feed in_consume "c_parse env"
  "RpcClient_onMessage (recording env)" "RpcClient_handle_response (recording env)"
  "TcpConnection_close (c_sys env) (c_junk env) (c_cbs env) (c_self env)" client_rest client_effect
  for env :: "('k, 'u, 'z) client_env"
proof (intro frame_reader.intro conn_input.byte_stream_axioms, unfold_locales)
  fix w :: "('k, 'u, 'z) client_world_scheme"
  assume w: "open_in_loop (c_self env) w"
  note dl = length_view [OF open_in_loop_wf [OF w], folded in_view_def]
  show "\<exists>w'. RpcClient_handle_response (recording env) m w = Some w' \<and> open_in_loop (c_self env) w' \<and>
      in_view w' = in_view w \<and> client_rest w' = client_effect m (client_rest w)" for m
    by (rule handle_response_ok [OF w])
  show "RpcClient_onMessage (recording env) w = Some w"
    if "Codec_decode (c_parse env) (in_view w) = (Incomplete, None, 0)"
    using that by (subst RpcClient_onMessage.simps) (simp add: in_view_def)
  show "RpcClient_onMessage (recording env) w = TcpConnection_close (c_sys env) (c_junk env) (c_cbs env) (c_self env) w"
    if d: "Codec_decode (c_parse env) (in_view w) = (Corrupted, mo, c)" for mo c
  proof -
    have "4 \<le> length (in_view w)" using d by (auto simp: Codec_decode_cases split: if_splits)
    then show ?thesis using d dl by (subst RpcClient_onMessage.simps) (simp add: in_view_def)
  qed
  show "RpcClient_onMessage (recording env) w =
      Option.bind (RpcClient_handle_response (recording env) m (in_consume c w)) (RpcClient_onMessage (recording env))"
    if d: "Codec_decode (c_parse env) (in_view w) = (Ok, Some m, c)" for m c
  proof -
    have "4 \<le> length (in_view w)" using decode_Ok_bounds [OF d] by simp
    then show ?thesis using d dl
      by (subst RpcClient_onMessage.simps) (simp add: in_view_def in_consume_def)
  qed
qed (simp_all add: in_defs client_rest_def)

text \<open>All the responses of a stream: each pending call gets the first response with its id.\<close>

lemma effect_responses:
  "\<exists>new. fold client_effect ms (tbl, ans) = (fold AList.delete (map rs_request_id ms) tbl, ans @ new) \<and>
     (\<forall>i. filter (\<lambda>(u, m). rs_request_id m = i) new =
        (case (map_of tbl i, find (\<lambda>m. rs_request_id m = i) ms) of
           (Some (Some u), Some m) \<Rightarrow> [(u, m)] | _ \<Rightarrow> []))"
proof (induction ms arbitrary: tbl ans)
  case Nil
  then show ?case by (auto split: option.splits)
next
  case (Cons m ms)
  let ?i = "rs_request_id m"
  let ?one = "case map_of tbl ?i of Some (Some u) \<Rightarrow> [(u, m)] | _ \<Rightarrow> []"
  obtain new where new: "fold client_effect ms (AList.delete ?i tbl, ans @ ?one) =
      (fold AList.delete (map rs_request_id ms) (AList.delete ?i tbl), (ans @ ?one) @ new)"
    "\<And>i. filter (\<lambda>(u, m). rs_request_id m = i) new =
        (case (map_of (AList.delete ?i tbl) i, find (\<lambda>m. rs_request_id m = i) ms) of
           (Some (Some u), Some m) \<Rightarrow> [(u, m)] | _ \<Rightarrow> [])"
    using Cons.IH [of "AList.delete ?i tbl" "ans @ ?one"] by (elim exE conjE) blast
  have st: "client_effect m (tbl, ans) = (AList.delete ?i tbl, ans @ ?one)" by (simp add: client_effect_def)
  have "filter (\<lambda>(u, m). rs_request_id m = i) (?one @ new) =
      (case (map_of tbl i, find (\<lambda>m. rs_request_id m = i) (m # ms)) of
         (Some (Some u), Some m) \<Rightarrow> [(u, m)] | _ \<Rightarrow> [])" for i
    using new(2) [of i] by (cases "i = ?i") (auto simp: delete_conv' split: option.splits)
  then show ?case using new(1) st by (intro exI [of _ "?one @ new"]) simp
qed

lemma map_of_fold_delete: "map_of (fold AList.delete ids tbl) i = (if i \<in> set ids then None else map_of tbl i)"
  by (induction ids arbitrary: tbl) (simp_all add: delete_conv')

lemma drop_each_recording:
  assumes "thread_id w = c_self env"
  shows "\<exists>w'. drop_each (recording env) code msg tbl w = Some w' \<and>
    answered w' = answered w @ List.map_filter (\<lambda>(i, cb). map_option (\<lambda>u. (u, make_response i code msg)) cb) tbl \<and>
    pending_calls w' = pending_calls w"
  using assms
proof (induction tbl arbitrary: w)
  case Nil
  then show ?case by (simp add: List.map_filter_def)
next
  case (Cons e tbl)
  obtain i cb where e: "e = (i, cb)" by force
  let ?w1 = "w\<lparr>timer := TimeWheel_RemoveTimer (timer_id (recording env) i) (timer w)\<rparr>"
  let ?w2 = "case cb of None \<Rightarrow> ?w1 | Some u \<Rightarrow> ?w1\<lparr>answered := answered w @ [(u, make_response i code msg)]\<rparr>"
  have r: "remove_timer (recording env) i w = Some ?w1"
    using remove_timer_in_loop [of w "recording env" i] Cons.prems by simp
  have s: "respond (recording env) cb (make_response i code msg) ?w1 = Some ?w2"
    by (simp add: respond_def split: option.splits)
  have "thread_id ?w2 = c_self env" using Cons.prems by (simp split: option.splits)
  from Cons.IH [OF this] obtain w' where "drop_each (recording env) code msg tbl ?w2 = Some w'"
    "answered w' = answered ?w2 @ List.map_filter (\<lambda>(i, cb). map_option (\<lambda>u. (u, make_response i code msg)) cb) tbl"
    "pending_calls w' = pending_calls ?w2" by blast
  then show ?case using r s e by (auto simp: List.map_filter_def split: option.splits)
qed

text \<open>From another thread the removals of the timers are queued.\<close>

lemma drop_each_other_thread:
  assumes "thread_id w \<noteq> c_self env"
  shows "\<exists>w'. drop_each (recording env) code msg tbl w = Some w' \<and>
    answered w' = answered w @ List.map_filter (\<lambda>(i, cb). map_option (\<lambda>u. (u, make_response i code msg)) cb) tbl \<and>
    pending_calls w' = pending_calls w \<and> cli_stopped w' = cli_stopped w \<and> thread_id w' = thread_id w \<and>
    pending w' = pending w @ map (\<lambda>(i, cb). Fn_RemoveTimer (timer_id env i)) tbl"
  using assms
proof (induction tbl arbitrary: w)
  case Nil
  then show ?case by (simp add: List.map_filter_def)
next
  case (Cons e tbl)
  obtain i cb where e: "e = (i, cb)" by force
  let ?w1 = "EventLoop_QueueInLoop (Fn_RemoveTimer (timer_id env i)) w"
  let ?w2 = "case cb of None \<Rightarrow> ?w1 | Some u \<Rightarrow> ?w1\<lparr>answered := answered w @ [(u, make_response i code msg)]\<rparr>"
  have "timer_id (recording env) i = timer_id env i" by (simp add: recording_def timer_id_def)
  then have r: "remove_timer (recording env) i w = Some ?w1"
    using remove_timer_other_thread [of w "recording env" i] Cons.prems by simp
  have q: "answered ?w1 = answered w" "pending ?w1 = pending w @ [Fn_RemoveTimer (timer_id env i)]"
    "pending_calls ?w1 = pending_calls w" "cli_stopped ?w1 = cli_stopped w" "thread_id ?w1 = thread_id w"
    by (simp_all add: queue_defs EventLoop_QueueInLoop_def EventLoop_Quit_def)
  have s: "respond (recording env) cb (make_response i code msg) ?w1 = Some ?w2"
    using q(1) by (simp add: respond_def split: option.splits)
  have "thread_id ?w2 \<noteq> c_self env" using Cons.prems q(5) by (simp split: option.splits)
  from Cons.IH [OF this] obtain w' where "drop_each (recording env) code msg tbl ?w2 = Some w'"
    "answered w' = answered ?w2 @ List.map_filter (\<lambda>(i, cb). map_option (\<lambda>u. (u, make_response i code msg)) cb) tbl"
    "pending_calls w' = pending_calls ?w2 \<and> cli_stopped w' = cli_stopped ?w2 \<and> thread_id w' = thread_id ?w2"
    "pending w' = pending ?w2 @ map (\<lambda>(i, cb). Fn_RemoveTimer (timer_id env i)) tbl" by blast
  then show ?case using r s e q by (auto simp: List.map_filter_def split: option.splits)
qed

section \<open>Reading an id back\<close>

definition hex_val :: "byte \<Rightarrow> nat" where
  "hex_val b = (THE n. n < 16 \<and> hex_digit n = b)"

definition from_hex :: "bytes \<Rightarrow> nat" where
  "from_hex = foldl (\<lambda>a b. 16 * a + hex_val b) 0"

lemma hex_digits_distinct: "distinct (map hex_digit [0..<16])"
  by (simp add: hex_digit_def str_def upt_conv_Cons_Cons upt_rec)

lemma hex_val_digit:
  assumes "n < 16" shows "hex_val (hex_digit n) = n"
  unfolding hex_val_def
proof (rule the_equality)
  fix m assume m: "m < 16 \<and> hex_digit m = hex_digit n"
  have "inj_on hex_digit {0..<16}" using hex_digits_distinct by (simp add: distinct_map)
  then show "m = n" using m assms by (auto dest: inj_onD)
qed (use assms in simp)

lemma from_hex_append: "from_hex (xs @ [b]) = 16 * from_hex xs + hex_val b"
  by (simp add: from_hex_def)

lemma from_to_hex: "from_hex (to_hex n) = n"
proof (induction n rule: to_hex.induct)
  case (1 n)
  show ?case
  proof (cases "n < 16")
    case True
    then show ?thesis by (simp add: to_hex.simps [of n] from_hex_def hex_val_digit)
  next
    case False
    then have "from_hex (to_hex n) = 16 * (n div 16) + n mod 16"
      using 1 by (simp add: to_hex.simps [of n] from_hex_append hex_val_digit)
    then show ?thesis by simp
  qed
qed

lemma length_to_hex: "n < 16 ^ Suc k \<Longrightarrow> length (to_hex n) \<le> Suc k"
proof (induction k arbitrary: n)
  case 0
  then show ?case by (simp add: to_hex.simps [of n])
next
  case (Suc k)
  have "n div 16 < 16 ^ Suc k" using Suc.prems by (simp add: less_mult_imp_div_less mult.commute)
  then show ?case using Suc.IH [of "n div 16"] by (simp add: to_hex.simps [of n])
qed

lemma from_hex_zeros: "from_hex (replicate k (hex_digit 0) @ s) = from_hex s"
proof -
  have "foldl (\<lambda>a b. 16 * a + hex_val b) 0 (replicate k (hex_digit 0)) = 0"
    by (induction k) (simp_all add: hex_val_digit)
  then show ?thesis by (simp add: from_hex_def)
qed

lemma setw16_word: "length (setw16 (to_hex (unat (w :: 64 word)))) = 16 \<and> from_hex (setw16 (to_hex (unat w))) = unat w"
proof -
  have "unat w < 16 ^ Suc 15" using unsigned_less [of w, where ?'a = nat] by simp
  from length_to_hex [OF this] show ?thesis by (simp add: setw16_def from_hex_zeros from_to_hex)
qed

section \<open>Properties\<close>

definition demo_client :: "bool \<Rightarrow> (bytes \<times> nat option) list \<Rightarrow> (unit, nat) client_world" where
  "demo_client connected tbl = tcp_client_world.extend
     (conn_world.extend (demo_conn [] []) (tcp_client_world.fields 7 None True False False connected []))
     (client_world.fields tbl False False [])"

definition demo_cenv :: "nat \<Rightarrow> (bytes \<Rightarrow> 64 word) \<Rightarrow> (unit, nat, unit) client_env" where
  "demo_cenv self hash = \<lparr>c_sys = null_kernel, c_junk = 0,
     c_cbs = \<lparr>connectionCallback = None, messageCallback = None, closeCallback = None, layerCallback = (\<lambda>_ _. None)\<rparr>,
     c_self = self, c_clock = (\<lambda>_. 0), c_hash = hash, c_ser = (\<lambda>r. Some (rq_request_id r)),
     c_parse = (\<lambda>bs. Some (RpcResponse_new\<lparr>rs_request_id := bs\<rparr>)), c_user = (\<lambda>u r w. Some w)\<rparr>"

lemma demo_client_fields [simp]:
  "conn_ok (demo_client c tbl)" "thread_id (demo_client c tbl) = 0" "in_view (demo_client c tbl) = []"
  "pending_calls (demo_client c tbl) = tbl" "answered (demo_client c tbl) = []"
  "cli_stopped (demo_client c tbl) = False" "tc_connected (demo_client c tbl) = c"
  "pending_locked (demo_client c tbl) = False" "has_connection (demo_client c tbl) = True"
  "promised (demo_client c tbl) = []" "timer (demo_client c tbl) = TimeWheel_new (\<lambda>_. 0) 10"
  by (auto simp: demo_client_def demo_conn_def conn_world.defs tcp_client_world.defs client_world.defs conn_ok_def in_view_def
      promised_def Buffer_ReadableBytes_def wf_buffer_def Buffer_new_def Buffer_PeekStringView_def)

lemma demo_cenv_fields [simp]: "c_self (demo_cenv self h) = self" "c_clock (demo_cenv self h) = (\<lambda>_. 0)"
  "c_parse (demo_cenv self h) bs = Some (RpcResponse_new\<lparr>rs_request_id := bs\<rparr>)"
  "c_ser (demo_cenv self h) r = Some (rq_request_id r)" "c_hash (demo_cenv self h) = h"
  by (simp_all add: demo_cenv_def)

text \<open>
  C9. Responses that arrive on an open connection, however the bytes are cut into reads: each call
  that was pending under the id of some response gets exactly one callback, with the first
  response with that id, and leaves the table; duplicates, unknown ids and the server's shutdown
  notice, which has no id, are ignored; every other pending call stays.
\<close>

theorem client_answers_each_call_once:
  assumes "open_in_loop (c_self env) w" and "in_view w = []"
    and "split_frames (c_parse env) (concat cs) = (ms, r, False)"
  shows "\<exists>w' new. deliver in_feed (RpcClient_onMessage (recording env)) cs w = Some w' \<and>
    answered w' = answered w @ new \<and>
    (\<forall>i. filter (\<lambda>(u, m). rs_request_id m = i) new =
       (case (map_of (pending_calls w) i, find (\<lambda>m. rs_request_id m = i) ms) of
          (Some (Some u), Some m) \<Rightarrow> [(u, m)] | _ \<Rightarrow> [])) \<and>
    (\<forall>i. map_of (pending_calls w') i =
       (if i \<in> rs_request_id ` set ms then None else map_of (pending_calls w) i))"
proof -
  have "split_frames (c_parse env) (in_view w) = ([], in_view w, False)"
    using assms(2) by (simp add: split_frames_short)
  from client_reader.deliver_frames [OF assms(1) this, of cs ms r] assms(2,3)
  obtain w' where w': "deliver in_feed (RpcClient_onMessage (recording env)) cs w = Some w'"
    "client_rest w' = fold client_effect ms (client_rest w)" by auto
  obtain new where new: "fold client_effect ms (pending_calls w, answered w) =
      (fold AList.delete (map rs_request_id ms) (pending_calls w), answered w @ new)"
    "\<forall>i. filter (\<lambda>(u, m). rs_request_id m = i) new =
       (case (map_of (pending_calls w) i, find (\<lambda>m. rs_request_id m = i) ms) of
          (Some (Some u), Some m) \<Rightarrow> [(u, m)] | _ \<Rightarrow> [])"
    using effect_responses [of ms "pending_calls w" "answered w"] by (elim exE conjE) blast
  have "pending_calls w' = fold AList.delete (map rs_request_id ms) (pending_calls w)"
    "answered w' = answered w @ new" using w'(2) new(1) by (simp_all add: client_rest_def)
  then show ?thesis using w'(1) new(2)
    by (intro exI [of _ w'] exI [of _ new] conjI) (simp_all add: map_of_fold_delete)
qed

theorem client_answers_each_call_once_witness:
  "\<exists>w'. deliver in_feed (RpcClient_onMessage (recording (demo_cenv 0 (\<lambda>_. 0)))) [[0, 0], [0, 1, 7]]
       (demo_client True [([7], Some 42)]) = Some w' \<and> map_of (pending_calls w') [7] = None"
proof -
  let ?p = "c_parse (demo_cenv 0 (\<lambda>_. 0))"
  have "Codec_decode ?p [0, 0, 0, 1, 7] = (Ok, Some (RpcResponse_new\<lparr>rs_request_id := [7]\<rparr>), 5)"
    by (simp add: Codec_decode_def load_u32_def store_u32_def htonl_def Codec_MAX_FRAME_SIZE_def Let_def)
  from split_frames_Ok [OF this, of "[]" "[]" False] split_frames_short [of "[]" ?p]
  have "split_frames ?p (concat [[0, 0], [0, 1, 7]]) = ([RpcResponse_new\<lparr>rs_request_id := [7]\<rparr>], [], False)" by simp
  from client_answers_each_call_once [OF _ _ this, of "demo_client True [([7], Some 42)]"]
  show ?thesis by (fastforce simp: open_in_loop_def)
qed

lemma client_send_ok:
  fixes w :: "('k, 'u, 'z) client_world_scheme"
  assumes "open_in_loop self w" and "has_connection w"
  shows "\<exists>w'. TcpClient_Send sys junk self frame w = Some w' \<and> answered w' = answered w \<and>
    pending_calls w' = pending_calls w \<and> timer w' = timer w \<and> promised w' = promised w @ frame"
proof -
  obtain w' where w': "TcpConnection_send sys junk self frame w = Some w'"
    "promised w' = promised w @ frame" using conn_sink.send_ok [OF assms(1)] by blast
  then have "TcpConnection_sendInLoop sys junk frame w = Some w'"
    using assms(1) by (simp add: TcpConnection_send_def EventLoop_IsInLoopThread_def open_in_loop_def conn_ok_def)
  note fr = sendInLoop_frame [OF this]
  show ?thesis using w' assms(2) send_frame_field [OF fr, of answered] send_frame_field [OF fr, of pending_calls]
      send_frame_field [OF fr, of timer]
    by (simp add: TcpClient_Send_def send_erased_def)
qed

text \<open>
  C28. \<open>CallRaw\<close> on the loop thread: on a client that is stopped or not connected the callback gets
  \<open>CLIENT_NOT_RUNNING\<close> at once and nothing is registered or sent; if the request cannot be encoded
  it gets \<open>CLIENT_ENCODE_FAILED\<close> and the entry is gone again; otherwise the callback waits under
  the id, a timer with the timeout is set, and exactly the frame of the request is promised to the server.
\<close>

theorem CallRaw_outcomes:
  fixes w :: "('k, 'u, 'z) client_world_scheme" and i svc meth body :: bytes
  assumes "open_in_loop (c_self env) w" and "\<not> pending_locked w" and "has_connection w"
    and "map_of (pending_calls w) i = None"
  defines "request \<equiv> RpcRequest_new\<lparr>rq_service_name := svc, rq_method_name := meth, rq_request_id := i, rq_body := body\<rparr>"
  shows "(cli_stopped w \<or> \<not> tc_connected w \<longrightarrow>
      RpcClient_CallRaw (recording env) i svc meth body (Some u) t w = Some (Call_returned,
        w\<lparr>answered := answered w @ [(u, make_response i CLIENT_NOT_RUNNING (str ''client stopped/disconnected''))]\<rparr>)) \<and>
    (\<not> cli_stopped w \<and> tc_connected w \<and> Codec_encode (c_ser env) request = None \<longrightarrow>
      (\<exists>w'. RpcClient_CallRaw (recording env) i svc meth body (Some u) t w = Some (Call_returned, w') \<and>
        answered w' = answered w @ [(u, make_response i CLIENT_ENCODE_FAILED (str ''encode request failed''))] \<and>
        map_of (pending_calls w') i = None \<and> promised w' = promised w)) \<and>
    (\<forall>frame. \<not> cli_stopped w \<and> tc_connected w \<and> Codec_encode (c_ser env) request = Some frame \<longrightarrow>
      (\<exists>w'. RpcClient_CallRaw (recording env) i svc meth body (Some u) t w = Some (Call_returned, w') \<and>
        answered w' = answered w \<and> pending_calls w' = AList.update i (Some u) (pending_calls w) \<and>
        timer w' = TimeWheel_AddTimer (c_clock env) (timer_id env i) (CB_layer i) t (timer w) \<and>
        promised w' = promised w @ frame))"
proof -
  have tid: "thread_id w = c_self env" using assms(1) by (simp add: open_in_loop_def)
  let ?w1 = "w\<lparr>pending_calls := AList.update i (Some u) (pending_calls w),
    timer := TimeWheel_AddTimer (c_clock env) (timer_id env i) (CB_layer i) t (timer w)\<rparr>"
  have env: "c_clock (recording env) = c_clock env" "timer_id (recording env) = timer_id env"
    by (rule ext | simp add: recording_def timer_id_def)+
  have at: "EventLoop_AddTimer (c_clock (recording env)) (client_call (recording env)) (c_self (recording env))
      (timer_id (recording env) i) (CB_layer i) t (w\<lparr>pending_calls := AList.update i (Some u) (pending_calls w)\<rparr>) = Some ?w1"
    using tid by (simp add: EventLoop_AddTimer_def EventLoop_RunInLoop_def EventLoop_IsInLoopThread_def run_functor_def env)
  have o1: "open_in_loop (c_self env) ?w1" using assms(1) by simp
  have sent: "\<exists>w'. TcpClient_Send (c_sys env) (c_junk env) (c_self env) frame ?w1 = Some w' \<and> answered w' = answered w \<and>
      pending_calls w' = pending_calls ?w1 \<and> timer w' = timer ?w1 \<and> promised w' = promised w @ frame" for frame
    using client_send_ok [OF o1, of "c_sys env" "c_junk env" frame] assms(3) by (simp add: promised_def)
  have del: "map_of (AList.delete i (AList.update i (Some u) (pending_calls w))) i = None"
    by (simp add: delete_conv')
  have "timer_id (recording env) i = timer_id env i" by (simp add: env)
  have rem: "remove_timer (recording env) i v = Some (v\<lparr>timer := TimeWheel_RemoveTimer (timer_id (recording env) i) (timer v)\<rparr>)"
    if "thread_id v = c_self env" for v :: "('k, 'u, 'z) client_world_scheme"
    using remove_timer_in_loop [of v "recording env" i] that by simp
  show ?thesis
  proof (intro conjI impI allI, goal_cases)
    case 1
    then show ?case using assms(2) by (auto simp: RpcClient_CallRaw_def)
  next
    case 2
    show ?case
      using 2 assms(2) tid at del rem
      by (simp add: RpcClient_CallRaw_def request_def [symmetric] take_pending_spec update_conv' respond_def promised_def)
  next
    case (3 frame)
    obtain w' where "TcpClient_Send (c_sys env) (c_junk env) (c_self env) frame ?w1 = Some w'" "answered w' = answered w"
      "pending_calls w' = pending_calls ?w1" "timer w' = timer ?w1" "promised w' = promised w @ frame"
      using sent [of frame] by blast
    then show ?case using 3 assms(2) at
      by (simp add: RpcClient_CallRaw_def request_def [symmetric])
  qed
qed

text \<open>
  \<open>CallRaw\<close> from another thread than the loop's: the entry is made, and the timer and the frame are queued in
  this order. When the loop runs the two functors, the timer is set and the frame is promised.
\<close>

lemma CallRaw_queues:
  fixes w :: "('k, 'u, 'z) client_world_scheme" and i svc meth body :: bytes and t :: int
  assumes "conn_ok w" and "thread_id w \<noteq> c_self env" and "\<not> pending_locked w" and "has_connection w"
    and "\<not> cli_stopped w" and "tc_connected w"
    and "Codec_encode (c_ser env) (RpcRequest_new\<lparr>rq_service_name := svc, rq_method_name := meth, rq_request_id := i,
      rq_body := body\<rparr>) = Some frame"
  shows "RpcClient_CallRaw env i svc meth body cb t w = Some (Call_returned,
    EventLoop_QueueInLoop (Fn (CB_send frame))
      ((EventLoop_QueueInLoop (Fn_AddTimer (timer_id env i) (CB_layer i) t)
         (w\<lparr>pending_calls := AList.update i cb (pending_calls w)\<rparr>))\<lparr>refs := refs w + 1\<rparr>))"
proof -
  let ?v = "EventLoop_QueueInLoop (Fn_AddTimer (timer_id env i) (CB_layer i) t)
    (w\<lparr>pending_calls := AList.update i cb (pending_calls w)\<rparr>)"
  have v: "thread_id ?v = thread_id w" "has_connection ?v = has_connection w" "cstate ?v = cstate w" "refs ?v = refs w"
    by (simp_all add: EventLoop_QueueInLoop_def queue_defs)
  have "TcpClient_Send (c_sys env) (c_junk env) (c_self env) frame ?v =
      Some (EventLoop_QueueInLoop (Fn (CB_send frame)) (?v\<lparr>refs := refs w + 1\<rparr>))"
    using v assms(1,2,4) by (simp add: TcpClient_Send_def TcpConnection_send_def EventLoop_IsInLoopThread_def conn_ok_def)
  then show ?thesis using assms(2,3,5-7)
    by (simp add: RpcClient_CallRaw_def EventLoop_AddTimer_def EventLoop_RunInLoop_def EventLoop_IsInLoopThread_def)
qed

lemma CallRaw_other_thread:
  fixes w :: "('k, 'u, 'z) client_world_scheme" and i svc meth body :: bytes and t :: int
  assumes "conn_ok w" and "thread_id w \<noteq> c_self env" and "\<not> pending_locked w" and "has_connection w"
    and "\<not> cli_stopped w" and "tc_connected w"
    and "Codec_encode (c_ser env) (RpcRequest_new\<lparr>rq_service_name := svc, rq_method_name := meth, rq_request_id := i,
      rq_body := body\<rparr>) = Some frame"
  defines "fs \<equiv> [Fn_AddTimer (timer_id env i) (CB_layer i) t, Fn (CB_send frame)]"
  shows "\<exists>w1 w2. RpcClient_CallRaw (recording env) i svc meth body (Some u) t w = Some (Call_returned, w1) \<and>
    pending w1 = pending w @ fs \<and>
    run_functors (c_clock env) (conn_call (c_sys env) (c_junk env) cbs) fs w1 = Some w2 \<and>
    open_in_loop (thread_id w) w2 \<and> promised w2 = promised w @ frame \<and> in_view w2 = in_view w \<and>
    answered w2 = answered w \<and> pending_calls w2 = AList.update i (Some u) (pending_calls w) \<and>
    timer w2 = TimeWheel_AddTimer (c_clock env) (timer_id env i) (CB_layer i) t (timer w)"
proof -
  let ?v = "EventLoop_QueueInLoop (Fn_AddTimer (timer_id env i) (CB_layer i) t)
    (w\<lparr>pending_calls := AList.update i (Some u) (pending_calls w)\<rparr>)"
  let ?w1 = "EventLoop_QueueInLoop (Fn (CB_send frame)) (?v\<lparr>refs := refs w + 1\<rparr>)"
  let ?x = "?w1\<lparr>timer := TimeWheel_AddTimer (c_clock env) (timer_id env i) (CB_layer i) t (timer w)\<rparr>"
  note q = EventLoop_QueueInLoop_def queue_defs
  have id: "timer_id (recording env) = timer_id env" by (rule ext) (simp add: recording_def timer_id_def)
  have e: "Codec_encode (c_ser (recording env)) (RpcRequest_new\<lparr>rq_service_name := svc, rq_method_name := meth,
      rq_request_id := i, rq_body := body\<rparr>) = Some frame" using assms(7) by simp
  have c: "RpcClient_CallRaw (recording env) i svc meth body (Some u) t w = Some (Call_returned, ?w1)"
    using CallRaw_queues [OF assms(1) _ assms(3-6) e, of "Some u" t] assms(2) by (simp add: id)
  have x: "conn_ok ?x" "1 < refs ?x" using assms(1) by (simp_all add: conn_ok_def q)
  from send_functor [OF x, of "c_sys env" "c_junk env" cbs frame]
  obtain w2 where w2: "conn_call (c_sys env) (c_junk env) cbs (CB_send frame) ?x = Some w2" "conn_ok w2"
    "promised w2 = promised ?x @ frame" "send_frame (?x\<lparr>refs := refs ?x - 1\<rparr>) w2" by blast
  have "run_functors (c_clock env) (conn_call (c_sys env) (c_junk env) cbs) fs ?w1 = Some w2"
    using w2(1) by (simp add: fs_def run_functor_def q)
  moreover have "thread_id w2 = thread_id w" "in_buf w2 = in_buf w" "answered w2 = answered w"
    "pending_calls w2 = AList.update i (Some u) (pending_calls w)" "timer w2 = timer ?x"
    using send_frame_field [OF w2(4), of thread_id] send_frame_field [OF w2(4), of in_buf]
      send_frame_field [OF w2(4), of answered] send_frame_field [OF w2(4), of pending_calls]
      send_frame_field [OF w2(4), of timer] by (simp_all add: send_erased_def q)
  moreover have "promised ?x = promised w" "pending ?w1 = pending w @ fs" by (simp_all add: promised_def q fs_def)
  ultimately show ?thesis using c w2(2,3) by (auto simp: open_in_loop_def in_view_def)
qed

theorem CallRaw_outcomes_witness:
  "\<exists>w'. RpcClient_CallRaw (recording (demo_cenv 0 (\<lambda>_. 7))) (str ''a'') (str ''S'') (str ''M'') [] (Some 1) 50
       (demo_client True [(str ''b'', Some 2)]) = Some (Call_returned, w') \<and>
     map_of (pending_calls w') (str ''a'') = Some (Some (1::nat)) \<and>
     promised w' = [0, 0, 0, 1] @ str ''a''"
proof -
  let ?env = "demo_cenv 0 (\<lambda>_. 7)" and ?w = "demo_client True [(str ''b'', Some (2::nat))]"
  have o: "open_in_loop (c_self ?env) ?w" by (simp add: open_in_loop_def)
  have l: "\<not> pending_locked ?w" "has_connection ?w" "map_of (pending_calls ?w) (str ''a'') = None"
    by (simp_all add: str_def)
  note c = CallRaw_outcomes [OF o l(1) l(2) l(3), of "str ''S''" "str ''M''" "[]" 1 50, THEN conjunct2, THEN conjunct2]
  have "Codec_encode (c_ser ?env) (RpcRequest_new\<lparr>rq_service_name := str ''S'', rq_method_name := str ''M'',
      rq_request_id := str ''a'', rq_body := []\<rparr>) = Some ([0, 0, 0, 1] @ str ''a'')"
  proof -
    have "store_u32 (htonl (1 :: 32 word)) = [0, 0, 0, 1]" unfolding store_htonl by (simp add: store_u32_def)
    then show ?thesis by (simp add: Codec_encode_def str_def UINT32_MAX_def)
  qed
  with c show ?thesis by (auto simp: update_conv' str_def)
qed

text \<open>
  Request ids are 32 characters, and two of them are equal only if both the millisecond and the
  random number are: the padding keeps the two hexadecimal fields apart.
\<close>

theorem request_ids_injective:
  "length (RpcClient_GenerateRequestId millis random) = 32 \<and>
   (RpcClient_GenerateRequestId millis random = RpcClient_GenerateRequestId millis' random') =
     (millis = millis' \<and> random = random')"
proof -
  have "millis = millis' \<and> random = random'"
    if "RpcClient_GenerateRequestId millis random = RpcClient_GenerateRequestId millis' random'"
  proof -
    have "length (setw16 (to_hex (unat millis))) = length (setw16 (to_hex (unat millis')))"
      by (simp add: setw16_word [THEN conjunct1])
    with that have "setw16 (to_hex (unat millis)) = setw16 (to_hex (unat millis')) \<and>
        setw16 (to_hex (unat random)) = setw16 (to_hex (unat random'))"
      unfolding RpcClient_GenerateRequestId_def by (simp only: append_eq_append_conv simp_thms)
    then have "from_hex (setw16 (to_hex (unat millis))) = from_hex (setw16 (to_hex (unat millis')))"
      "from_hex (setw16 (to_hex (unat random))) = from_hex (setw16 (to_hex (unat random')))" by simp_all
    then show ?thesis by (simp add: setw16_word [THEN conjunct2] word_unat_eq_iff)
  qed
  moreover have "length (RpcClient_GenerateRequestId millis random) = 32"
    unfolding RpcClient_GenerateRequestId_def length_append by (simp add: setw16_word [THEN conjunct1])
  ultimately show ?thesis by auto
qed

text \<open>
  \<open>DropAllPending\<close> on the loop thread: the table is taken whole, and every call that was in it, in the
  order of the table, gets one response with its own id, the code and the message.
\<close>

theorem DropAllPending_spec:
  assumes "thread_id w = c_self env" and "\<not> pending_locked w"
  shows "\<exists>w'. RpcClient_DropAllPending (recording env) code msg w = Some w' \<and> pending_calls w' = [] \<and>
    answered w' = answered w @
      List.map_filter (\<lambda>(i, cb). map_option (\<lambda>u. (u, make_response i code msg)) cb) (pending_calls w)"
  using drop_each_recording [of "w\<lparr>pending_calls := []\<rparr>" env code msg "pending_calls w"] assms
  by (auto simp: RpcClient_DropAllPending_def)

theorem DropAllPending_spec_witness:
  "\<exists>w'. RpcClient_DropAllPending (recording (demo_cenv 0 (\<lambda>_. 7))) CLIENT_NETWORK_ERROR (str ''e'')
       (demo_client True [(str ''b'', Some 2), (str ''c'', None)]) = Some w' \<and>
     answered w' = [(2::nat, make_response (str ''b'') CLIENT_NETWORK_ERROR (str ''e''))]"
  using DropAllPending_spec [of "demo_client True [(str ''b'', Some 2), (str ''c'', None)]" "demo_cenv 0 (\<lambda>_. 7)"
      CLIENT_NETWORK_ERROR "str ''e''"]
  by (auto simp: List.map_filter_def)

text \<open>
  \<open>Stop\<close>, from a thread other than the loop's: the flag is set first, then every pending call is answered
  with \<open>CLIENT_NOT_RUNNING\<close> under its own id and the table is empty; the removals of their timers and then
  the disconnection are queued behind what was queued before, and only then the loop is told to quit and
  is waited for. A second \<open>Stop\<close> does nothing.
\<close>

theorem client_Stop_spec:
  assumes "\<not> cli_stopped w" and "\<not> pending_locked w" and "thread_id w \<noteq> c_self env" and "t_self tcp = c_self env"
  shows "\<exists>w'. RpcClient_Stop (recording env) tcp join w = Option.bind (join w') (TcpClient_Stop tcp) \<and>
    cli_stopped w' \<and> quit w' \<and> pending_calls w' = [] \<and>
    answered w' = answered w @ List.map_filter (\<lambda>(i, cb).
      map_option (\<lambda>u. (u, make_response i CLIENT_NOT_RUNNING (str ''rpc client stopped''))) cb) (pending_calls w) \<and>
    pending w' = pending w @ map (\<lambda>(i, cb). Fn_RemoveTimer (timer_id env i)) (pending_calls w) @
      [Fn (CB_layer DisconnectInLoop_tag)] \<and>
    RpcClient_Stop (recording env) tcp join w' = Some w'"
proof -
  let ?v = "w\<lparr>cli_stopped := True, pending_calls := []\<rparr>"
  have "thread_id ?v \<noteq> c_self env" using assms(3) by simp
  from drop_each_other_thread [OF this, of CLIENT_NOT_RUNNING "str ''rpc client stopped''" "pending_calls w"]
  obtain w1 where w1: "drop_each (recording env) CLIENT_NOT_RUNNING (str ''rpc client stopped'') (pending_calls w) ?v = Some w1"
    "answered w1 = answered w @ List.map_filter (\<lambda>(i, cb).
      map_option (\<lambda>u. (u, make_response i CLIENT_NOT_RUNNING (str ''rpc client stopped''))) cb) (pending_calls w)"
    "pending_calls w1 = []" "cli_stopped w1" "thread_id w1 = thread_id w"
    "pending w1 = pending w @ map (\<lambda>(i, cb). Fn_RemoveTimer (timer_id env i)) (pending_calls w)" by auto
  let ?w2 = "EventLoop_QueueInLoop (Fn (CB_layer DisconnectInLoop_tag)) w1"
  have "TcpClient_Disconnect tcp w1 = Some ?w2"
    using w1(5) assms(3,4) by (simp add: TcpClient_Disconnect_def run_in_loop_def EventLoop_IsInLoopThread_def)
  then have r: "RpcClient_Stop (recording env) tcp join w = Option.bind (join (EventLoop_Quit ?w2)) (TcpClient_Stop tcp)"
    using assms(1,2) w1(1) by (simp add: RpcClient_Stop_def RpcClient_DropAllPending_def)
  have "answered (EventLoop_Quit ?w2) = answered w1" "pending_calls (EventLoop_Quit ?w2) = pending_calls w1"
    "cli_stopped (EventLoop_Quit ?w2) = cli_stopped w1" "quit (EventLoop_Quit ?w2)"
    "pending (EventLoop_Quit ?w2) = pending w1 @ [Fn (CB_layer DisconnectInLoop_tag)]"
    by (simp_all add: queue_defs EventLoop_QueueInLoop_def EventLoop_Quit_def)
  with r w1 show ?thesis by (intro exI [of _ "EventLoop_Quit ?w2"]) (simp add: RpcClient_Stop_def)
qed

theorem client_Stop_spec_witness:
  "\<exists>w' :: (unit, nat) client_world. pending_calls w' = [] \<and> quit w' \<and>
     answered w' = [(2, make_response (str ''b'') CLIENT_NOT_RUNNING (str ''rpc client stopped''))] \<and>
     (\<exists>tcp. RpcClient_Stop (recording (demo_cenv 1 (\<lambda>_. 7))) tcp (\<lambda>_. None)
        (demo_client True [(str ''b'', Some 2)]) = Option.bind None (TcpClient_Stop tcp))"
proof -
  define tcp :: "(unit, (nat, unit) client_world_ext) tcp_client_env" where
    "tcp = \<lparr>t_sys = null_kernel, t_junk = 0, t_self = 1, t_connectionCallback = None, t_messageCallback = None,
       t_errorCallback = None, t_layer = (\<lambda>_ _. None), t_alloc = 64, t_so_error = 0, t_ip = ''h'', t_port = 80\<rparr>"
  have "t_self tcp = c_self (demo_cenv 1 (\<lambda>_. 7))" by (simp add: tcp_def)
  from client_Stop_spec [where join = "\<lambda>_. None" and w = "demo_client True [(str ''b'', Some 2)]", OF _ _ _ this]
  show ?thesis by (auto simp: List.map_filter_def)
qed

text \<open>
  A callback that retries at once when it is told that the client is not running locks
  \<open>pending_mutex_\<close> a second time in the same thread: \<open>CallRaw\<close> does not return.
\<close>

lemma retry_in_callback_deadlocks:
  assumes "cli_stopped w \<or> \<not> tc_connected w"
    and "\<forall>r v. c_user env u r v = map_option snd (RpcClient_CallRaw env i2 svc meth body (Some u) t v)"
  shows "RpcClient_CallRaw env i svc meth body (Some u) t w = None"
  using assms by (simp add: RpcClient_CallRaw_def)

text \<open>A call without a callback made while the client is not running throws \<open>std::bad_function_call\<close>.\<close>

lemma empty_callback_throws:
  assumes "cli_stopped w \<or> \<not> tc_connected w" and "\<not> pending_locked w"
  shows "RpcClient_CallRaw env i svc meth body None t w = Some (Call_threw, w)"
  using assms by (simp add: RpcClient_CallRaw_def)

text \<open>
  \<open>handleClose\<close> runs the connection callback, and with it \<open>DropAllPending\<close>, before the close callback that clears
  \<open>connected_\<close>. A callback that retries from there is not told that the client is disconnected: its call is
  registered and the bytes are dropped, so that it waits for its timeout, if it has one.
\<close>

lemma retry_on_disconnect_is_stranded:
  fixes w :: "('k, 'u, 'z) client_world_scheme" and i svc meth body :: bytes and t :: int
  assumes "thread_id w = c_self env" and "cstate w \<noteq> Connected" and "tc_connected w" and "\<not> cli_stopped w"
    and "\<not> pending_locked w"
    and "Codec_encode (c_ser env) (RpcRequest_new\<lparr>rq_service_name := svc, rq_method_name := meth, rq_request_id := i,
      rq_body := body\<rparr>) = Some frame"
  shows "RpcClient_CallRaw env i svc meth body (Some u) t w = Some (Call_returned,
    w\<lparr>pending_calls := AList.update i (Some u) (pending_calls w),
      timer := TimeWheel_AddTimer (c_clock env) (timer_id env i) (CB_layer i) t (timer w)\<rparr>)"
proof -
  let ?v = "w\<lparr>pending_calls := AList.update i (Some u) (pending_calls w),
    timer := TimeWheel_AddTimer (c_clock env) (timer_id env i) (CB_layer i) t (timer w)\<rparr>"
  have "cstate ?v \<noteq> Connected" using assms(2) by simp
  then have "TcpClient_Send (c_sys env) (c_junk env) (c_self env) frame ?v = Some ?v"
    by (simp add: TcpClient_Send_def TcpConnection_send_def)
  then show ?thesis
    using assms by (simp add: RpcClient_CallRaw_def EventLoop_AddTimer_def EventLoop_RunInLoop_def
        EventLoop_IsInLoopThread_def run_functor_def)
qed

text \<open>
  A timeout that is lost: a negative \<open>timeout_ms\<close> sets no timer, and neither does a call whose id hashes
  to the 32 bits of a timer that is still set.
\<close>

lemma timeout_can_be_lost:
  assumes "t < 0 \<or> timer_id env i \<in> dom (timer_map (timer w))"
  shows "TimeWheel_AddTimer (c_clock env) (timer_id env i) (CB_layer i) t (timer w) = timer w"
  using assms by (auto simp: TimeWheel_AddTimer_def)

end
