(* ===== verification/LogModel.thy ===== *)
theory LogModel
  imports BufferModel "HOL-Library.Multiset"
begin

text \<open>
  \<open>code/base/log\<close>: the logger. A record is formatted into the logger's buffer and handed to a
  bounded queue that a writer thread empties, or written directly.

  The first part is the state of the singleton and what \<open>Init\<close>, \<open>write\<close> and the filter macros do
  with it: which file is open, what the buffer holds, what is queued and what each file has
  received. The broken-down time and the formatted text are arguments; \<open>can_open\<close> says which paths
  \<open>fopen\<close> can open for appending, given the directories \<open>mkdir\<close> has made. Operating on a null
  \<open>FILE *\<close> or a null queue is \<open>None\<close>. The second part interleaves the critical sections of the
  queue: producers, the writer thread and \<open>close\<close>, with the waits on the condition variables.
\<close>

section \<open>State\<close>

record async_queue =
  items :: "bytes list"
  capacity :: nat
  closed :: bool

datatype log_level = DEBUG | INFO | WARN | ERROR

fun level_value :: "log_level \<Rightarrow> int" where
  "level_value DEBUG = 0" | "level_value INFO = 1" | "level_value WARN = 2" | "level_value ERROR = 3"

record log_config =
  cfg_level :: log_level
  cfg_path :: bytes
  cfg_suffix :: bytes
  cfg_max_queue_size :: int

record log =
  log_path :: bytes
  log_suffix :: bytes
  line_count :: int
  to_day :: int
  is_open :: bool
  log_buff :: buffer
  log_level :: int
  is_async :: bool
  log_fp :: "bytes option"
  log_queue :: "async_queue option"
  made_dirs :: "bytes set"
  files :: "bytes \<Rightarrow> bytes"

record broken_time =
  tm_year :: int
  tm_mon :: int
  tm_mday :: int
  tm_hour :: int
  tm_min :: int
  tm_sec :: int

definition LOG_NAME_LEN :: nat where "LOG_NAME_LEN = 256"

definition MAX_LINES :: int where "MAX_LINES = 50000"

text \<open>The one object has static storage, so what the constructor does not set is zero.\<close>

definition Log_new :: log where
  "Log_new = \<lparr>log_path = [], log_suffix = [], line_count = 0, to_day = 0, is_open = False,
     log_buff = Buffer_new Buffer_INITIAL_SIZE, log_level = 0, is_async = False, log_fp = None,
     log_queue = None, made_dirs = {}, files = (\<lambda>_. [])\<rparr>"

section \<open>C library\<close>

text \<open>What \<open>fputs\<close> and \<open>c_str()\<close> see of a byte sequence, and what \<open>snprintf(dst, n, ...)\<close> stores for a full text \<open>s\<close>.\<close>

definition c_string :: "bytes \<Rightarrow> bytes" where
  "c_string bs = takeWhile (\<lambda>b. b \<noteq> 0) bs"

definition snprintf :: "nat \<Rightarrow> bytes \<Rightarrow> bytes" where
  "snprintf n s = (if n = 0 then [] else take (n - 1) s @ [0])"

text \<open>\<open>%0nd\<close>\<close>

definition zero_padded :: "nat \<Rightarrow> int \<Rightarrow> bytes" where
  "zero_padded n i =
     (if i < 0 then str ''-'' @ replicate (n - 1 - length (decimal (nat (- i)))) (str ''0'' ! 0) @ decimal (nat (- i))
      else replicate (n - length (decimal (nat i))) (str ''0'' ! 0) @ decimal (nat i))"

definition fopen :: "(bytes set \<Rightarrow> bytes \<Rightarrow> bool) \<Rightarrow> bytes \<Rightarrow> log \<Rightarrow> log" where
  "fopen can_open name L = L\<lparr>log_fp := (if can_open (made_dirs L) name then Some name else None)\<rparr>"

definition mkdir :: "bytes \<Rightarrow> log \<Rightarrow> log" where
  "mkdir d L = L\<lparr>made_dirs := insert d (made_dirs L)\<rparr>"

definition fputs :: "bytes \<Rightarrow> log \<Rightarrow> log option" where
  "fputs s L =
     (case log_fp L of
        None \<Rightarrow> None
      | Some f \<Rightarrow> Some (L\<lparr>files := (files L)(f := files L f @ c_string s)\<rparr>))"

section \<open>The queue's operations\<close>

definition AsyncQueue_new :: "nat \<Rightarrow> async_queue" where
  "AsyncQueue_new n = \<lparr>items = [], capacity = n, closed = False\<rparr>"

text \<open>
  \<open>push\<close> and \<open>pop\<close> hold the mutex up to the wait on the condition variable, and again from the wake-up
  on: one function for what happens from the call, one for what happens from a wake-up. \<open>push\<close> tests
  \<open>closed_\<close> only at the call, \<open>pop\<close> only after a wake-up.
\<close>

datatype push_action = Push_refused | Push_waits | Push_done async_queue

definition AsyncQueue_push_woken :: "bytes \<Rightarrow> async_queue \<Rightarrow> push_action" where
  "AsyncQueue_push_woken item q =
     (if capacity q \<le> length (items q) then Push_waits else Push_done (q\<lparr>items := items q @ [item]\<rparr>))"

definition AsyncQueue_push_lock :: "bytes \<Rightarrow> async_queue \<Rightarrow> push_action" where
  "AsyncQueue_push_lock item q = (if closed q then Push_refused else AsyncQueue_push_woken item q)"

datatype pop_action = Pop_waits | Pop_closed | Pop_item bytes async_queue

definition AsyncQueue_pop_lock :: "async_queue \<Rightarrow> pop_action" where
  "AsyncQueue_pop_lock q = (case items q of [] \<Rightarrow> Pop_waits | x # xs \<Rightarrow> Pop_item x (q\<lparr>items := xs\<rparr>))"

definition AsyncQueue_pop_woken :: "async_queue \<Rightarrow> pop_action" where
  "AsyncQueue_pop_woken q = (if closed q then Pop_closed else AsyncQueue_pop_lock q)"

text \<open>A push that finds room (\<open>write\<close> tests \<open>full\<close> first, and pushes with \<open>mtx_\<close> held).\<close>

definition AsyncQueue_push_back :: "bytes \<Rightarrow> async_queue \<Rightarrow> bool \<times> async_queue" where
  "AsyncQueue_push_back item q =
     (case AsyncQueue_push_lock item q of Push_done q' \<Rightarrow> (True, q') | _ \<Rightarrow> (False, q))"

definition AsyncQueue_close :: "async_queue \<Rightarrow> async_queue" where
  "AsyncQueue_close q = q\<lparr>items := [], closed := True\<rparr>"

definition AsyncQueue_empty :: "async_queue \<Rightarrow> bool" where
  "AsyncQueue_empty q \<longleftrightarrow> items q = []"

definition AsyncQueue_full :: "async_queue \<Rightarrow> bool" where
  "AsyncQueue_full q \<longleftrightarrow> capacity q \<le> length (items q)"

section \<open>The logger's operations\<close>

definition Log_GetLevel :: "log \<Rightarrow> int" where
  "Log_GetLevel L = log_level L"

definition Log_SetLevel :: "int \<Rightarrow> log \<Rightarrow> log" where
  "Log_SetLevel level L = L\<lparr>log_level := level\<rparr>"

definition Log_IsOpen :: "log \<Rightarrow> bool" where
  "Log_IsOpen L = is_open L"

text \<open>\<open>flush\<close> wakes the writer and flushes the stream; neither changes what the model holds.\<close>

definition Log_flush :: "log \<Rightarrow> log option" where
  "Log_flush L = (if is_async L \<and> log_queue L = None then None else Some L)"

definition day_stamp :: "broken_time \<Rightarrow> bytes" where
  "day_stamp t = zero_padded 4 (tm_year t + 1900) @ str ''_'' @ zero_padded 2 (tm_mon t + 1) @ str ''_'' @
     zero_padded 2 (tm_mday t)"

text \<open>Closing the old stream: \<open>flush\<close>, then \<open>fclose\<close>, which must not be given a null pointer.\<close>

definition flush_close :: "log \<Rightarrow> log option" where
  "flush_close L =
     Option.bind (Log_flush L) (\<lambda>L1. case log_fp L1 of None \<Rightarrow> None | Some _ \<Rightarrow> Some (L1\<lparr>log_fp := None\<rparr>))"

definition Log_Init :: "(bytes set \<Rightarrow> bytes \<Rightarrow> bool) \<Rightarrow> log_config \<Rightarrow> broken_time \<Rightarrow> log \<Rightarrow> log option" where
  "Log_Init can_open config t L =
     (let L1 = L\<lparr>is_open := True, log_level := level_value (cfg_level config)\<rparr>;
          L2 = (if cfg_max_queue_size config > 0 then
                  L1\<lparr>is_async := True,
                     log_queue := (case log_queue L1 of
                        None \<Rightarrow> Some (AsyncQueue_new (nat (cfg_max_queue_size config))) | Some q \<Rightarrow> Some q)\<rparr>
                else L1\<lparr>is_async := False\<rparr>);
          L3 = L2\<lparr>line_count := 0, log_path := cfg_path config, log_suffix := cfg_suffix config\<rparr>;
          fileName = c_string (snprintf (LOG_NAME_LEN - 1)
            (log_path L3 @ str ''/'' @ day_stamp t @ log_suffix L3));
          L4 = L3\<lparr>to_day := tm_mday t, log_buff := Buffer_RetrieveAll (log_buff L3)\<rparr>
      in Option.bind (if log_fp L4 \<noteq> None then flush_close L4 else Some L4) (\<lambda>L5.
           let L6 = fopen can_open fileName L5
           in Some (if log_fp L6 = None then fopen can_open fileName (mkdir (log_path L6) L6) else L6)))"

definition Log_init ::
  "(bytes set \<Rightarrow> bytes \<Rightarrow> bool) \<Rightarrow> log_level \<Rightarrow> bytes \<Rightarrow> bytes \<Rightarrow> int \<Rightarrow> broken_time \<Rightarrow> log \<Rightarrow> log option" where
  "Log_init can_open level path suffix maxQueueSize t L =
     Log_Init can_open \<lparr>cfg_level = level, cfg_path = path, cfg_suffix = suffix,
       cfg_max_queue_size = maxQueueSize\<rparr> t L"

text \<open>\<open>write\<close>, first part: a new day or a full file changes the file.\<close>

definition Log_rotate :: "(bytes set \<Rightarrow> bytes \<Rightarrow> bool) \<Rightarrow> broken_time \<Rightarrow> log \<Rightarrow> log option" where
  "Log_rotate can_open t L =
     (if to_day L \<noteq> tm_mday t \<or> (line_count L \<noteq> 0 \<and> line_count L smod MAX_LINES = 0) then
        let tail = c_string (snprintf 36 (day_stamp t));
            (newFile, L1) =
              (if to_day L \<noteq> tm_mday t then
                 (c_string (snprintf (LOG_NAME_LEN - 72) (log_path L @ str ''/'' @ tail @ log_suffix L)),
                  L\<lparr>to_day := tm_mday t, line_count := 0\<rparr>)
               else
                 (c_string (snprintf (LOG_NAME_LEN - 72) (log_path L @ str ''/'' @ tail @ str ''-'' @
                    to_string (line_count L sdiv MAX_LINES) @ log_suffix L)), L))
        in map_option (fopen can_open newFile) (flush_close L1)
      else Some L)"

definition log_header :: "broken_time \<Rightarrow> int \<Rightarrow> bytes" where
  "log_header t us = to_string (tm_year t + 1900) @ str ''-'' @ zero_padded 2 (tm_mon t + 1) @ str ''-'' @
     zero_padded 2 (tm_mday t) @ str '' '' @ zero_padded 2 (tm_hour t) @ str '':'' @ zero_padded 2 (tm_min t) @
     str '':'' @ zero_padded 2 (tm_sec t) @ str ''.'' @ zero_padded 6 (us smod 1000000) @ str '' ''"

definition log_title :: "int \<Rightarrow> bytes" where
  "log_title level =
     (if level = 0 then str ''[debug]: '' else if level = 1 then str ''[info] : ''
      else if level = 2 then str ''[warn] : '' else if level = 3 then str ''[error]: ''
      else str ''[info] : '')"

definition Log_AppendLogLevelTitle :: "int \<Rightarrow> buffer \<Rightarrow> buffer" where
  "Log_AppendLogLevelTitle level b = Buffer_Append (log_title level) b"

text \<open>
  Second part: the record in the buffer. \<open>text\<close> is the formatted message, \<open>None\<close> when \<open>vsnprintf\<close>
  fails.
\<close>

definition put_at_end :: "bytes \<Rightarrow> buffer \<Rightarrow> buffer" where
  "put_at_end s b = b\<lparr>vec := vec_write (writePos b) s (vec b)\<rparr>"

definition Log_format :: "int \<Rightarrow> broken_time \<Rightarrow> int \<Rightarrow> bytes option \<Rightarrow> log \<Rightarrow> log" where
  "Log_format level t us formatted L =
     (let header = log_header t us;
          b1 = Buffer_HasWritten (length header) (put_at_end (snprintf 128 header) (log_buff L));
          b2 = Log_AppendLogLevelTitle level b1;
          writable = Buffer_WritableBytes b2;
          b3 = (case formatted of None \<Rightarrow> b2 | Some s \<Rightarrow> put_at_end (snprintf writable s) b2);
          m = (case formatted of None \<Rightarrow> 0 | Some s \<Rightarrow> if length s > writable then writable else length s);
          b4 = Buffer_Append [10, 0] (Buffer_HasWritten m b3)
      in L\<lparr>line_count := line_count L + 1, log_buff := b4\<rparr>)"

text \<open>Third part: to the queue if there is room in it, otherwise to the file.\<close>

definition Log_emit :: "log \<Rightarrow> log option" where
  "Log_emit L =
     map_option (\<lambda>L1. L1\<lparr>log_buff := Buffer_RetrieveAll (log_buff L1)\<rparr>)
       (case (is_async L, log_queue L) of
          (True, Some q) \<Rightarrow>
            if \<not> AsyncQueue_full q then
              (let (item, b) = Buffer_RetrieveAllToStr (log_buff L)
               in Some (L\<lparr>log_buff := b, log_queue := Some (snd (AsyncQueue_push_back item q))\<rparr>))
            else fputs (Buffer_Peek (log_buff L)) L
        | _ \<Rightarrow> fputs (Buffer_Peek (log_buff L)) L)"

definition Log_write ::
  "(bytes set \<Rightarrow> bytes \<Rightarrow> bool) \<Rightarrow> int \<Rightarrow> broken_time \<Rightarrow> int \<Rightarrow> bytes option \<Rightarrow> log \<Rightarrow> log option" where
  "Log_write can_open level t us formatted L =
     Option.bind (Log_rotate can_open t L) (\<lambda>L1. Log_emit (Log_format level t us formatted L1))"

text \<open>The filter macros, and the body of the writer's loop.\<close>

definition LOG_BASE ::
  "(bytes set \<Rightarrow> bytes \<Rightarrow> bool) \<Rightarrow> int \<Rightarrow> broken_time \<Rightarrow> int \<Rightarrow> bytes option \<Rightarrow> log \<Rightarrow> log option" where
  "LOG_BASE can_open level t us formatted L =
     (if Log_IsOpen L \<and> Log_GetLevel L \<le> level then Log_write can_open level t us formatted L else Some L)"

definition LOG_DEBUG where "LOG_DEBUG can_open = LOG_BASE can_open 0"
definition LOG_INFO where "LOG_INFO can_open = LOG_BASE can_open 1"
definition LOG_WARN where "LOG_WARN can_open = LOG_BASE can_open 2"
definition LOG_ERROR where "LOG_ERROR can_open = LOG_BASE can_open 3"

definition Log_AsyncWrite_item :: "bytes \<Rightarrow> log \<Rightarrow> log option" where
  "Log_AsyncWrite_item item L = fputs item L"

text \<open>
  The destructor. The writer thread exists exactly if the queue does; \<open>until_empty\<close> is the polling loop on
  \<open>empty\<close> and \<open>join\<close> waits for the writer, both with what the writer does meanwhile.
\<close>

definition Log_delete :: "(log \<Rightarrow> log option) \<Rightarrow> (log \<Rightarrow> log option) \<Rightarrow> log \<Rightarrow> log option" where
  "Log_delete until_empty join L =
     Option.bind
       (if log_queue L \<noteq> None then
          Option.bind (until_empty L) (\<lambda>L1. join (L1\<lparr>log_queue := map_option AsyncQueue_close (log_queue L1)\<rparr>))
        else Some L)
       (\<lambda>L1. if log_fp L1 \<noteq> None then flush_close L1 else Some L1)"

section \<open>Formatting\<close>

definition log_ready :: "log \<Rightarrow> bool" where
  "log_ready L \<longleftrightarrow> readPos (log_buff L) = 0 \<and> writePos (log_buff L) = 0 \<and> 4096 \<le> length (vec (log_buff L))"

definition valid_time :: "broken_time \<Rightarrow> bool" where
  "valid_time t \<longleftrightarrow> -900 \<le> tm_year t \<and> tm_year t \<le> 8099 \<and> 0 \<le> tm_mon t \<and> tm_mon t \<le> 11 \<and>
     1 \<le> tm_mday t \<and> tm_mday t \<le> 31 \<and> 0 \<le> tm_hour t \<and> tm_hour t \<le> 23 \<and> 0 \<le> tm_min t \<and> tm_min t \<le> 59 \<and>
     0 \<le> tm_sec t \<and> tm_sec t \<le> 60"

lemma length_decimal: "n < 10 ^ Suc k \<Longrightarrow> length (decimal n) \<le> Suc k"
proof (induction k arbitrary: n)
  case 0
  then show ?case by (simp add: decimal.simps [of n])
next
  case (Suc k)
  have "n div 10 < 10 ^ Suc k" using Suc.prems by (simp add: less_mult_imp_div_less mult.commute)
  then show ?case using Suc.IH [of "n div 10"] by (simp add: decimal.simps [of n])
qed

lemma length_zero_padded:
  assumes "0 \<le> i" and "nat i < 10 ^ Suc k"
  shows "length (zero_padded (Suc k) i) = Suc k"
  using length_decimal [OF assms(2)] assms(1) by (simp add: zero_padded_def)

lemma length_year: "1000 \<le> y \<Longrightarrow> y \<le> 9999 \<Longrightarrow> length (to_string y) = 4"
proof -
  assume y: "1000 \<le> y" "y \<le> 9999"
  then have n: "1000 \<le> nat y" "nat y \<le> 9999" by simp_all
  define n where "n = nat y"
  have "n div 10 \<ge> 100" "n div 10 div 10 \<ge> 10" "n div 10 div 10 div 10 < 10" "n div 10 div 10 div 10 \<ge> 1"
    using n by (simp_all add: n_def div_mult2_eq [symmetric])
  then show ?thesis using y n
    by (simp add: to_string_def decimal.simps [of "nat y"] decimal.simps [of "nat y div 10"]
        decimal.simps [of "nat y div 10 div 10"] decimal.simps [of "nat y div 10 div 10 div 10"] n_def)
qed

lemma length_log_header:
  assumes "valid_time t" and "0 \<le> us" shows "length (log_header t us) = 27"
proof -
  have "0 \<le> us smod 1000000" "us smod 1000000 < 1000000" using assms(2) by (simp_all add: smod_nonneg)
  then have "length (zero_padded (Suc 5) (us smod 1000000)) = Suc 5" by (intro length_zero_padded) simp_all
  moreover have "length (zero_padded (Suc 1) i) = Suc 1" if "0 \<le> i" "i < 100" for i
    using that by (intro length_zero_padded) simp_all
  ultimately show ?thesis using assms(1) length_year [of "tm_year t + 1900"]
    by (simp add: log_header_def valid_time_def numeral_eq_Suc)
qed

lemma length_log_title [simp]: "length (log_title level) = 9"
  by (simp add: log_title_def)

lemma zero_padded_nonzero: "0 \<notin> set (zero_padded n i)"
  using decimal_nonzero str_0_notin [of "''-''"] str_0_notin [of "''0''"]
  by (auto simp: zero_padded_def str_def)

lemma log_header_nonzero: "0 \<notin> set (log_header t us)"
  using zero_padded_nonzero to_string_nonzero str_0_notin [of "''-''"] str_0_notin [of "'' ''"]
    str_0_notin [of "'':''"] str_0_notin [of "''.''"]
  by (simp add: log_header_def)

lemma log_title_nonzero: "0 \<notin> set (log_title level)"
proof -
  have "\<forall>s \<in> {''[debug]: '', ''[info] : '', ''[warn] : '', ''[error]: ''}. 0 \<notin> set (str s)"
    by (auto intro!: str_0_notin)
  then show ?thesis by (simp add: log_title_def)
qed

lemma put_written:
  assumes "wf_buffer b" and "length xs \<le> Buffer_WritableBytes b" and "length ys \<le> length xs"
    and "take (length ys) xs = ys"
  shows "wf_buffer (Buffer_HasWritten (length ys) (put_at_end xs b))"
    and "Buffer_PeekStringView (Buffer_HasWritten (length ys) (put_at_end xs b)) = Buffer_PeekStringView b @ ys"
    and "length (vec (Buffer_HasWritten (length ys) (put_at_end xs b))) = length (vec b)"
    and "Buffer_WritableBytes (Buffer_HasWritten (length ys) (put_at_end xs b)) = Buffer_WritableBytes b - length ys"
proof -
  have le: "writePos b + length xs \<le> length (vec b)"
    using assms(1,2) unfolding wf_buffer_def Buffer_WritableBytes_def by linarith
  have tk: "take (writePos b + length ys) (vec_write (writePos b) xs (vec b)) = take (writePos b) (vec b) @ ys"
    using le assms(3,4) by (simp add: vec_write_def)
  show "wf_buffer (Buffer_HasWritten (length ys) (put_at_end xs b))"
    using assms(1,3) le by (simp add: wf_buffer_def Buffer_HasWritten_def put_at_end_def)
  show "Buffer_PeekStringView (Buffer_HasWritten (length ys) (put_at_end xs b)) = Buffer_PeekStringView b @ ys"
    using assms(1) le by (simp add: view_segment Buffer_HasWritten_def put_at_end_def tk wf_buffer_def)
  show "length (vec (Buffer_HasWritten (length ys) (put_at_end xs b))) = length (vec b)"
    using le by (simp add: Buffer_HasWritten_def put_at_end_def)
  show "Buffer_WritableBytes (Buffer_HasWritten (length ys) (put_at_end xs b)) = Buffer_WritableBytes b - length ys"
    using le by (simp add: Buffer_HasWritten_def put_at_end_def Buffer_WritableBytes_def)
qed

text \<open>What of the text ends up in the record when \<open>w\<close> bytes are writable.\<close>

definition fitted :: "nat \<Rightarrow> bytes \<Rightarrow> bytes" where
  "fitted w s = (if length s < w then s else take (w - 1) s @ [0])"

lemma Append_keeps_vec:
  assumes "wf_buffer b" shows "length (vec b) \<le> length (vec (Buffer_Append xs b))"
    and "length xs \<le> Buffer_WritableBytes b \<Longrightarrow> length (vec (Buffer_Append xs b)) = length (vec b) \<and>
      Buffer_WritableBytes (Buffer_Append xs b) = Buffer_WritableBytes b - length xs"
proof -
  have e: "length (vec b) \<le> length (vec (Buffer_EnsureWritable n b))" for n
    using assms by (auto simp: Buffer_EnsureWritable_def Buffer_makeSpace_def Let_def buffer_defs vec_write_def)
  have "writePos (Buffer_EnsureWritable (length xs) b) + length xs \<le> length (vec (Buffer_EnsureWritable (length xs) b))"
    using EnsureWritable_view(1,3) [OF assms, of "length xs"] unfolding wf_buffer_def Buffer_WritableBytes_def by linarith
  then show "length (vec b) \<le> length (vec (Buffer_Append xs b))"
    using e [of "length xs"] by (simp add: Buffer_Append_def Let_def Buffer_HasWritten_def)
  assume "length xs \<le> Buffer_WritableBytes b"
  moreover from this have "writePos b + length xs \<le> length (vec b)"
    using assms unfolding wf_buffer_def Buffer_WritableBytes_def by linarith
  ultimately show "length (vec (Buffer_Append xs b)) = length (vec b) \<and>
      Buffer_WritableBytes (Buffer_Append xs b) = Buffer_WritableBytes b - length xs"
    by (simp add: Buffer_Append_def Buffer_EnsureWritable_def Let_def Buffer_HasWritten_def
        Buffer_WritableBytes_def)
qed

lemma Log_format_record:
  fixes level :: int and s :: bytes
  assumes "log_ready L" and "length (log_header t us) \<le> 127"
  defines "w \<equiv> length (vec (log_buff L)) - length (log_header t us) - 9"
  defines "b \<equiv> log_buff (Log_format level t us (Some s) L)"
  shows "wf_buffer b" and "4096 \<le> length (vec b)"
    and "Buffer_PeekStringView b = log_header t us @ log_title level @ fitted w s @ [10, 0]"
proof -
  let ?h = "log_header t us" and ?b0 = "log_buff L"
  have wf0: "wf_buffer ?b0" "Buffer_PeekStringView ?b0 = []" "Buffer_WritableBytes ?b0 = length (vec ?b0)"
    "4096 \<le> length (vec ?b0)"
    using assms(1) by (simp_all add: log_ready_def buffer_defs)
  have sn: "snprintf 128 ?h = ?h @ [0]" using assms(2) by (simp add: snprintf_def)
  define b1 where "b1 = Buffer_HasWritten (length ?h) (put_at_end (snprintf 128 ?h) ?b0)"
  have b1: "wf_buffer b1" "Buffer_PeekStringView b1 = ?h" "length (vec b1) = length (vec ?b0)"
    "Buffer_WritableBytes b1 = length (vec ?b0) - length ?h"
    using put_written [OF wf0(1), of "snprintf 128 ?h" ?h] wf0 assms(2) by (simp_all add: b1_def sn)
  define b2 where "b2 = Log_AppendLogLevelTitle level b1"
  have "length (log_title level) \<le> Buffer_WritableBytes b1" using b1(4) wf0(4) assms(2) by simp
  note a = Append_keeps_vec(2) [OF b1(1) this]
  have b2: "wf_buffer b2" "Buffer_PeekStringView b2 = ?h @ log_title level" "length (vec b2) = length (vec ?b0)"
    "Buffer_WritableBytes b2 = w"
    using a b1 Append_view [OF b1(1), of "log_title level"] by (simp_all add: b2_def Log_AppendLogLevelTitle_def w_def)
  have w: "0 < w" using wf0(4) assms(2) by (simp add: w_def)
  have m: "(if w < length s then w else length s) = length (fitted w s)"
    using w by (auto simp: fitted_def)
  define b3 where "b3 = Buffer_HasWritten (length (fitted w s)) (put_at_end (snprintf w s) b2)"
  have "length (snprintf w s) \<le> Buffer_WritableBytes b2" "length (fitted w s) \<le> length (snprintf w s)"
    "take (length (fitted w s)) (snprintf w s) = fitted w s"
    using w by (auto simp: fitted_def snprintf_def b2(4))
  note b3 = put_written [OF b2(1) this, folded b3_def]
  have bd: "b = Buffer_Append [10, 0] b3"
    unfolding b_def Log_format_def Let_def b1_def [symmetric] b2_def [symmetric] b2(4)
    by (simp add: b3_def m [symmetric])
  show "wf_buffer b" "Buffer_PeekStringView b = log_header t us @ log_title level @ fitted w s @ [10, 0]"
    using Append_view [OF b3(1), of "[10, 0]"] b3(2) b2(2) by (simp_all add: bd)
  show "4096 \<le> length (vec b)"
    using Append_keeps_vec(1) [OF b3(1), of "[10, 0]"] b3(3) b2(3) wf0(4) by (simp add: bd)
qed

text \<open>What a reader of C strings gets of the record: the whole line, or a cut text without the newline.\<close>

definition line_text :: "nat \<Rightarrow> bytes \<Rightarrow> bytes" where
  "line_text w s = (if length s < w then s @ [10] else take (w - 1) s)"

lemma c_string_append: "0 \<notin> set xs \<Longrightarrow> c_string (xs @ ys) = xs @ c_string ys"
  unfolding c_string_def by (subst takeWhile_append2) auto

lemma c_string_fitted: "0 \<notin> set s \<Longrightarrow> c_string (fitted w s @ [10, 0] @ r) = line_text w s"
proof -
  assume s: "0 \<notin> set s"
  then have "0 \<notin> set (take (w - 1) s)" by (meson in_set_takeD)
  with s show ?thesis
    by (simp add: fitted_def line_text_def c_string_append) (simp add: c_string_def)
qed

lemma c_string_record:
  assumes "0 \<notin> set s"
  shows "c_string (log_header t us @ log_title level @ fitted w s @ [10, 0] @ r) =
    log_header t us @ log_title level @ line_text w s"
  using c_string_fitted [OF assms, of w r] log_header_nonzero log_title_nonzero by (simp add: c_string_append)

section \<open>Files\<close>

definition day_file :: "log \<Rightarrow> broken_time \<Rightarrow> int \<Rightarrow> bytes" where
  "day_file L t n = log_path L @ str ''/'' @ day_stamp t @ (if n = 0 then [] else str ''-'' @ to_string n) @ log_suffix L"

definition names_fit :: "log \<Rightarrow> bool" where
  "names_fit L \<longleftrightarrow> length (log_path L) + length (log_suffix L) \<le> 150 \<and> 0 \<notin> set (log_path L) \<and> 0 \<notin> set (log_suffix L)"

lemma day_stamp_facts: "valid_time t \<Longrightarrow> length (day_stamp t) = 10 \<and> 0 \<notin> set (day_stamp t)"
proof -
  assume v: "valid_time t"
  have "length (zero_padded (Suc 3) (tm_year t + 1900)) = Suc 3"
    by (rule length_zero_padded) (use v in \<open>auto simp: valid_time_def nat_less_iff\<close>)
  moreover have "length (zero_padded (Suc 1) (tm_mon t + 1)) = Suc 1"
    by (rule length_zero_padded) (use v in \<open>auto simp: valid_time_def nat_less_iff\<close>)
  moreover have "length (zero_padded (Suc 1) (tm_mday t)) = Suc 1"
    by (rule length_zero_padded) (use v in \<open>auto simp: valid_time_def nat_less_iff\<close>)
  ultimately show ?thesis using zero_padded_nonzero str_0_notin [of "''_''"] by (simp add: day_stamp_def numeral_eq_Suc)
qed

lemma c_string_whole: "0 \<notin> set s \<Longrightarrow> length s < n \<Longrightarrow> c_string (snprintf n s) = s"
  using c_string_append [of s "[0]"] by (simp add: snprintf_def) (simp add: c_string_def)

lemma day_file_short:
  assumes "names_fit L" and "valid_time t" and "0 \<le> n" and "n < 10 ^ 10"
  shows "length (day_file L t n) < 184" and "0 \<notin> set (day_file L t n)"
proof -
  have "length (to_string n) \<le> Suc 9" using length_decimal [of "nat n" 9] assms(3,4) by (simp add: to_string_def)
  then show "length (day_file L t n) < 184"
    using assms(1) day_stamp_facts [OF assms(2)] by (simp add: day_file_def names_fit_def)
  show "0 \<notin> set (day_file L t n)"
    using assms(1) day_stamp_facts [OF assms(2)] to_string_nonzero str_0_notin [of "''/''"] str_0_notin [of "''-''"]
    by (simp add: day_file_def names_fit_def)
qed

text \<open>The number of lines this day, and the file the last one went to.\<close>

definition lines_today :: "broken_time \<Rightarrow> log \<Rightarrow> int" where
  "lines_today t L = (if to_day L = tm_mday t then line_count L else 0)"

definition log_ok :: "broken_time \<Rightarrow> log \<Rightarrow> bool" where
  "log_ok t L \<longleftrightarrow> log_ready L \<and> names_fit L \<and> log_fp L \<noteq> None \<and> (is_async L \<longrightarrow> log_queue L \<noteq> None) \<and>
     0 \<le> line_count L \<and>
     (to_day L = tm_mday t \<longrightarrow>
        log_fp L = Some (day_file L t (if line_count L = 0 then 0 else (line_count L - 1) div MAX_LINES)))"

lemma div_pred: "(n :: int) mod M \<noteq> 0 \<Longrightarrow> 0 < M \<Longrightarrow> (n - 1) div M = n div M"
proof -
  assume "n mod M \<noteq> 0" "0 < M"
  then have "0 < n mod M" "n mod M < M" using pos_mod_bound [of M n] pos_mod_sign [of M n] by linarith+
  moreover have "n - 1 = M * (n div M) + (n mod M - 1)" using mult_div_mod_eq [of M n] by linarith
  ultimately show ?thesis by (intro int_div_pos_eq [of _ _ _ "n mod M - 1"]) linarith+
qed

lemma Log_rotate_file:
  assumes "log_ok t L" and "valid_time t" and "line_count L < 2 ^ 31" and "\<forall>n. can_open (made_dirs L) n"
  shows "Log_rotate can_open t L = Some (L\<lparr>to_day := tm_mday t, line_count := lines_today t L,
    log_fp := Some (day_file L t (lines_today t L div MAX_LINES))\<rparr>)"
proof -
  obtain f where f: "log_fp L = Some f" using assms(1) by (auto simp: log_ok_def)
  have fc: "flush_close L' = Some (L'\<lparr>log_fp := None\<rparr>)"
    if "log_fp L' = log_fp L" "is_async L' = is_async L" "log_queue L' = log_queue L" for L'
    using that assms(1) f by (simp add: flush_close_def Log_flush_def log_ok_def)
  have nf: "names_fit L" "0 \<le> line_count L" using assms(1) by (simp_all add: log_ok_def)
  have name: "c_string (snprintf (LOG_NAME_LEN - 72) (day_file L t n)) = day_file L t n" if "0 \<le> n" "n < 10 ^ 10" for n
    using day_file_short [OF nf(1) assms(2) that] by (intro c_string_whole) (simp_all add: LOG_NAME_LEN_def)
  have tail: "c_string (snprintf 36 (day_stamp t)) = day_stamp t"
    using day_stamp_facts [OF assms(2)] by (intro c_string_whole) simp_all
  consider (day) "to_day L \<noteq> tm_mday t"
    | (full) "to_day L = tm_mday t" "line_count L \<noteq> 0" "line_count L mod MAX_LINES = 0"
    | (same) "to_day L = tm_mday t" "line_count L = 0 \<or> line_count L mod MAX_LINES \<noteq> 0" by blast
  then show ?thesis
  proof cases
    case day
    then show ?thesis using name [of 0] fc assms(4)
      by (simp add: Log_rotate_def Let_def tail day_file_def lines_today_def fopen_def)
  next
    case full
    define n where "n = line_count L div MAX_LINES"
    have n: "0 < n" "n < 10 ^ 10" using full(2,3) nf(2) assms(3) by (auto simp: n_def MAX_LINES_def)
    have "line_count L smod MAX_LINES = 0" "line_count L sdiv MAX_LINES = n"
      using full(3) nf(2) by (simp_all add: smod_nonneg sdiv_nonneg MAX_LINES_def n_def)
    then show ?thesis using full(1,2) n name [of n] fc assms(4)
      by (simp add: Log_rotate_def Let_def tail day_file_def lines_today_def fopen_def n_def [symmetric])
  next
    case same
    have "line_count L div MAX_LINES = (if line_count L = 0 then 0 else (line_count L - 1) div MAX_LINES)"
      using same(2) div_pred [of "line_count L" MAX_LINES] by (auto simp: MAX_LINES_def)
    moreover have "\<not> (line_count L \<noteq> 0 \<and> line_count L smod MAX_LINES = 0)"
      using same(2) nf(2) by (auto simp: smod_nonneg MAX_LINES_def)
    moreover have "log_fp L = Some (day_file L t (if line_count L = 0 then 0 else (line_count L - 1) div MAX_LINES))"
      using same(1) assms(1) by (simp add: log_ok_def)
    ultimately show ?thesis using same(1)
      by (simp only: Log_rotate_def lines_today_def simp_thms if_False if_True HOL.simp_thms) simp
  qed
qed

lemma Log_emit_record:
  assumes "wf_buffer (log_buff L)" and "Buffer_PeekStringView (log_buff L) = rec" and "0 \<in> set rec"
    and "4096 \<le> length (vec (log_buff L))" and "log_fp L = Some f" and "is_async L \<longrightarrow> log_queue L \<noteq> None"
  shows "Log_emit L = Some (L\<lparr>log_buff := Buffer_RetrieveAll (log_buff L),
      log_queue := (if is_async L \<and> \<not> AsyncQueue_full (the (log_queue L))
         then Some (snd (AsyncQueue_push_back rec (the (log_queue L)))) else log_queue L),
      files := (if is_async L \<and> \<not> AsyncQueue_full (the (log_queue L)) then files L
         else (files L)(f := files L f @ c_string rec))\<rparr>)"
proof -
  have rr: "Buffer_RetrieveAll (Buffer_RetrieveAll b) = Buffer_RetrieveAll b" for b
    by (simp add: Buffer_RetrieveAll_def)
  have "Buffer_Peek (log_buff L) = rec @ drop (writePos (log_buff L)) (vec (log_buff L))"
    using assms(1,2) by (auto simp: buffer_defs) (metis append_take_drop_id drop_drop le_add_diff_inverse2)
  moreover have "c_string (rec @ r) = c_string rec" for r
    using assms(3) unfolding c_string_def by (metis (mono_tags, lifting) takeWhile_append1)
  ultimately have "c_string (Buffer_Peek (log_buff L)) = c_string rec" by metis
  then show ?thesis using assms(2,5,6)
    by (auto simp: Log_emit_def fputs_def Buffer_RetrieveAllToStr_def rr split: option.splits bool.splits)
qed

lemma Log_write_step:
  fixes L :: log and level :: int and s :: bytes
  assumes "log_ok t L" and "valid_time t" and "0 \<le> us" and "line_count L < 2 ^ 31" and "\<forall>n. can_open (made_dirs L) n"
  defines "f \<equiv> day_file L t (lines_today t L div MAX_LINES)"
    and "rec \<equiv> log_header t us @ log_title level @ fitted (length (vec (log_buff L)) - 36) s @ [10, 0]"
    and "queued \<equiv> is_async L \<and> \<not> AsyncQueue_full (the (log_queue L))"
  shows "\<exists>L'. Log_write can_open level t us (Some s) L = Some L' \<and> log_ok t L' \<and>
    lines_today t L' = lines_today t L + 1 \<and> log_fp L' = Some f \<and>
    log_queue L' = (if queued then Some (snd (AsyncQueue_push_back rec (the (log_queue L)))) else log_queue L) \<and>
    files L' = (if queued then files L else (files L)(f := files L f @ c_string rec))"
proof -
  let ?L1 = "L\<lparr>to_day := tm_mday t, line_count := lines_today t L, log_fp := Some f\<rparr>"
  have rot: "Log_rotate can_open t L = Some ?L1"
    unfolding f_def by (rule Log_rotate_file) (use assms in simp_all)
  have ok: "log_ready L" "names_fit L" "is_async L \<longrightarrow> log_queue L \<noteq> None" "0 \<le> line_count L"
    using assms(1) by (simp_all add: log_ok_def)
  have r1: "log_ready ?L1" using ok(1) by (simp add: log_ready_def)
  note h = length_log_header [OF assms(2,3)]
  define L2 where "L2 = Log_format level t us (Some s) ?L1"
  have v: "wf_buffer (log_buff L2)" "4096 \<le> length (vec (log_buff L2))"
    "Buffer_PeekStringView (log_buff L2) = rec"
    using Log_format_record [OF r1, of t us level s] h by (simp_all add: rec_def L2_def)
  have fr: "line_count L2 = lines_today t L + 1" "to_day L2 = tm_mday t" "log_fp L2 = Some f"
    "is_async L2 = is_async L" "log_queue L2 = log_queue L" "files L2 = files L" "log_path L2 = log_path L"
    "log_suffix L2 = log_suffix L"
    by (simp_all add: Log_format_def Let_def L2_def)
  have q2: "is_async L2 \<longrightarrow> log_queue L2 \<noteq> None" and z: "0 \<in> set rec" using ok(3) fr by (simp_all add: rec_def)
  obtain L' where L': "Log_emit L2 = Some L'" "log_buff L' = Buffer_RetrieveAll (log_buff L2)"
    "log_queue L' = (if queued then Some (snd (AsyncQueue_push_back rec (the (log_queue L)))) else log_queue L)"
    "files L' = (if queued then files L else (files L)(f := files L f @ c_string rec))"
    and fr': "line_count L' = line_count L2" "to_day L' = to_day L2" "log_fp L' = log_fp L2" "is_async L' = is_async L2"
      "log_path L' = log_path L2" "log_suffix L' = log_suffix L2"
    using Log_emit_record [OF v(1,3) z v(2) fr(3) q2] fr by (simp add: queued_def)
  have w: "Log_write can_open level t us (Some s) L = Some L'" by (simp add: Log_write_def rot L2_def [symmetric] L'(1))
  have "day_file L' t n = day_file L t n" for n by (simp add: day_file_def fr fr')
  moreover have "0 \<le> lines_today t L" using ok(4) by (simp add: lines_today_def)
  moreover have "log_ready L'" using v(2) L'(2) by (simp add: log_ready_def Buffer_RetrieveAll_def)
  moreover have "is_async L' \<longrightarrow> log_queue L' \<noteq> None" using L'(3) ok(3) fr fr' by simp
  ultimately have "log_ok t L'" using ok(2) fr fr' by (simp add: log_ok_def names_fit_def f_def)
  then show ?thesis using w fr fr' L' by (simp add: lines_today_def)
qed

lemma Log_Init_ok:
  assumes "valid_time t" and "\<forall>d n. can_open d n" and "4096 \<le> length (vec (log_buff L))"
    and "length (cfg_path c) + length (cfg_suffix c) \<le> 150" and "0 \<notin> set (cfg_path c)" and "0 \<notin> set (cfg_suffix c)"
  shows "\<exists>L'. Log_Init can_open c t L = Some L' \<and> log_ok t L' \<and> line_count L' = 0 \<and> is_open L' \<and>
    is_async L' = (0 < cfg_max_queue_size c) \<and> log_level L' = level_value (cfg_level c) \<and> files L' = files L \<and>
    log_buff L' = Buffer_RetrieveAll (log_buff L) \<and> made_dirs L' = made_dirs L"
proof -
  have "c_string (snprintf (LOG_NAME_LEN - 1) (cfg_path c @ str ''/'' @ day_stamp t @ cfg_suffix c)) =
      cfg_path c @ str ''/'' @ day_stamp t @ cfg_suffix c"
    using day_stamp_facts [OF assms(1)] assms(4-6) str_0_notin [of "''/''"]
    by (intro c_string_whole) (simp_all add: LOG_NAME_LEN_def)
  then show ?thesis using assms
    by (cases "log_fp L"; cases "0 < cfg_max_queue_size c"; cases "log_queue L")
      (simp_all add: Log_Init_def Let_def flush_close_def Log_flush_def fopen_def log_ok_def log_ready_def names_fit_def
        Buffer_RetrieveAll_def day_file_def)
qed

section \<open>Properties of write\<close>

text \<open>
  C36. One call of \<open>write\<close> adds one record: the header, the level's title and the message, cut to what is
  writable. The record goes to the queue if logging is asynchronous and there is room, and as a C
  string to the current file otherwise. The line numbered \<open>n\<close> of a day, counted from zero, opens or
  stays in file \<open>n / 50000\<close> of that day, and the logger is ready for the next call. The formatting stays within the buffer.
\<close>

theorem Log_write_spec:
  fixes L :: log and level :: int and s :: bytes
  assumes "log_ok t L" and "valid_time t" and "0 \<le> us" and "line_count L < 2 ^ 31" and "\<forall>n. can_open (made_dirs L) n"
  defines "f \<equiv> day_file L t (lines_today t L div MAX_LINES)"
    and "rec \<equiv> log_header t us @ log_title level @ fitted (length (vec (log_buff L)) - 36) s @ [10, 0]"
    and "queued \<equiv> is_async L \<and> \<not> AsyncQueue_full (the (log_queue L))"
  shows "\<exists>L'. Log_write can_open level t us (Some s) L = Some L' \<and> log_ok t L' \<and>
    lines_today t L' = lines_today t L + 1 \<and> log_fp L' = Some f \<and>
    log_queue L' = (if queued then Some (snd (AsyncQueue_push_back rec (the (log_queue L)))) else log_queue L) \<and>
    files L' = (if queued then files L else (files L)(f := files L f @ c_string rec))"
  unfolding f_def rec_def queued_def by (rule Log_write_step [where can_open = can_open, OF assms(1-5)])

definition demo_time :: broken_time where
  "demo_time = \<lparr>tm_year = 124, tm_mon = 0, tm_mday = 5, tm_hour = 9, tm_min = 8, tm_sec = 7\<rparr>"

definition demo_config :: "int \<Rightarrow> log_config" where
  "demo_config n = \<lparr>cfg_level = INFO, cfg_path = str ''d'', cfg_suffix = str ''s'', cfg_max_queue_size = n\<rparr>"

lemma demo_log:
  "\<exists>L. Log_Init (\<lambda>_ _. True) (demo_config n) demo_time Log_new = Some L \<and> log_ok demo_time L \<and> line_count L = 0 \<and>
     is_async L = (0 < n) \<and> length (vec (log_buff L)) = 4096 \<and> files L = (\<lambda>_. [])"
proof -
  have "0 \<notin> set (str ''d'')" "0 \<notin> set (str ''s'')" by (rule str_0_notin, simp)+
  then show ?thesis
    using Log_Init_ok [of demo_time "\<lambda>_ _. True" Log_new "demo_config n"]
    by (auto simp: demo_time_def demo_config_def valid_time_def Log_new_def Buffer_new_def Buffer_INITIAL_SIZE_def
        Buffer_RetrieveAll_def)
qed

lemma demo_time_valid: "valid_time demo_time"
  by (simp add: demo_time_def valid_time_def)

theorem Log_write_spec_witness:
  "\<exists>L L' f. Log_Init (\<lambda>_ _. True) (demo_config 0) demo_time Log_new = Some L \<and>
     Log_write (\<lambda>_ _. True) 1 demo_time 5 (Some (str ''hi'')) L = Some L' \<and> log_fp L' = Some f \<and>
     files L' f = c_string (log_header demo_time 5 @ log_title 1 @ str ''hi'' @ [10, 0])"
proof -
  obtain L where L: "Log_Init (\<lambda>_ _. True) (demo_config 0) demo_time Log_new = Some L" "log_ok demo_time L"
    "line_count L = 0" "\<not> is_async L" "length (vec (log_buff L)) = 4096" "files L = (\<lambda>_. [])"
    using demo_log [of 0] by auto
  note Log_write_spec [where can_open = "\<lambda>_ _. True" and us = 5 and level = 1 and s = "str ''hi''", OF L(2) demo_time_valid]
  with L(1,3-6) show ?thesis by (auto simp: fitted_def)
qed

text \<open>
  A message that does not fit is cut, and its line then has no newline: \<open>vsnprintf\<close> ends the text with
  a null byte inside the part that is counted as written, and \<open>fputs\<close> stops there, before the newline
  that was appended. The next record continues on the same line. A shorter message gives a whole line.
\<close>

theorem Log_long_message_loses_newline:
  fixes L :: log and level :: int and s :: bytes
  assumes "log_ok t L" and "valid_time t" and "0 \<le> us" and "line_count L < 2 ^ 31" and "\<forall>n. can_open (made_dirs L) n"
    and "\<not> is_async L" and "0 \<notin> set s"
  defines "f \<equiv> day_file L t (lines_today t L div MAX_LINES)" and "w \<equiv> length (vec (log_buff L)) - 36"
  shows "\<exists>L'. Log_write can_open level t us (Some s) L = Some L' \<and>
    files L' f = files L f @ log_header t us @ log_title level @ (if length s < w then s @ [10] else take (w - 1) s)"
  using Log_write_step [where can_open = can_open, OF assms(1-5), of level s] assms(6)
    c_string_record [OF assms(7), of t us level w "[]"]
  by (auto simp: f_def w_def line_text_def)

theorem Log_long_message_loses_newline_witness:
  "\<exists>L L' f. Log_Init (\<lambda>_ _. True) (demo_config 0) demo_time Log_new = Some L \<and>
     Log_write (\<lambda>_ _. True) 1 demo_time 5 (Some (replicate 4060 97)) L = Some L' \<and>
     files L' f = log_header demo_time 5 @ log_title 1 @ replicate 4059 97"
proof -
  obtain L where L: "Log_Init (\<lambda>_ _. True) (demo_config 0) demo_time Log_new = Some L" "log_ok demo_time L"
    "line_count L = 0" "\<not> is_async L" "length (vec (log_buff L)) = 4096" "files L = (\<lambda>_. [])"
    using demo_log [of 0] by auto
  have "(0 :: byte) \<notin> set (replicate 4060 97)" by simp
  note Log_long_message_loses_newline [where can_open = "\<lambda>_ _. True" and us = 5 and level = 1,
      OF L(2) demo_time_valid _ _ _ L(4) this]
  with L(1,3,5,6) show ?thesis by auto
qed

section \<open>The queue between the threads\<close>

text \<open>
  The writer is the only consumer. \<open>blocked\<close> are the producers waiting for room, \<open>roused\<close> those that have
  been woken and not yet got the mutex back. \<open>accepted\<close>, \<open>taken\<close> and \<open>lost\<close> record what was pushed, popped
  and cleared by \<open>close\<close>. A wake-up without a notification is allowed, as for \<open>std::condition_variable\<close>.
\<close>

datatype writer = W_ready | W_waiting | W_woken | W_writing bytes | W_gone

record queue_sys =
  aq :: async_queue
  writer :: writer
  blocked :: "bytes multiset"
  roused :: "bytes multiset"
  accepted :: "bytes list"
  taken :: "bytes list"
  lost :: "bytes list"

definition queue_init :: "nat \<Rightarrow> queue_sys" where
  "queue_init n = \<lparr>aq = AsyncQueue_new n, writer = W_ready, blocked = {#}, roused = {#}, accepted = [], taken = [],
     lost = []\<rparr>"

definition wake_writer :: "writer \<Rightarrow> writer" where
  "wake_writer c = (if c = W_waiting then W_woken else c)"

text \<open>\<open>cond_producer_.notify_one()\<close> wakes one of the blocked producers if there is one.\<close>

inductive notify_producer :: "queue_sys \<Rightarrow> queue_sys \<Rightarrow> bool" where
  none: "blocked s = {#} \<Longrightarrow> notify_producer s s"
| one: "blocked s = add_mset i B \<Longrightarrow> notify_producer s (s\<lparr>blocked := B, roused := add_mset i (roused s)\<rparr>)"

inductive writer_step :: "queue_sys \<Rightarrow> queue_sys \<Rightarrow> bool" where
  pop: "writer s = W_ready \<and> AsyncQueue_pop_lock (aq s) = Pop_item i q \<or>
        writer s = W_woken \<and> AsyncQueue_pop_woken (aq s) = Pop_item i q \<Longrightarrow>
        notify_producer (s\<lparr>aq := q, writer := W_writing i, taken := taken s @ [i]\<rparr>) t \<Longrightarrow> writer_step s t"
| wait: "writer s = W_ready \<and> AsyncQueue_pop_lock (aq s) = Pop_waits \<or>
         writer s = W_woken \<and> AsyncQueue_pop_woken (aq s) = Pop_waits \<Longrightarrow>
         writer_step s (s\<lparr>writer := W_waiting\<rparr>)"
| leave: "writer s = W_woken \<Longrightarrow> AsyncQueue_pop_woken (aq s) = Pop_closed \<Longrightarrow> writer_step s (s\<lparr>writer := W_gone\<rparr>)"
| written: "writer s = W_writing i \<Longrightarrow> writer_step s (s\<lparr>writer := W_ready\<rparr>)"

inductive other_step :: "queue_sys \<Rightarrow> queue_sys \<Rightarrow> bool" where
  push: "AsyncQueue_push_lock i (aq s) = Push_done q \<Longrightarrow>
         other_step s (s\<lparr>aq := q, writer := wake_writer (writer s), accepted := accepted s @ [i]\<rparr>)"
| push_blocks: "AsyncQueue_push_lock i (aq s) = Push_waits \<Longrightarrow>
         other_step s (s\<lparr>blocked := add_mset i (blocked s)\<rparr>)"
| push_again: "roused s = add_mset i R \<Longrightarrow> AsyncQueue_push_woken i (aq s) = Push_done q \<Longrightarrow>
         other_step s (s\<lparr>aq := q, roused := R, writer := wake_writer (writer s), accepted := accepted s @ [i]\<rparr>)"
| push_blocks_again: "roused s = add_mset i R \<Longrightarrow> AsyncQueue_push_woken i (aq s) = Push_waits \<Longrightarrow>
         other_step s (s\<lparr>roused := R, blocked := add_mset i (blocked s)\<rparr>)"
| close: "other_step s (s\<lparr>aq := AsyncQueue_close (aq s), writer := wake_writer (writer s), blocked := {#},
         roused := roused s + blocked s, lost := lost s @ items (aq s)\<rparr>)"
| flush_or_spurious: "other_step s (s\<lparr>writer := wake_writer (writer s)\<rparr>)"
| spurious_producer: "blocked s = add_mset i B \<Longrightarrow> other_step s (s\<lparr>blocked := B, roused := add_mset i (roused s)\<rparr>)"

inductive queue_reachable :: "nat \<Rightarrow> queue_sys \<Rightarrow> bool" for n where
  init: "queue_reachable n (queue_init n)"
| writes: "queue_reachable n s \<Longrightarrow> writer_step s t \<Longrightarrow> queue_reachable n t"
| others: "queue_reachable n s \<Longrightarrow> other_step s t \<Longrightarrow> queue_reachable n t"

definition queue_inv :: "nat \<Rightarrow> queue_sys \<Rightarrow> bool" where
  "queue_inv n s \<longleftrightarrow> capacity (aq s) = n \<and> length (items (aq s)) \<le> n \<and>
     mset (accepted s) = mset (taken s) + mset (lost s) + mset (items (aq s)) \<and>
     (\<not> closed (aq s) \<longrightarrow> lost s = [] \<and> accepted s = taken s @ items (aq s)) \<and>
     (writer s = W_waiting \<longrightarrow> items (aq s) = []) \<and>
     (blocked s \<noteq> {#} \<longrightarrow> n \<le> length (items (aq s)) + size (roused s))"

lemmas queue_action_defs = AsyncQueue_push_lock_def AsyncQueue_push_woken_def AsyncQueue_pop_lock_def
  AsyncQueue_pop_woken_def AsyncQueue_close_def AsyncQueue_new_def wake_writer_def

lemma writer_step_inv: "writer_step s t \<Longrightarrow> queue_inv n s \<Longrightarrow> queue_inv n t"
proof (induction rule: writer_step.induct)
  case (pop s i q t)
  then obtain xs where "items (aq s) = i # xs" "q = (aq s)\<lparr>items := xs\<rparr>"
    by (auto simp: queue_action_defs split: list.splits if_splits)
  with pop.hyps(2) pop.prems show ?case
    by (cases rule: notify_producer.cases) (auto simp: queue_inv_def)
qed (auto simp: queue_inv_def queue_action_defs split: list.splits if_splits)

lemma other_step_inv: "other_step s t \<Longrightarrow> queue_inv n s \<Longrightarrow> queue_inv n t"
  by (induction rule: other_step.induct)
    (auto simp: queue_inv_def queue_action_defs split: if_splits)

lemma queue_reachable_inv: "queue_reachable n s \<Longrightarrow> queue_inv n s"
proof (induction rule: queue_reachable.induct)
  case init
  show ?case by (simp add: queue_inv_def queue_init_def AsyncQueue_new_def)
qed (blast intro: writer_step_inv other_step_inv)+

text \<open>
  C35. The queue of log records between any number of logging threads and the writer: in every reachable
  state nothing pushed has been duplicated or lost except what \<open>close\<close> cleared; until then the records
  pushed are the ones popped followed by the queue, in order; the queue stays within its capacity;
  the writer waits only on an empty queue, and a producer waits only if the places that are taken
  and the producers on their way account for the whole capacity.
\<close>

theorem log_queue_fifo:
  assumes "queue_reachable n s"
  shows "mset (accepted s) = mset (taken s) + mset (lost s) + mset (items (aq s)) \<and>
    (\<not> closed (aq s) \<longrightarrow> accepted s = taken s @ items (aq s)) \<and> length (items (aq s)) \<le> n \<and>
    (writer s = W_waiting \<longrightarrow> items (aq s) = []) \<and>
    (blocked s \<noteq> {#} \<longrightarrow> n \<le> length (items (aq s)) + size (roused s))"
  using queue_reachable_inv [OF assms] by (simp add: queue_inv_def)

lemma queue_one_written:
  assumes "0 < n"
  shows "queue_reachable n ((queue_init n)\<lparr>accepted := [i], taken := [i], writer := W_writing i\<rparr>)"
proof -
  let ?s0 = "queue_init n"
  let ?s1 = "?s0\<lparr>aq := (aq ?s0)\<lparr>items := [i]\<rparr>, writer := W_ready, accepted := [i]\<rparr>"
  let ?s2 = "?s0\<lparr>accepted := [i], taken := [i], writer := W_writing i\<rparr>"
  have "other_step ?s0 (?s0\<lparr>aq := (aq ?s0)\<lparr>items := [i]\<rparr>, writer := wake_writer (writer ?s0), accepted := accepted ?s0 @ [i]\<rparr>)"
    using assms by (intro other_step.push) (simp add: queue_action_defs queue_init_def)
  then have "other_step ?s0 ?s1" by (simp add: queue_init_def wake_writer_def)
  then have 1: "queue_reachable n ?s1" by (rule queue_reachable.others [OF queue_reachable.init])
  have "writer_step ?s1 ?s2"
    by (rule writer_step.pop [where i = i and q = "AsyncQueue_new n"])
      (auto simp: queue_action_defs queue_init_def intro!: notify_producer.none)
  then show ?thesis by (rule queue_reachable.writes [OF 1])
qed

theorem log_queue_fifo_witness:
  "queue_reachable 2 ((queue_init 2)\<lparr>accepted := [[7]], taken := [[7]], writer := W_writing [7]\<rparr>) \<and>
   mset [[7 :: byte]] = mset (taken ((queue_init 2)\<lparr>accepted := [[7]], taken := [[7]], writer := W_writing [7]\<rparr>))"
proof -
  have r: "queue_reachable 2 ((queue_init 2)\<lparr>accepted := [[7]], taken := [[7]], writer := W_writing [7]\<rparr>)"
    by (rule queue_one_written) simp
  from log_queue_fifo [OF r] r show ?thesis by (simp add: queue_init_def AsyncQueue_new_def)
qed



text \<open>
  A producer that waited for room pushes into the queue after it was closed: \<open>close\<close> empties the queue and
  wakes it, and it does not test \<open>closed_\<close> again. The record is never written.
\<close>

lemma woken_push_after_close:
  assumes "0 < capacity q"
  shows "AsyncQueue_push_woken i (AsyncQueue_close q) = Push_done ((AsyncQueue_close q)\<lparr>items := [i]\<rparr>)"
  using assms by (simp add: queue_action_defs)

text \<open>What the destructor leaves: a closed queue and no open file, if the two waits end.\<close>

lemma Log_delete_spec:
  assumes "until_empty L = Some L1" and "join (L1\<lparr>log_queue := map_option AsyncQueue_close (log_queue L1)\<rparr>) = Some L2"
    and "log_queue L \<noteq> None" and "log_queue L2 \<noteq> None"
  shows "Log_delete until_empty join L = Some (L2\<lparr>log_fp := None\<rparr>)"
  using assms by (auto simp: Log_delete_def flush_close_def Log_flush_def)

end
