(* ===== verification/RpcWire.thy ===== *)
theory RpcWire
  imports RpcMessages CodecModel
begin

text \<open>
  \<open>code/protocol/rpc.pb.cc\<close>: the generated \<open>_InternalSerialize\<close>, \<open>_InternalParse\<close> and \<open>ByteSizeLong\<close> of the two
  envelope messages. They call the protobuf runtime, which is not part of the repository: its functions
  are the fields of \<open>pb_runtime\<close>, and what the generated code relies on is \<open>pb_laws\<close>. A pointer into the
  input is the rest of the input, the null pointer is \<open>None\<close>; using it for reading has no value. The lemmas
  show that parsing the serialised bytes of a message into another one merges the first into the
  second, and so that a message survives serialising, framing, decoding and parsing.
\<close>

section \<open>The runtime\<close>

record pb_runtime =
  rt_ReadTag :: "bytes \<Rightarrow> 32 word \<times> bytes option"
  rt_StringParser :: "bytes \<Rightarrow> bytes \<times> bytes option"
  rt_ReadVarint32 :: "bytes \<Rightarrow> 32 word \<times> bytes option"
  rt_VerifyUTF8 :: "bytes \<Rightarrow> bool"
  rt_UnknownFieldParse :: "32 word \<Rightarrow> bytes \<Rightarrow> bytes \<Rightarrow> bytes \<times> bytes option"
  rt_WriteString :: "nat \<Rightarrow> bytes \<Rightarrow> bytes"
  rt_WriteInt32 :: "nat \<Rightarrow> int \<Rightarrow> bytes"
  rt_StringSize :: "bytes \<Rightarrow> nat"
  rt_Int32SizePlusOne :: "int \<Rightarrow> nat"

text \<open>
  The wire format for the field numbers of one tag byte: a tag holds the number and the wire type, 2 for
  strings and 0 for varints, and the reader of a field stops behind what its writer wrote.
\<close>

definition pb_laws :: "pb_runtime \<Rightarrow> bool" where
  "pb_laws rt \<longleftrightarrow>
     (\<forall>n s r. 0 < n \<and> n < 16 \<and> length s < 2 ^ 31 \<longrightarrow>
        rt_WriteString rt n s \<noteq> [] \<and> length (rt_WriteString rt n s) = 1 + rt_StringSize rt s \<and>
        (\<exists>q. rt_ReadTag rt (rt_WriteString rt n s @ r) = (word_of_nat (8 * n + 2), Some q) \<and>
             rt_StringParser rt q = (s, Some r))) \<and>
     (\<forall>n v r. 0 < n \<and> n < 16 \<and> - (2 ^ 31) \<le> v \<and> v < 2 ^ 31 \<longrightarrow>
        rt_WriteInt32 rt n v \<noteq> [] \<and> length (rt_WriteInt32 rt n v) = rt_Int32SizePlusOne rt v \<and>
        (\<exists>q. rt_ReadTag rt (rt_WriteInt32 rt n v @ r) = (word_of_nat (8 * n), Some q) \<and>
             rt_ReadVarint32 rt q = (word_of_int v, Some r)))"

section \<open>Parsing\<close>

datatype 'm field_result = Field_unusual | Field_failure 'm | Field_parsed bytes 'm

text \<open>A string or bytes field: parse into the field, and for a string check that it is UTF-8.\<close>

definition string_field ::
  "pb_runtime \<Rightarrow> bool \<Rightarrow> (bytes \<Rightarrow> 'm \<Rightarrow> 'm) \<Rightarrow> bytes option \<Rightarrow> 'm \<Rightarrow> 'm field_result option" where
  "string_field rt check put ptr m =
     Option.bind ptr (\<lambda>p. Some (case rt_StringParser rt p of
         (s, None) \<Rightarrow> Field_failure (put s m)
       | (s, Some q) \<Rightarrow> if check \<and> \<not> rt_VerifyUTF8 rt s then Field_failure (put s m) else Field_parsed q (put s m)))"

definition int32_field ::
  "pb_runtime \<Rightarrow> (int \<Rightarrow> 'm \<Rightarrow> 'm) \<Rightarrow> bytes option \<Rightarrow> 'm \<Rightarrow> 'm field_result option" where
  "int32_field rt put ptr m =
     Option.bind ptr (\<lambda>p. Some (case rt_ReadVarint32 rt p of
         (v, None) \<Rightarrow> Field_failure (put (sint v) m)
       | (v, Some q) \<Rightarrow> Field_parsed q (put (sint v) m)))"

text \<open>The loop that both parsers are: until the input is done, read a tag and switch on it.\<close>

partial_function (option) parse_fields ::
  "pb_runtime \<Rightarrow> (32 word \<Rightarrow> bytes option \<Rightarrow> 'm \<Rightarrow> 'm field_result option) \<Rightarrow>
     (32 word \<Rightarrow> bytes \<Rightarrow> 'm \<Rightarrow> 'm \<times> bytes option) \<Rightarrow> bytes \<Rightarrow> 'm \<Rightarrow> ('m \<times> bytes option \<times> 32 word) option"
where
  "parse_fields rt field unknown ptr m =
     (if ptr = [] then Some (m, Some [], 0)
      else
        let (tag, q) = rt_ReadTag rt ptr
        in Option.bind (field tag q m) (\<lambda>r.
             case r of
               Field_failure m' \<Rightarrow> Some (m', None, 0)
             | Field_parsed q' m' \<Rightarrow> parse_fields rt field unknown q' m'
             | Field_unusual \<Rightarrow>
                 if tag = 0 \<or> and tag 7 = 4 then Some (m, q, if q = None then 0 else tag)
                 else Option.bind q (\<lambda>p.
                   case unknown tag p m of
                     (m', None) \<Rightarrow> Some (m', None, 0)
                   | (m', Some q') \<Rightarrow> parse_fields rt field unknown q' m')))"

definition RpcRequest_field ::
  "pb_runtime \<Rightarrow> 32 word \<Rightarrow> bytes option \<Rightarrow> rpc_request \<Rightarrow> rpc_request field_result option" where
  "RpcRequest_field rt tag ptr m =
     (let low = (ucast tag :: 8 word); number = drop_bit 3 tag
      in if number = 1 \<and> low = 10 then string_field rt True RpcRequest_set_service_name ptr m
         else if number = 2 \<and> low = 18 then string_field rt True RpcRequest_set_method_name ptr m
         else if number = 3 \<and> low = 26 then string_field rt True RpcRequest_set_request_id ptr m
         else if number = 4 \<and> low = 34 then string_field rt False RpcRequest_set_body ptr m
         else Some Field_unusual)"

definition RpcRequest_unknown ::
  "pb_runtime \<Rightarrow> 32 word \<Rightarrow> bytes \<Rightarrow> rpc_request \<Rightarrow> rpc_request \<times> bytes option" where
  "RpcRequest_unknown rt tag ptr m =
     (let (u, q) = rt_UnknownFieldParse rt tag (rq_unknown m) ptr in (m\<lparr>rq_unknown := u\<rparr>, q))"

definition RpcRequest_InternalParse ::
  "pb_runtime \<Rightarrow> bytes \<Rightarrow> rpc_request \<Rightarrow> (rpc_request \<times> bytes option \<times> 32 word) option" where
  "RpcRequest_InternalParse rt = parse_fields rt (RpcRequest_field rt) (RpcRequest_unknown rt)"

definition RpcResponse_field ::
  "pb_runtime \<Rightarrow> 32 word \<Rightarrow> bytes option \<Rightarrow> rpc_response \<Rightarrow> rpc_response field_result option" where
  "RpcResponse_field rt tag ptr m =
     (let low = (ucast tag :: 8 word); number = drop_bit 3 tag
      in if number = 1 \<and> low = 10 then string_field rt True RpcResponse_set_request_id ptr m
         else if number = 2 \<and> low = 16 then int32_field rt RpcResponse_set_code ptr m
         else if number = 3 \<and> low = 26 then string_field rt True RpcResponse_set_msg ptr m
         else if number = 4 \<and> low = 34 then string_field rt False RpcResponse_set_body ptr m
         else Some Field_unusual)"

definition RpcResponse_unknown ::
  "pb_runtime \<Rightarrow> 32 word \<Rightarrow> bytes \<Rightarrow> rpc_response \<Rightarrow> rpc_response \<times> bytes option" where
  "RpcResponse_unknown rt tag ptr m =
     (let (u, q) = rt_UnknownFieldParse rt tag (rs_unknown m) ptr in (m\<lparr>rs_unknown := u\<rparr>, q))"

definition RpcResponse_InternalParse ::
  "pb_runtime \<Rightarrow> bytes \<Rightarrow> rpc_response \<Rightarrow> (rpc_response \<times> bytes option \<times> 32 word) option" where
  "RpcResponse_InternalParse rt = parse_fields rt (RpcResponse_field rt) (RpcResponse_unknown rt)"

section \<open>Serialising\<close>

text \<open>A string field that is not UTF-8 is only logged; an empty one is left out.\<close>

definition string_out :: "pb_runtime \<Rightarrow> nat \<Rightarrow> bytes \<Rightarrow> bytes" where
  "string_out rt n s = (if s \<noteq> [] then rt_WriteString rt n s else [])"

definition RpcRequest_InternalSerialize :: "pb_runtime \<Rightarrow> rpc_request \<Rightarrow> bytes" where
  "RpcRequest_InternalSerialize rt m =
     string_out rt 1 (rq_service_name m) @ string_out rt 2 (rq_method_name m) @
     string_out rt 3 (rq_request_id m) @ string_out rt 4 (rq_body m) @ rq_unknown m"

definition RpcResponse_InternalSerialize :: "pb_runtime \<Rightarrow> rpc_response \<Rightarrow> bytes" where
  "RpcResponse_InternalSerialize rt m =
     string_out rt 1 (rs_request_id m) @ (if rs_code m \<noteq> 0 then rt_WriteInt32 rt 2 (rs_code m) else []) @
     string_out rt 3 (rs_msg m) @ string_out rt 4 (rs_body m) @ rs_unknown m"

definition string_size :: "pb_runtime \<Rightarrow> bytes \<Rightarrow> nat" where
  "string_size rt s = (if s \<noteq> [] then 1 + rt_StringSize rt s else 0)"

definition RpcRequest_ByteSizeLong :: "pb_runtime \<Rightarrow> rpc_request \<Rightarrow> nat" where
  "RpcRequest_ByteSizeLong rt m =
     string_size rt (rq_service_name m) + string_size rt (rq_method_name m) +
     string_size rt (rq_request_id m) + string_size rt (rq_body m) + length (rq_unknown m)"

definition RpcResponse_ByteSizeLong :: "pb_runtime \<Rightarrow> rpc_response \<Rightarrow> nat" where
  "RpcResponse_ByteSizeLong rt m =
     string_size rt (rs_request_id m) + string_size rt (rs_msg m) + string_size rt (rs_body m) +
     (if rs_code m \<noteq> 0 then rt_Int32SizePlusOne rt (rs_code m) else 0) + length (rs_unknown m)"

text \<open>Messages that the format can carry: strings in UTF-8 and of bounded length, a code of 32 bits.\<close>

definition request_fits :: "pb_runtime \<Rightarrow> rpc_request \<Rightarrow> bool" where
  "request_fits rt m \<longleftrightarrow>
     (\<forall>s \<in> {rq_service_name m, rq_method_name m, rq_request_id m}. rt_VerifyUTF8 rt s \<and> length s < 2 ^ 31) \<and>
     length (rq_body m) < 2 ^ 31 \<and> rq_unknown m = []"

definition response_fits :: "pb_runtime \<Rightarrow> rpc_response \<Rightarrow> bool" where
  "response_fits rt m \<longleftrightarrow>
     (\<forall>s \<in> {rs_request_id m, rs_msg m}. rt_VerifyUTF8 rt s \<and> length s < 2 ^ 31) \<and>
     length (rs_body m) < 2 ^ 31 \<and> - (2 ^ 31) \<le> rs_code m \<and> rs_code m < 2 ^ 31 \<and> rs_unknown m = []"

section \<open>One field\<close>

lemma parse_string:
  assumes "pb_laws rt" and "0 < n" and "n < 16" and "length s < 2 ^ 31" and "check \<longrightarrow> rt_VerifyUTF8 rt s"
    and "\<And>ptr. field (word_of_nat (8 * n + 2)) ptr m = string_field rt check put ptr m"
  shows "parse_fields rt field unknown (string_out rt n s @ r) m =
    parse_fields rt field unknown r (if s \<noteq> [] then put s m else m)"
proof (cases "s = []")
  case True then show ?thesis by (simp add: string_out_def)
next
  case False
  obtain q where q: "rt_WriteString rt n s \<noteq> []"
    "rt_ReadTag rt (rt_WriteString rt n s @ r) = (word_of_nat (8 * n + 2), Some q)" "rt_StringParser rt q = (s, Some r)"
    using assms(1-4) unfolding pb_laws_def by blast
  have "field (word_of_nat (8 * n + 2)) (Some q) m = Some (Field_parsed r (put s m))"
    unfolding assms(6) using assms(5) q(3) by (simp add: string_field_def)
  then show ?thesis using q(1,2) False by (subst parse_fields.simps) (simp add: string_out_def)
qed

lemma parse_int32:
  assumes "pb_laws rt" and "0 < n" and "n < 16" and "- (2 ^ 31) \<le> v" and "v < 2 ^ 31"
    and "\<And>ptr. field (word_of_nat (8 * n)) ptr m = int32_field rt put ptr m"
  shows "parse_fields rt field unknown ((if v \<noteq> 0 then rt_WriteInt32 rt n v else []) @ r) m =
    parse_fields rt field unknown r (if v \<noteq> 0 then put v m else m)"
proof (cases "v = 0")
  case False
  obtain q where q: "rt_WriteInt32 rt n v \<noteq> []"
    "rt_ReadTag rt (rt_WriteInt32 rt n v @ r) = (word_of_nat (8 * n), Some q)" "rt_ReadVarint32 rt q = (word_of_int v, Some r)"
    using assms(1-5) unfolding pb_laws_def by blast
  have "sint (word_of_int v :: 32 word) = v" using assms(4,5) by (simp add: int_word_sint)
  then have "field (word_of_nat (8 * n)) (Some q) m = Some (Field_parsed r (put v m))"
    unfolding assms(6) using q(3) by (simp add: int32_field_def)
  then show ?thesis using q(1,2) False by (subst parse_fields.simps) simp
qed simp

lemma parse_done: "parse_fields rt field unknown [] m = Some (m, Some [], 0)"
  by (subst parse_fields.simps) simp

section \<open>Whole messages\<close>

lemma request_fields:
  "RpcRequest_field rt (word_of_nat (8 * 1 + 2)) ptr m = string_field rt True RpcRequest_set_service_name ptr m"
  "RpcRequest_field rt (word_of_nat (8 * 2 + 2)) ptr m = string_field rt True RpcRequest_set_method_name ptr m"
  "RpcRequest_field rt (word_of_nat (8 * 3 + 2)) ptr m = string_field rt True RpcRequest_set_request_id ptr m"
  "RpcRequest_field rt (word_of_nat (8 * 4 + 2)) ptr m = string_field rt False RpcRequest_set_body ptr m"
  by (simp_all add: RpcRequest_field_def)

lemma response_fields:
  "RpcResponse_field rt (word_of_nat (8 * 1 + 2)) ptr m = string_field rt True RpcResponse_set_request_id ptr m"
  "RpcResponse_field rt (word_of_nat (8 * 2)) ptr m = int32_field rt RpcResponse_set_code ptr m"
  "RpcResponse_field rt (word_of_nat (8 * 3 + 2)) ptr m = string_field rt True RpcResponse_set_msg ptr m"
  "RpcResponse_field rt (word_of_nat (8 * 4 + 2)) ptr m = string_field rt False RpcResponse_set_body ptr m"
  by (simp_all add: RpcResponse_field_def)

lemma request_parse_merges:
  assumes "pb_laws rt" and "request_fits rt m"
  shows "RpcRequest_InternalParse rt (RpcRequest_InternalSerialize rt m) m0 = Some (RpcRequest_MergeImpl m0 m, Some [], 0)"
proof -
  have f: "rt_VerifyUTF8 rt (rq_service_name m)" "rt_VerifyUTF8 rt (rq_method_name m)" "rt_VerifyUTF8 rt (rq_request_id m)"
    "length (rq_service_name m) < 2 ^ 31" "length (rq_method_name m) < 2 ^ 31" "length (rq_request_id m) < 2 ^ 31"
    "length (rq_body m) < 2 ^ 31" "rq_unknown m = []" using assms(2) by (simp_all add: request_fits_def)
  let ?P = "parse_fields rt (RpcRequest_field rt) (RpcRequest_unknown rt)"
  let ?put = "\<lambda>set s x. if s \<noteq> [] then set s x else x"
  have p1: "?P (string_out rt 1 (rq_service_name m) @ r) x = ?P r (?put RpcRequest_set_service_name (rq_service_name m) x)" for r x
    by (rule parse_string [where check = True, OF assms(1)]; (rule request_fields | rule f | simp add: f))
  have p2: "?P (string_out rt 2 (rq_method_name m) @ r) x = ?P r (?put RpcRequest_set_method_name (rq_method_name m) x)" for r x
    by (rule parse_string [where check = True, OF assms(1)]; (rule request_fields | rule f | simp add: f))
  have p3: "?P (string_out rt 3 (rq_request_id m) @ r) x = ?P r (?put RpcRequest_set_request_id (rq_request_id m) x)" for r x
    by (rule parse_string [where check = True, OF assms(1)]; (rule request_fields | rule f | simp add: f))
  have p4: "?P (string_out rt 4 (rq_body m) @ r) x = ?P r (?put RpcRequest_set_body (rq_body m) x)" for r x
    by (rule parse_string [where check = False, OF assms(1)]; (rule request_fields | rule f | simp add: f))
  show ?thesis
    unfolding RpcRequest_InternalParse_def RpcRequest_InternalSerialize_def p1 p2 p3 p4 f(8) parse_done
    by (simp add: f(8) RpcRequest_MergeImpl_def message_set_defs Let_def)
qed

lemma response_parse_merges:
  assumes "pb_laws rt" and "response_fits rt m"
  shows "RpcResponse_InternalParse rt (RpcResponse_InternalSerialize rt m) m0 = Some (RpcResponse_MergeImpl m0 m, Some [], 0)"
proof -
  have f: "rt_VerifyUTF8 rt (rs_request_id m)" "rt_VerifyUTF8 rt (rs_msg m)"
    "length (rs_request_id m) < 2 ^ 31" "length (rs_msg m) < 2 ^ 31" "length (rs_body m) < 2 ^ 31"
    "- (2 ^ 31) \<le> rs_code m" "rs_code m < 2 ^ 31" "rs_unknown m = []" using assms(2) by (simp_all add: response_fits_def)
  let ?P = "parse_fields rt (RpcResponse_field rt) (RpcResponse_unknown rt)"
  let ?put = "\<lambda>set s x. if s \<noteq> [] then set s x else x"
  have p1: "?P (string_out rt 1 (rs_request_id m) @ r) x = ?P r (?put RpcResponse_set_request_id (rs_request_id m) x)" for r x
    by (rule parse_string [where check = True, OF assms(1)]; (rule response_fields | rule f | simp add: f))
  have p2: "?P ((if rs_code m \<noteq> 0 then rt_WriteInt32 rt 2 (rs_code m) else []) @ r) x =
       ?P r (if rs_code m \<noteq> 0 then RpcResponse_set_code (rs_code m) x else x)" for r x
    by (rule parse_int32 [OF assms(1)]; (rule response_fields | rule f | simp add: f))
  have p3: "?P (string_out rt 3 (rs_msg m) @ r) x = ?P r (?put RpcResponse_set_msg (rs_msg m) x)" for r x
    by (rule parse_string [where check = True, OF assms(1)]; (rule response_fields | rule f | simp add: f))
  have p4: "?P (string_out rt 4 (rs_body m) @ r) x = ?P r (?put RpcResponse_set_body (rs_body m) x)" for r x
    by (rule parse_string [where check = False, OF assms(1)]; (rule response_fields | rule f | simp add: f))
  show ?thesis
    unfolding RpcResponse_InternalParse_def RpcResponse_InternalSerialize_def p1 p2 p3 p4 f(8) parse_done
    by (simp add: f(8) RpcResponse_MergeImpl_def message_set_defs Let_def)
qed

lemma string_out_size:
  assumes "pb_laws rt" and "0 < n" and "n < 16" and "length s < 2 ^ 31"
  shows "length (string_out rt n s) = string_size rt s"
  using assms unfolding pb_laws_def string_out_def string_size_def by simp

lemma int32_out_size:
  assumes "pb_laws rt" and "0 < n" and "n < 16" and "- (2 ^ 31) \<le> v" and "v < 2 ^ 31"
  shows "length (rt_WriteInt32 rt n v) = rt_Int32SizePlusOne rt v"
  using assms unfolding pb_laws_def by simp

lemma request_size:
  assumes "pb_laws rt" and "request_fits rt m"
  shows "length (RpcRequest_InternalSerialize rt m) = RpcRequest_ByteSizeLong rt m"
  using assms(2) by (simp add: RpcRequest_InternalSerialize_def RpcRequest_ByteSizeLong_def request_fits_def
      string_out_size [OF assms(1)])

lemma response_size:
  assumes "pb_laws rt" and "response_fits rt m"
  shows "length (RpcResponse_InternalSerialize rt m) = RpcResponse_ByteSizeLong rt m"
  using assms(2) by (simp add: RpcResponse_InternalSerialize_def RpcResponse_ByteSizeLong_def response_fits_def
      string_out_size [OF assms(1)] int32_out_size [OF assms(1)])

section \<open>A concrete runtime\<close>

text \<open>The protobuf encoding: varints of seven bits a byte, least significant first, and length-delimited strings.\<close>

fun varint :: "nat \<Rightarrow> bytes" where
  "varint n = (if n < 128 then [word_of_nat n] else word_of_nat (n mod 128 + 128) # varint (n div 128))"

fun read_varint :: "bytes \<Rightarrow> (nat \<times> bytes) option" where
  "read_varint [] = None"
| "read_varint (b # bs) =
     (if unat b < 128 then Some (unat b, bs)
      else map_option (\<lambda>(n, r). (unat b - 128 + 128 * n, r)) (read_varint bs))"

definition proto_runtime :: pb_runtime where
  "proto_runtime =
     \<lparr>rt_ReadTag = (\<lambda>p. case read_varint p of None \<Rightarrow> (0, None) | Some (n, q) \<Rightarrow> (word_of_nat n, Some q)),
      rt_StringParser = (\<lambda>p. case read_varint p of None \<Rightarrow> ([], None)
        | Some (n, q) \<Rightarrow> if n \<le> length q then (take n q, Some (drop n q)) else ([], None)),
      rt_ReadVarint32 = (\<lambda>p. case read_varint p of None \<Rightarrow> (0, None) | Some (n, q) \<Rightarrow> (word_of_nat n, Some q)),
      rt_VerifyUTF8 = (\<lambda>s. \<forall>b \<in> set s. unat b < 128),
      rt_UnknownFieldParse = (\<lambda>tag u p. (u, None)),
      rt_WriteString = (\<lambda>n s. varint (8 * n + 2) @ varint (length s) @ s),
      rt_WriteInt32 = (\<lambda>n v. varint (8 * n) @ varint (unat (word_of_int v :: 64 word))),
      rt_StringSize = (\<lambda>s. length (varint (length s)) + length s),
      rt_Int32SizePlusOne = (\<lambda>v. 1 + length (varint (unat (word_of_int v :: 64 word))))\<rparr>"

declare varint.simps [simp del]

lemma read_varint_varint: "read_varint (varint n @ r) = Some (n, r)"
proof (induction n rule: varint.induct)
  case (1 n)
  show ?case
  proof (cases "n < 128")
    case True then show ?thesis by (simp add: varint.simps [of n] unat_of_nat)
  next
    case False
    have "unat (word_of_nat k :: byte) = k" if "k < 256" for k using that by (simp add: unat_of_nat)
    from this [of "n mod 128 + 128"] have "unat (word_of_nat (n mod 128 + 128) :: byte) = n mod 128 + 128"
      using mod_less_divisor [of 128 n] by linarith
    then show ?thesis using 1 False by (simp add: varint.simps [of n] del: of_nat_add)
  qed
qed

lemma varint_nonempty: "varint n \<noteq> []"
  by (subst varint.simps) simp

lemma varint_one_byte: "n < 128 \<Longrightarrow> length (varint n) = 1"
  by (subst varint.simps) simp

lemma word_through_64: "(ucast (word_of_int v :: 64 word) :: 32 word) = word_of_int v"
  by (rule ucast_down_wi) (simp add: is_down)

lemma proto_runtime_laws: "pb_laws proto_runtime"
  unfolding pb_laws_def proto_runtime_def
  by (simp add: read_varint_varint varint_nonempty varint_one_byte word_through_64)

text \<open>
  C21. Parsing the serialised bytes of a message into another message is merging: the parser returns at
  the end of the input with no error, every field that the message sets has replaced the target's, and
  the others are untouched, which is what \<open>MergeFrom\<close> does. The number of bytes is the one
  \<open>ByteSizeLong\<close> announced. This holds for both envelope messages.
\<close>

theorem wire_parse_merges:
  assumes "pb_laws rt" and "request_fits rt m" and "response_fits rt r"
  shows "RpcRequest_InternalParse rt (RpcRequest_InternalSerialize rt m) m0 = Some (RpcRequest_MergeImpl m0 m, Some [], 0) \<and>
    RpcResponse_InternalParse rt (RpcResponse_InternalSerialize rt r) r0 = Some (RpcResponse_MergeImpl r0 r, Some [], 0) \<and>
    length (RpcRequest_InternalSerialize rt m) = RpcRequest_ByteSizeLong rt m \<and>
    length (RpcResponse_InternalSerialize rt r) = RpcResponse_ByteSizeLong rt r"
  using request_parse_merges [OF assms(1,2)] response_parse_merges [OF assms(1,3)]
    request_size [OF assms(1,2)] response_size [OF assms(1,3)] by simp

theorem wire_parse_merges_witness:
  "RpcResponse_InternalParse proto_runtime
       (RpcResponse_InternalSerialize proto_runtime (RpcResponse_new\<lparr>rs_code := -5, rs_msg := [104, 105]\<rparr>))
       (RpcResponse_new\<lparr>rs_body := [9]\<rparr>) =
     Some (RpcResponse_new\<lparr>rs_code := -5, rs_msg := [104, 105], rs_body := [9]\<rparr>, Some [], 0)"
proof -
  let ?r = "RpcResponse_new\<lparr>rs_code := -5, rs_msg := [104, 105]\<rparr>"
  have "request_fits proto_runtime RpcRequest_new" "response_fits proto_runtime ?r"
    by (simp_all add: request_fits_def response_fits_def proto_runtime_def RpcRequest_new_def RpcResponse_new_def)
  from wire_parse_merges [OF proto_runtime_laws this]
  show ?thesis by (simp add: RpcResponse_MergeImpl_def RpcResponse_new_def)
qed

section \<open>Through the codec\<close>

text \<open>
  What \<open>ParseFromString\<close> of the runtime does with the generated parser: on a new message, it accepts what the
  parser reads to the end of the input.
\<close>

definition parses_with :: "(bytes \<Rightarrow> 'm \<Rightarrow> ('m \<times> bytes option \<times> 32 word) option) \<Rightarrow> 'm \<Rightarrow> (bytes \<Rightarrow> 'm option) \<Rightarrow> bool" where
  "parses_with internal new parse \<longleftrightarrow> (\<forall>bs m. internal bs new = Some (m, Some [], 0) \<longrightarrow> parse bs = Some m)"

text \<open>What callers of one message type rely on first: parsing what was serialised into a new message gives it back.\<close>

locale wire_roundtrip =
  fixes internal :: "bytes \<Rightarrow> 'm \<Rightarrow> ('m \<times> bytes option \<times> 32 word) option" and serialize :: "'m \<Rightarrow> bytes"
    and fits :: "'m \<Rightarrow> bool" and new :: 'm
  assumes roundtrip: "fits m \<Longrightarrow> internal (serialize m) new = Some (m, Some [], 0)"
begin

lemma parsed: "fits m \<Longrightarrow> parses_with internal new parse \<Longrightarrow> parse (serialize m) = Some m"
  using roundtrip by (simp add: parses_with_def)

end

text \<open>
  The contract of the generated code for one message type: parsing what was serialised merges, and the
  size is announced correctly. What follows from it for frames is proved once for both types.
\<close>

locale wire_message =
  fixes internal :: "bytes \<Rightarrow> 'm \<Rightarrow> ('m \<times> bytes option \<times> 32 word) option" and serialize :: "'m \<Rightarrow> bytes"
    and merge :: "'m \<Rightarrow> 'm \<Rightarrow> 'm" and byte_size :: "'m \<Rightarrow> nat" and fits :: "'m \<Rightarrow> bool" and new :: 'm
  assumes parse_merges: "fits m \<Longrightarrow> internal (serialize m) m0 = Some (merge m0 m, Some [], 0)"
    and serialized_size: "fits m \<Longrightarrow> length (serialize m) = byte_size m"
    and merge_new: "merge new m = m"
begin

end

sublocale wire_message \<subseteq> wire_roundtrip internal serialize fits new
  by unfold_locales (simp add: parse_merges merge_new)

context wire_message begin

lemma framed:
  assumes "fits m" and "parses_with internal new parse" and "byte_size m \<le> 67108864"
  shows "\<exists>frame. Codec_encode (Some \<circ> serialize) m = Some frame \<and> length frame = 4 + byte_size m \<and>
    split_frames parse frame = ([m], [], False)"
proof -
  have "parse (serialize m) = Some m" by (rule parsed [OF assms(1,2)])
  from split_one_frame [where ser = "Some \<circ> serialize" and parse = parse, OF _ this] assms(1,3)
  obtain frame where f: "Codec_encode (Some \<circ> serialize) m = Some frame" "split_frames parse frame = ([m], [], False)"
    by (auto simp: serialized_size)
  have "length frame = 4 + byte_size m" using f(1) assms(3)
    by (auto simp: Codec_encode_def UINT32_MAX_def store_u32_def Let_def serialized_size [OF assms(1)] split: if_splits)
  with f show ?thesis by blast
qed

end

interpretation req_wire: wire_message "RpcRequest_InternalParse rt" "RpcRequest_InternalSerialize rt" RpcRequest_MergeImpl
    "RpcRequest_ByteSizeLong rt" "\<lambda>m. pb_laws rt \<and> request_fits rt m" RpcRequest_new
  by unfold_locales (auto simp: request_parse_merges request_size RpcRequest_MergeImpl_def RpcRequest_new_def Let_def)

interpretation resp_wire: wire_message "RpcResponse_InternalParse rt" "RpcResponse_InternalSerialize rt" RpcResponse_MergeImpl
    "RpcResponse_ByteSizeLong rt" "\<lambda>m. pb_laws rt \<and> response_fits rt m" RpcResponse_new
  by unfold_locales (auto simp: response_parse_merges response_size RpcResponse_MergeImpl_def RpcResponse_new_def Let_def)

text \<open>
  C20. Messages survive the wire: a request and a response that fit the format and the frame limit are
  encoded, and the bytes split into exactly that one message with nothing left over; the frame is four bytes
  longer than the size of the message. Serialiser and parser are the generated ones.
\<close>

theorem framed_messages_survive:
  assumes "pb_laws rt" and "request_fits rt m" and "response_fits rt r"
    and "RpcRequest_ByteSizeLong rt m \<le> 67108864" and "RpcResponse_ByteSizeLong rt r \<le> 67108864"
    and "parses_with (RpcRequest_InternalParse rt) RpcRequest_new parse_request"
    and "parses_with (RpcResponse_InternalParse rt) RpcResponse_new parse_response"
  shows "(\<exists>frame. Codec_encode (Some \<circ> RpcRequest_InternalSerialize rt) m = Some frame \<and>
      length frame = 4 + RpcRequest_ByteSizeLong rt m \<and> split_frames parse_request frame = ([m], [], False)) \<and>
    (\<exists>frame. Codec_encode (Some \<circ> RpcResponse_InternalSerialize rt) r = Some frame \<and>
      length frame = 4 + RpcResponse_ByteSizeLong rt r \<and> split_frames parse_response frame = ([r], [], False))"
  using req_wire.framed [OF _ assms(6,4)] resp_wire.framed [OF _ assms(7,5)] assms(1-3) by simp

text \<open>A parser that does what is documented, for a generated parser that always returns.\<close>

definition parse_string_of :: "(bytes \<Rightarrow> 'm \<Rightarrow> ('m \<times> bytes option \<times> 32 word) option) \<Rightarrow> 'm \<Rightarrow> bytes \<Rightarrow> 'm option" where
  "parse_string_of internal new bs =
     (case internal bs new of Some (m, Some p, last_tag) \<Rightarrow> if p = [] \<and> last_tag = 0 then Some m else None | _ \<Rightarrow> None)"

theorem framed_messages_survive_witness:
  "\<exists>frame. Codec_encode (Some \<circ> RpcRequest_InternalSerialize proto_runtime)
       (RpcRequest_new\<lparr>rq_request_id := [104], rq_body := [0, 255]\<rparr>) = Some frame \<and> length frame = 11 \<and>
     split_frames (parse_string_of (RpcRequest_InternalParse proto_runtime) RpcRequest_new) frame =
       ([RpcRequest_new\<lparr>rq_request_id := [104], rq_body := [0, 255]\<rparr>], [], False)"
proof -
  let ?m = "RpcRequest_new\<lparr>rq_request_id := [104], rq_body := [0, 255]\<rparr>"
  have w: "parses_with internal new (parse_string_of internal new)" for internal and new :: 'b
    by (simp add: parses_with_def parse_string_of_def)
  have "request_fits proto_runtime ?m" "response_fits proto_runtime RpcResponse_new"
    "RpcRequest_ByteSizeLong proto_runtime ?m = 7" "RpcResponse_ByteSizeLong proto_runtime RpcResponse_new = 0"
    by (simp_all add: request_fits_def response_fits_def proto_runtime_def RpcRequest_new_def RpcResponse_new_def
        RpcRequest_ByteSizeLong_def RpcResponse_ByteSizeLong_def string_size_def varint.simps)
  from framed_messages_survive [OF proto_runtime_laws this(1,2) _ _ w w] this(3,4) show ?thesis by simp
qed

end
