(* ===== verification/CallProtocol.thy ===== *)
theory CallProtocol
  imports RpcClientModel
begin

text \<open>
  The protocol of \<open>pending_calls_\<close> in \<open>code/rpc/rpc_client.cc\<close>: what any number of threads that call, receive, time
  out, lose the connection and stop do to the table, one critical section at a time. Its invariant
  accounts for every callback, and the operations of \<open>RpcClientModel\<close>, each run by any thread, are runs of it.
\<close>

section \<open>Calls, answers and shutdown from many threads\<close>

text \<open>
  Each step is one critical section on the table, or one invocation of a callback that was taken
  out of it. \<open>settle\<close> is a response, a timeout or a failed encoding, whichever comes first.
  \<open>drop\<close> is the swap in \<open>DropAllPending\<close>, whose callers have tested \<open>stopped_\<close> some time before.
  \<open>link\<close> is \<open>IsConnected()\<close>. \<open>Stop\<close> first sets \<open>stopped_\<close> and then drops the table.
\<close>

record 'u call_sys =
  table :: "(bytes \<times> 'u option) list"
  stop_flag :: bool
  link :: bool
  stop_dropped :: bool
  in_hand :: "('u \<times> rpc_response) multiset"
  called_back :: "('u \<times> rpc_response) multiset"
  issued :: "'u multiset"

definition call_init :: "'u call_sys" where
  "call_init = \<lparr>table = [], stop_flag = False, link = False, stop_dropped = False, in_hand = {#},
     called_back = {#}, issued = {#}\<rparr>"

definition dropped :: "RpcErrorCode \<Rightarrow> bytes \<Rightarrow> (bytes \<times> 'u option) list \<Rightarrow> ('u \<times> rpc_response) multiset" where
  "dropped code msg tbl =
     mset (List.map_filter (\<lambda>(i, cb). map_option (\<lambda>u. (u, make_response i code msg)) cb) tbl)"

text \<open>The users behind a callback, none if it is empty.\<close>

definition users_of :: "'u option \<Rightarrow> 'u multiset" where
  "users_of cb = (case cb of None \<Rightarrow> {#} | Some u \<Rightarrow> {#u#})"

inductive call_step :: "'u call_sys \<Rightarrow> 'u call_sys \<Rightarrow> bool" where
  issue: "\<not> stop_flag s \<Longrightarrow> link s \<Longrightarrow> i \<notin> fst ` set (table s) \<Longrightarrow>
     call_step s (s\<lparr>table := AList.update i cb (table s), issued := users_of cb + issued s\<rparr>)"
| refuse: "stop_flag s \<or> \<not> link s \<Longrightarrow>
     call_step s (s\<lparr>issued := add_mset u (issued s), in_hand := add_mset
       (u, make_response i CLIENT_NOT_RUNNING (str ''client stopped/disconnected'')) (in_hand s)\<rparr>)"
| settle: "take_pending i (table s) = (cb, tbl) \<Longrightarrow> rs_request_id resp = i \<Longrightarrow>
     call_step s (s\<lparr>table := tbl, in_hand := image_mset (\<lambda>u. (u, resp)) (users_of cb) + in_hand s\<rparr>)"
| drop_all: "call_step s (s\<lparr>table := [], in_hand := in_hand s + dropped code msg (table s)\<rparr>)"
| link_changes: "call_step s (s\<lparr>link := l\<rparr>)"
| stop: "call_step s (s\<lparr>stop_flag := True\<rparr>)"
| stop_drop: "stop_flag s \<Longrightarrow>
     call_step s (s\<lparr>table := [], stop_dropped := True, in_hand := in_hand s + dropped CLIENT_NOT_RUNNING
       (str ''rpc client stopped'') (table s)\<rparr>)"
| callback: "in_hand s = add_mset (u, r) h \<Longrightarrow>
     call_step s (s\<lparr>in_hand := h, called_back := add_mset (u, r) (called_back s)\<rparr>)"

inductive call_reachable :: "'u call_sys \<Rightarrow> bool" where
  init: "call_reachable call_init"
| step: "call_reachable s \<Longrightarrow> call_step s t \<Longrightarrow> call_reachable t"

definition waiting_users :: "(bytes \<times> 'u option) list \<Rightarrow> 'u multiset" where
  "waiting_users tbl = mset (List.map_filter snd tbl)"

lemma waiting_users_simps [simp]:
  "waiting_users [] = {#}"
  "waiting_users ((i, cb) # tbl) = (case cb of None \<Rightarrow> {#} | Some u \<Rightarrow> {#u#}) + waiting_users tbl"
  by (auto simp: waiting_users_def List.map_filter_def split: option.splits)

lemma users_of_simps [simp]: "users_of None = {#}" "users_of (Some u) = {#u#}"
  by (simp_all add: users_of_def)

lemma waiting_update:
  "i \<notin> fst ` set tbl \<Longrightarrow> waiting_users (AList.update i cb tbl) = users_of cb + waiting_users tbl"
  by (induction tbl) (auto simp: users_of_def)

lemma waiting_delete:
  "distinct (map fst tbl) \<Longrightarrow> map_of tbl i = Some cb \<Longrightarrow>
     waiting_users tbl = users_of cb + waiting_users (AList.delete i tbl)"
proof (induction tbl)
  case (Cons e tbl)
  obtain j cb' where e: "e = (j, cb')" by force
  show ?case
  proof (cases "j = i")
    case True
    then have "AList.delete i tbl = tbl" using Cons.prems e by (auto intro: delete_id)
    then show ?thesis using Cons.prems e True by (simp add: users_of_def)
  next
    case False
    then show ?thesis using Cons e by (simp split: option.splits)
  qed
qed simp

lemma users_dropped: "image_mset fst (dropped code msg tbl) = waiting_users tbl"
  by (induction tbl) (auto simp: dropped_def List.map_filter_def split: option.splits)

definition call_inv :: "'u call_sys \<Rightarrow> bool" where
  "call_inv s \<longleftrightarrow> distinct (map fst (table s)) \<and>
     issued s = image_mset fst (called_back s) + image_mset fst (in_hand s) + waiting_users (table s) \<and>
     (stop_dropped s \<longrightarrow> stop_flag s \<and> table s = [])"

lemma call_step_inv:
  assumes "call_step s t" and "call_inv s" shows "call_inv t"
  using assms
proof (cases rule: call_step.cases)
  case (issue i u)
  then show ?thesis using assms(2) by (auto simp: call_inv_def waiting_update distinct_update)
next
  case (settle i cb tbl resp)
  show ?thesis
  proof (cases "map_of (table s) i")
    case None
    then show ?thesis using assms(2) settle by (simp add: call_inv_def take_pending_def)
  next
    case (Some cb')
    then have "cb = cb'" "tbl = AList.delete i (table s)" using settle(2) by (auto simp: take_pending_def)
    then show ?thesis using assms(2) settle(1) waiting_delete [OF _ Some]
      by (auto simp: call_inv_def distinct_delete multiset.map_comp comp_def)
  qed
next
  case (drop_all code msg)
  then show ?thesis using assms(2) by (auto simp: call_inv_def users_dropped)
next
  case stop_drop
  then show ?thesis using assms(2) by (auto simp: call_inv_def users_dropped)
qed (use assms(2) in \<open>auto simp: call_inv_def\<close>)

lemma call_reachable_inv: "call_reachable s \<Longrightarrow> call_inv s"
proof (induction rule: call_reachable.induct)
  case init
  show ?case by (simp add: call_inv_def call_init_def)
qed (blast intro: call_step_inv)

section \<open>The operations of the client are runs of the protocol\<close>

text \<open>
  The operations that touch the table, as any thread \<open>k\<close> runs them, with callbacks that are recorded.
  \<open>Op_stop\<close> is what \<open>Stop\<close> does before it disconnects; \<open>Op_link\<close> is \<open>SetConnected\<close> of the TCP client.
\<close>

datatype 'u client_op =
    Op_call bytes bytes bytes bytes "'u option" int
  | Op_timeout bytes
  | Op_response rpc_response
  | Op_connection
  | Op_error int
  | Op_stop
  | Op_link bool

fun run_client_op ::
  "('k, 'u, 'z) client_env \<Rightarrow> 'u client_op \<Rightarrow> ('k, 'u, 'z) client_world_scheme \<Rightarrow> ('k, 'u, 'z) client_world_scheme option"
where
  "run_client_op env (Op_call i svc meth body cb t) w = map_option snd (RpcClient_CallRaw (recording env) i svc meth body cb t w)"
| "run_client_op env (Op_timeout i) w = RpcClient_on_timeout (recording env) i w"
| "run_client_op env (Op_response r) w = RpcClient_handle_response (recording env) r w"
| "run_client_op env Op_connection w = RpcClient_onConnection (recording env) w"
| "run_client_op env (Op_error err) w = RpcClient_onError (recording env) err w"
| "run_client_op env Op_stop w =
     (if cli_stopped w then Some w
      else RpcClient_DropAllPending (recording env) CLIENT_NOT_RUNNING (str ''rpc client stopped'') (w\<lparr>cli_stopped := True\<rparr>))"
| "run_client_op env (Op_link c) w = Some (TcpClient_SetConnected c w)"

lemma Stop_starts_with_op:
  "\<not> cli_stopped w \<Longrightarrow> RpcClient_Stop (recording env) tcp join w =
     Option.bind (run_client_op env Op_stop w) (\<lambda>w1. Option.bind (TcpClient_Disconnect tcp w1) (\<lambda>w2.
       Option.bind (join (EventLoop_Quit w2)) (TcpClient_Stop tcp)))"
  by (simp add: RpcClient_Stop_def)

text \<open>Between two operations nothing is in hand; \<open>I\<close> are the users whose callbacks have been issued.\<close>

definition call_abs :: "'u multiset \<Rightarrow> ('k, 'u, 'z) client_world_scheme \<Rightarrow> 'u call_sys" where
  "call_abs I w = \<lparr>table = pending_calls w, stop_flag = cli_stopped w, link = tc_connected w,
     stop_dropped = cli_stopped w, in_hand = {#}, called_back = mset (answered w), issued = I\<rparr>"

fun op_users :: "'u client_op \<Rightarrow> 'u multiset" where
  "op_users (Op_call i svc meth body cb t) = users_of cb"
| "op_users _ = {#}"

fun op_fresh :: "'u client_op \<Rightarrow> ('k, 'u, 'z) client_world_scheme \<Rightarrow> bool" where
  "op_fresh (Op_call i svc meth body cb t) w = (i \<notin> fst ` set (pending_calls w))"
| "op_fresh _ w = True"

text \<open>What timers and sockets leave alone.\<close>

definition client_part where
  "client_part w = (pending_calls w, cli_stopped w, tc_connected w, pending_locked w, answered w)"

lemma remove_timer_part: "remove_timer env i w = Some w' \<Longrightarrow> client_part w' = client_part w"
  by (cases "thread_id w = c_self env")
    (auto simp: remove_timer_in_loop remove_timer_other_thread client_part_def EventLoop_QueueInLoop_def queue_defs)

lemma AddTimer_part:
  "EventLoop_AddTimer clock call self i cb t w = Some w' \<Longrightarrow> client_part w' = client_part w"
  by (auto simp: EventLoop_AddTimer_def EventLoop_RunInLoop_def run_functor_def client_part_def
      EventLoop_QueueInLoop_def queue_defs split: if_splits)

lemma Send_part:
  assumes "TcpClient_Send sys junk self data w = Some w'"
  shows "client_part w' = client_part w"
proof (cases "has_connection w \<and> cstate w = Connected \<and> thread_id w = self")
  case True
  then have "TcpConnection_sendInLoop sys junk data w = Some w'"
    using assms by (simp add: TcpClient_Send_def TcpConnection_send_def EventLoop_IsInLoopThread_def)
  note fr = sendInLoop_frame [OF this]
  have "client_part (send_erased k v) = client_part v" for k and v :: "('a, 'b, 'c) client_world_scheme"
    by (simp add: client_part_def send_erased_def)
  then show ?thesis by (rule send_frame_field [OF fr])
next
  case False
  then show ?thesis using assms
    by (auto simp: TcpClient_Send_def TcpConnection_send_def EventLoop_IsInLoopThread_def client_part_def
        EventLoop_QueueInLoop_def queue_defs split: if_splits)
qed

lemma drop_each_part:
  assumes "drop_each (recording env) code msg tbl w = Some w'"
  shows "client_part (w'\<lparr>answered := []\<rparr>) = client_part (w\<lparr>answered := []\<rparr>) \<and>
    mset (answered w') = mset (answered w) + dropped code msg tbl"
  using assms
proof (induction tbl arbitrary: w)
  case Nil
  then show ?case by (simp add: dropped_def List.map_filter_def)
next
  case (Cons e tbl)
  obtain i cb where e: "e = (i, cb)" by force
  from Cons.prems obtain w1 w2 where w: "remove_timer (recording env) i w = Some w1"
    "respond (recording env) cb (make_response i code msg) w1 = Some w2" "drop_each (recording env) code msg tbl w2 = Some w'"
    by (auto simp: e bind_eq_Some_conv)
  note p = remove_timer_part [OF w(1)]
  show ?case using Cons.IH [OF w(3)] w(2) p
    by (cases cb) (auto simp: e respond_def client_part_def dropped_def List.map_filter_def)
qed

lemma hands_empty: "call_step\<^sup>*\<^sup>* (s\<lparr>in_hand := h\<rparr>) (s\<lparr>in_hand := {#}, called_back := h + called_back s\<rparr>)"
proof (induction h arbitrary: s)
  case empty
  have "s\<lparr>in_hand := {#}, called_back := {#} + called_back s\<rparr> = s\<lparr>in_hand := {#}\<rparr>" by simp
  then show ?case by simp
next
  case (add x h)
  obtain u r where x: "x = (u, r)" by force
  let ?s = "s\<lparr>in_hand := add_mset x h\<rparr>"
  have "call_step ?s (?s\<lparr>in_hand := h, called_back := add_mset (u, r) (called_back ?s)\<rparr>)"
    by (rule call_step.callback) (simp add: x)
  also have "?s\<lparr>in_hand := h, called_back := add_mset (u, r) (called_back ?s)\<rparr> =
      s\<lparr>called_back := add_mset x (called_back s)\<rparr>\<lparr>in_hand := h\<rparr>" by (simp add: x)
  finally have "call_step ?s (s\<lparr>called_back := add_mset x (called_back s)\<rparr>\<lparr>in_hand := h\<rparr>)" .
  moreover have "call_step\<^sup>*\<^sup>* (s\<lparr>called_back := add_mset x (called_back s)\<rparr>\<lparr>in_hand := h\<rparr>)
      (s\<lparr>in_hand := {#}, called_back := add_mset x h + called_back s\<rparr>)"
    using add [of "s\<lparr>called_back := add_mset x (called_back s)\<rparr>"] by simp
  ultimately show ?case by (rule converse_rtranclp_into_rtranclp)
qed

lemma step_and_call:
  assumes "call_step s (t\<lparr>in_hand := h\<rparr>)"
  shows "call_step\<^sup>*\<^sup>* s (t\<lparr>in_hand := {#}, called_back := h + called_back t\<rparr>)"
  using assms hands_empty [where s = t and h = h] by (rule converse_rtranclp_into_rtranclp)

lemma client_part_eqs:
  "client_part v = client_part w \<longleftrightarrow> pending_calls v = pending_calls w \<and> cli_stopped v = cli_stopped w \<and>
     tc_connected v = tc_connected w \<and> pending_locked v = pending_locked w \<and> answered v = answered w"
  by (simp add: client_part_def)

lemma respond_recording:
  "respond (recording env) cb r w = Some (w\<lparr>answered := answered w @ map (\<lambda>u. (u, r)) (case cb of None \<Rightarrow> [] | Some u \<Rightarrow> [u])\<rparr>)"
  by (cases cb) (simp_all add: respond_def)

text \<open>Taking an entry out and answering it.\<close>

lemma settle_refines:
  assumes "take_pending i (pending_calls w) = (cb, tbl)" and "rs_request_id r = i"
    and "client_part v = client_part (w\<lparr>pending_calls := tbl\<rparr>)" and "respond (recording env) cb r v = Some w'"
  shows "call_step\<^sup>*\<^sup>* (call_abs I w) (call_abs I w') \<and> pending_locked w' = pending_locked w"
proof -
  have "call_step (call_abs I w) ((call_abs I w)\<lparr>table := tbl,
      in_hand := image_mset (\<lambda>u. (u, r)) (users_of cb) + in_hand (call_abs I w)\<rparr>)"
    by (rule call_step.settle [OF _ assms(2)]) (simp add: call_abs_def assms(1))
  then have "call_step\<^sup>*\<^sup>* (call_abs I w) ((call_abs I w)\<lparr>table := tbl, in_hand := {#},
      called_back := image_mset (\<lambda>u. (u, r)) (users_of cb) + called_back (call_abs I w)\<rparr>)"
    using step_and_call [where s = "call_abs I w" and t = "(call_abs I w)\<lparr>table := tbl\<rparr>"] by (simp add: call_abs_def)
  then show ?thesis using assms(3,4)
    by (cases cb) (auto simp: respond_recording client_part_eqs call_abs_def add.commute)
qed

lemma drop_refines:
  assumes "RpcClient_DropAllPending (recording env) code msg w = Some w'"
  shows "call_step\<^sup>*\<^sup>* (call_abs I w) (call_abs I w') \<and> \<not> pending_locked w' \<and> client_part (w'\<lparr>answered := []\<rparr>) =
    client_part (w\<lparr>pending_calls := [], answered := []\<rparr>) \<and> mset (answered w') = mset (answered w) + dropped code msg (pending_calls w)"
proof -
  have l: "\<not> pending_locked w" and d: "drop_each (recording env) code msg (pending_calls w) (w\<lparr>pending_calls := []\<rparr>) = Some w'"
    using assms by (simp_all add: RpcClient_DropAllPending_def split: if_splits)
  note e = drop_each_part [OF d]
  have "call_step (call_abs I w) ((call_abs I w)\<lparr>table := [],
      in_hand := in_hand (call_abs I w) + dropped code msg (table (call_abs I w))\<rparr>)" by (rule call_step.drop_all)
  then have "call_step\<^sup>*\<^sup>* (call_abs I w) ((call_abs I w)\<lparr>table := [], in_hand := {#},
      called_back := dropped code msg (pending_calls w) + called_back (call_abs I w)\<rparr>)"
    using step_and_call [where s = "call_abs I w" and t = "(call_abs I w)\<lparr>table := []\<rparr>"] by (simp add: call_abs_def)
  then show ?thesis using l e by (auto simp: client_part_eqs call_abs_def add.commute)
qed

lemma stop_refines:
  assumes "run_client_op env Op_stop w = Some w'" and "\<not> pending_locked w"
  shows "call_step\<^sup>*\<^sup>* (call_abs I w) (call_abs I w') \<and> \<not> pending_locked w'"
proof (cases "cli_stopped w")
  case False
  let ?v = "w\<lparr>cli_stopped := True\<rparr>" and ?s = "(call_abs I w)\<lparr>stop_flag := True\<rparr>"
  have "RpcClient_DropAllPending (recording env) CLIENT_NOT_RUNNING (str ''rpc client stopped'') ?v = Some w'"
    using assms False by simp
  note d = drop_refines [OF this, of I]
  have "call_step (call_abs I w) ?s" by (rule call_step.stop)
  moreover have "call_step ?s (?s\<lparr>table := [], stop_dropped := True, in_hand := in_hand ?s +
      dropped CLIENT_NOT_RUNNING (str ''rpc client stopped'') (table ?s)\<rparr>)" by (rule call_step.stop_drop) simp
  then have "call_step\<^sup>*\<^sup>* ?s (?s\<lparr>table := [], stop_dropped := True, in_hand := {#},
      called_back := dropped CLIENT_NOT_RUNNING (str ''rpc client stopped'') (pending_calls w) + called_back ?s\<rparr>)"
    using step_and_call [where s = ?s and t = "?s\<lparr>table := [], stop_dropped := True\<rparr>"] by (simp add: call_abs_def)
  ultimately show ?thesis using d by (auto simp: client_part_eqs call_abs_def add.commute converse_rtranclp_into_rtranclp)
qed (use assms in simp)

lemma call_refines:
  assumes "RpcClient_CallRaw (recording env) i svc meth body cb t w = Some (r, w')" and "\<not> pending_locked w"
    and "i \<notin> fst ` set (pending_calls w)"
  shows "call_step\<^sup>*\<^sup>* (call_abs I w) (call_abs (users_of cb + I) w') \<and> \<not> pending_locked w'"
proof (cases "cli_stopped w \<or> \<not> tc_connected w")
  case refused: True
  show ?thesis
  proof (cases cb)
    case None
    then show ?thesis using assms(1,2) refused by (simp add: RpcClient_CallRaw_def)
  next
    case (Some u)
    let ?r = "make_response i CLIENT_NOT_RUNNING (str ''client stopped/disconnected'')" and ?s = "call_abs I w"
    have "call_step ?s (?s\<lparr>issued := add_mset u (issued ?s), in_hand := add_mset (u, ?r) (in_hand ?s)\<rparr>)"
      using refused by (intro call_step.refuse) (simp add: call_abs_def)
    from step_and_call [OF this] show ?thesis
      using assms(1,2) refused Some by (auto simp: RpcClient_CallRaw_def call_abs_def)
  qed
next
  case False
  let ?req = "RpcRequest_new\<lparr>rq_service_name := svc, rq_method_name := meth, rq_request_id := i, rq_body := body\<rparr>"
  let ?tbl = "AList.update i cb (pending_calls w)" and ?I = "users_of cb + I"
  obtain w1 where w1: "EventLoop_AddTimer (c_clock (recording env)) (client_call (recording env)) (c_self env)
      (timer_id (recording env) i) (CB_layer i) t (w\<lparr>pending_calls := ?tbl\<rparr>) = Some w1"
    and rest: "(case Codec_encode (c_ser env) ?req of
       None \<Rightarrow> (let (cb, tbl) = take_pending i (pending_calls w1)
                in Option.bind (remove_timer (recording env) i (w1\<lparr>pending_calls := tbl\<rparr>))
                     (respond (recording env) cb (make_response i CLIENT_ENCODE_FAILED (str ''encode request failed''))))
     | Some encoded \<Rightarrow> TcpClient_Send (c_sys (recording env)) (c_junk (recording env)) (c_self (recording env)) encoded w1) = Some w'"
    using assms(1,2) False by (auto simp: RpcClient_CallRaw_def Let_def bind_eq_Some_conv)
  have p1: "client_part w1 = client_part (w\<lparr>pending_calls := ?tbl\<rparr>)" by (rule AddTimer_part [OF w1])
  have "call_step (call_abs I w) ((call_abs I w)\<lparr>table := AList.update i cb (table (call_abs I w)),
      issued := users_of cb + issued (call_abs I w)\<rparr>)"
    by (rule call_step.issue) (use False assms(3) in \<open>auto simp: call_abs_def\<close>)
  then have issue: "call_step (call_abs I w) (call_abs ?I w1)" using p1 by (simp add: call_abs_def client_part_eqs)
  have "call_step\<^sup>*\<^sup>* (call_abs ?I w1) (call_abs ?I w') \<and> pending_locked w' = pending_locked w1"
  proof (cases "Codec_encode (c_ser env) ?req")
    case None
    obtain cb' tbl where tp: "take_pending i (pending_calls w1) = (cb', tbl)" by force
    with rest None obtain v where v: "remove_timer (recording env) i (w1\<lparr>pending_calls := tbl\<rparr>) = Some v"
      "respond (recording env) cb' (make_response i CLIENT_ENCODE_FAILED (str ''encode request failed'')) v = Some w'"
      by (auto simp: bind_eq_Some_conv)
    show ?thesis by (rule settle_refines [OF tp _ remove_timer_part [OF v(1)] v(2)]) (simp add: make_response_def)
  next
    case (Some frame)
    then have "client_part w' = client_part w1" using rest by (simp add: Send_part)
    then show ?thesis by (simp add: call_abs_def client_part_eqs)
  qed
  then show ?thesis using issue p1 assms(2) by (auto simp: client_part_eqs intro: converse_rtranclp_into_rtranclp)
qed

lemma client_op_refines:
  assumes "run_client_op env op w = Some w'" and "\<not> pending_locked w" and "op_fresh op w"
  shows "call_step\<^sup>*\<^sup>* (call_abs I w) (call_abs (op_users op + I) w') \<and> \<not> pending_locked w'"
proof (cases op)
  case (Op_call i svc meth body cb t)
  then show ?thesis using assms call_refines [of env i svc meth body cb t w _ w' I] by auto
next
  case (Op_timeout i)
  let ?r = "make_response i CLIENT_REQUEST_TIMEOUT (str ''request timeout'')"
  obtain cb tbl where tp: "take_pending i (pending_calls w) = (cb, tbl)" by force
  have "respond (recording env) cb ?r (w\<lparr>pending_calls := tbl\<rparr>) = Some w'"
    using assms(1) tp Op_timeout by (simp add: RpcClient_on_timeout_def)
  from settle_refines [OF tp _ refl this, of I] show ?thesis using assms(2) Op_timeout by (simp add: make_response_def)
next
  case (Op_response r)
  obtain cb tbl where tp: "take_pending (rs_request_id r) (pending_calls w) = (cb, tbl)" by force
  obtain v where v: "remove_timer (recording env) (rs_request_id r) (w\<lparr>pending_calls := tbl\<rparr>) = Some v"
    "respond (recording env) cb r v = Some w'"
    using assms(1) tp Op_response by (auto simp: RpcClient_handle_response_def bind_eq_Some_conv)
  from settle_refines [OF tp refl remove_timer_part [OF v(1)] v(2), of I] show ?thesis using assms(2) Op_response by simp
next
  case Op_connection
  then show ?thesis using assms(1,2) drop_refines [of env _ _ w w' I]
    by (auto simp: RpcClient_onConnection_def split: if_splits)
next
  case (Op_error err)
  then show ?thesis using assms(1,2) drop_refines [of env _ _ w w' I]
    by (auto simp: RpcClient_onError_def split: if_splits)
next
  case Op_stop
  then show ?thesis using stop_refines [of env w w' I] assms(1,2) by simp
next
  case (Op_link c)
  have "call_step (call_abs I w) ((call_abs I w)\<lparr>link := c\<rparr>)" by (rule call_step.link_changes)
  then show ?thesis using assms Op_link by (auto simp: call_abs_def TcpClient_SetConnected_def)
qed

section \<open>Properties\<close>

text \<open>
  C1. Every call is answered exactly once, whatever the interleaving of calling threads, responses,
  timeouts, disconnections and \<open>Stop\<close>: each issued callback is waiting in the table, taken out and
  about to be called, or has been called, and never two of these; once \<open>Stop\<close> has dropped the table
  it stays empty, so when the callbacks in hand have run, all that were issued have been called.
  The ids of concurrent calls are assumed distinct.
\<close>

theorem calls_answered_exactly_once:
  assumes "call_reachable s"
  shows "issued s = image_mset fst (called_back s) + image_mset fst (in_hand s) + waiting_users (table s) \<and>
    (stop_dropped s \<longrightarrow> table s = []) \<and>
    (stop_dropped s \<and> in_hand s = {#} \<longrightarrow> issued s = image_mset fst (called_back s))"
  using call_reachable_inv [OF assms] by (simp add: call_inv_def)

lemma call_one_pending:
  "call_reachable (call_init\<lparr>link := True, table := AList.update [1] (Some u) [], issued := {#u#}\<rparr>)"
proof -
  have "call_reachable (call_init\<lparr>link := True\<rparr>)"
    by (rule call_reachable.step [OF call_reachable.init call_step.link_changes])
  from call_reachable.step [OF this call_step.issue [of _ "[1]" "Some u"]] show ?thesis by (simp add: call_init_def)
qed

theorem calls_answered_exactly_once_witness:
  "issued (call_init\<lparr>link := True, table := AList.update [1] (Some 5) [], issued := {#5::nat#}\<rparr>) =
     waiting_users (AList.update [1] (Some 5) [])"
  using calls_answered_exactly_once [OF call_one_pending [of "5::nat"]] by (simp add: call_init_def)

fun run_client_ops ::
  "('k, 'u, 'z) client_env \<Rightarrow> (nat \<times> 'u client_op) list \<Rightarrow> ('k, 'u, 'z) client_world_scheme \<Rightarrow>
     ('k, 'u, 'z) client_world_scheme option" where
  "run_client_ops env [] w = Some w"
| "run_client_ops env ((k, op) # ops) w = Option.bind (run_client_op (env\<lparr>c_self := k\<rparr>) op w) (run_client_ops env ops)"

fun ops_fresh :: "('k, 'u, 'z) client_env \<Rightarrow> (nat \<times> 'u client_op) list \<Rightarrow> ('k, 'u, 'z) client_world_scheme \<Rightarrow> bool" where
  "ops_fresh env [] w = True"
| "ops_fresh env ((k, op) # ops) w =
     (op_fresh op w \<and> (case run_client_op (env\<lparr>c_self := k\<rparr>) op w of None \<Rightarrow> True | Some w' \<Rightarrow> ops_fresh env ops w'))"

lemma client_ops_refine:
  assumes "run_client_ops env ops w = Some w'" and "\<not> pending_locked w" and "ops_fresh env ops w"
  shows "call_step\<^sup>*\<^sup>* (call_abs I w) (call_abs (\<Sum>\<^sub># (mset (map (op_users \<circ> snd) ops)) + I) w')"
  using assms
proof (induction ops arbitrary: w I)
  case (Cons e ops)
  obtain k op where e: "e = (k, op)" by force
  from Cons.prems(1) obtain v where v: "run_client_op (env\<lparr>c_self := k\<rparr>) op w = Some v" "run_client_ops env ops v = Some w'"
    by (auto simp: e bind_eq_Some_conv)
  have o: "call_step\<^sup>*\<^sup>* (call_abs I w) (call_abs (op_users op + I) v)" "\<not> pending_locked v"
    using client_op_refines [OF v(1) Cons.prems(2)] Cons.prems(3) by (auto simp: e)
  have "call_step\<^sup>*\<^sup>* (call_abs (op_users op + I) v) (call_abs (\<Sum>\<^sub># (mset (map (op_users \<circ> snd) ops)) + (op_users op + I)) w')"
    by (rule Cons.IH [OF v(2) o(2)]) (use Cons.prems(3) v(1) in \<open>simp add: e\<close>)
  with o(1) show ?case by (simp add: e union_ac comp_def)
qed simp

lemma call_reachable_steps: "call_step\<^sup>*\<^sup>* s t \<Longrightarrow> call_reachable s \<Longrightarrow> call_reachable t"
  by (induction rule: rtranclp_induct) (auto intro: call_reachable.step)

text \<open>
  C2. The client's operations implement the call protocol: any sequence of calls, timeouts, responses,
  connection events, errors and \<open>Stop\<close>, each on any thread, starting with an empty table, is a run of the
  protocol; so the users of all calls made are those called back and those that still wait, each
  once, and after \<open>Stop\<close> nobody waits. The ids of waiting calls are assumed distinct.
\<close>

theorem client_implements_protocol:
  assumes "run_client_ops env ops w = Some w'" and "ops_fresh env ops w"
    and "pending_calls w = []" and "answered w = []" and "\<not> cli_stopped w" and "\<not> pending_locked w"
  defines "users \<equiv> \<Sum>\<^sub># (mset (map (op_users \<circ> snd) ops))"
  shows "call_reachable (call_abs users w') \<and>
    users = image_mset fst (mset (answered w')) + waiting_users (pending_calls w') \<and>
    (cli_stopped w' \<longrightarrow> pending_calls w' = [])"
proof -
  have "call_abs {#} w = call_init\<lparr>link := tc_connected w\<rparr>" using assms(3-5) by (simp add: call_abs_def call_init_def)
  then have "call_reachable (call_abs {#} w)"
    using call_reachable.step [OF call_reachable.init call_step.link_changes] by simp
  from call_reachable_steps [OF client_ops_refine [OF assms(1,6,2)] this]
  have r: "call_reachable (call_abs users w')" by (simp add: users_def)
  from call_reachable_inv [OF this] show ?thesis using r by (simp add: call_inv_def call_abs_def)
qed

theorem client_implements_protocol_witness:
  "\<exists>w'. run_client_ops (demo_cenv 0 (\<lambda>_. 7)) [(3, Op_call [1] [] [] [] (Some 5) 50), (0, Op_response (RpcResponse_new\<lparr>rs_request_id := [1]\<rparr>)),
       (3, Op_call [2] [] [] [] (Some 6) 50), (4, Op_stop), (3, Op_call [3] [] [] [] (Some 7) 50)] (demo_client True []) = Some w' \<and>
     image_mset fst (mset (answered w')) = {#5, 6, 7 :: nat#} \<and> pending_calls w' = []"
proof -
  let ?ops = "[(3, Op_call [1] [] [] [] (Some 5) 50), (0, Op_response (RpcResponse_new\<lparr>rs_request_id := [1]\<rparr>)),
       (3, Op_call [2] [] [] [] (Some 6) 50), (4, Op_stop), (3, Op_call [3] [] [] [] (Some (7 :: nat)) 50)]"
  let ?env = "demo_cenv 0 (\<lambda>_. 7)" and ?w = "demo_client True ([] :: (bytes \<times> nat option) list)"
  note defs = RpcClient_CallRaw_def RpcClient_handle_response_def RpcClient_DropAllPending_def EventLoop_AddTimer_def
    EventLoop_RunInLoop_def EventLoop_IsInLoopThread_def TcpClient_Send_def TcpConnection_send_def take_pending_def
    remove_timer_def EventLoop_RemoveTimer_def run_functor_def respond_def recording_def Let_def
  have "cstate ?w = Connected" by (simp add: demo_client_def demo_conn_def conn_world.defs tcp_client_world.defs client_world.defs)
  then have ex: "\<exists>w'. run_client_ops ?env ?ops ?w = Some w' \<and> cli_stopped w' \<and> ops_fresh ?env ?ops ?w"
    by (simp add: defs EventLoop_QueueInLoop_def queue_defs Codec_encode_def UINT32_MAX_def demo_cenv_def)
  then obtain w' where w': "run_client_ops ?env ?ops ?w = Some w'" "cli_stopped w'" "ops_fresh ?env ?ops ?w" by blast
  have "pending_calls ?w = []" "answered ?w = []" "\<not> cli_stopped ?w" "\<not> pending_locked ?w" by simp_all
  note c = client_implements_protocol [OF w'(1,3) this]
  have "pending_calls w' = []" using c w'(2) by blast
  moreover from this c have "image_mset fst (mset (answered w')) = {#5, 6, 7 :: nat#}" by (simp add: add_mset_commute)
  ultimately show ?thesis using w'(1) by blast
qed

end
