(* ===== verification/ServerShutdown.thy ===== *)
theory ServerShutdown
  imports RpcServerLife
begin

text \<open>
  \<open>RpcServer::Stop\<close> (\<open>code/rpc/rpc_server.cc\<close>) against the two kinds of threads it races with: the loop, which
  admits requests in \<open>onMessage\<close> and runs the queued functors, and the workers, which run the admitted tasks
  and queue their replies. The steps are the critical sections and the atomic reads and writes of the code;
  the pool's and the queue's are the functions of \<open>ThreadPoolModel\<close> and \<open>EventLoopModel\<close>. What is shown is how
  far a shutdown is graceful: which replies are sent before the connections are closed, and which are not.
\<close>

section \<open>State\<close>

text \<open>What \<open>Stop\<close> and the workers queue for the loop.\<close>

datatype 'm shut_functor = SF_stop_accepting | SF_goaway | SF_reply 'm | SF_close

text \<open>Where the loop's thread is: at the test of \<open>quit_\<close>, dispatching, between the two tests of one request, in the functors.\<close>

datatype 'm loop_pos = Top | Dispatching | Admitting 'm | Functors | Exited

text \<open>How far \<open>Stop\<close> has got: the last statement that is done.\<close>

datatype stop_phase = Not_stopped | Flag_set | Accepting_stopped | Notice_queued | Tasks_waited | Close_queued | Quit_called
  | Joined | Pool_destroyed

record 'm shutdown =
  flag :: bool
  phase :: stop_phase
  spool :: "'m pool"
  busy :: "'m multiset"
  ending :: "'m multiset"
  fq :: "'m shut_functor functor_queue"
  in_hands :: "'m shut_functor list"
  executed :: "'m shut_functor list"
  loop_at :: "'m loop_pos"
  early :: "'m list"
  late :: "'m list"
  turned_away :: "'m list"
  silent :: "'m multiset"
  lost_replies :: "'m multiset"

definition shutdown_init :: "nat \<Rightarrow> 'm shutdown" where
  "shutdown_init q = \<lparr>flag = False, phase = Not_stopped, spool = ThreadPool_new q, busy = {#}, ending = {#},
     fq = \<lparr>quit = False, pending = [], wakeups = 0\<rparr>, in_hands = [], executed = [], loop_at = Top, early = [], late = [],
     turned_away = [], silent = {#}, lost_replies = {#}\<rparr>"

text \<open>\<open>WaitForTasks\<close> has returned.\<close>

definition waited :: "stop_phase \<Rightarrow> bool" where
  "waited p \<longleftrightarrow> p \<in> {Tasks_waited, Close_queued, Quit_called, Joined, Pool_destroyed}"

text \<open>The connections have been closed, so that \<open>send\<close> drops what it gets.\<close>

definition conns_closed :: "'m shutdown \<Rightarrow> bool" where
  "conns_closed s \<longleftrightarrow> SF_close \<in> set (executed s)"

section \<open>Steps\<close>

text \<open>
  The loop: one turn is the test of \<open>quit_\<close>, the dispatch of any number of requests, and the functors. A
  request is tested against \<open>stopped_\<close> first and then offered to the pool, and \<open>Stop\<close> may run in between.
\<close>

inductive loop_moves :: "'m shutdown \<Rightarrow> 'm shutdown \<Rightarrow> bool" where
  enter: "loop_at s = Top \<Longrightarrow> \<not> quit (fq s) \<Longrightarrow> loop_moves s (s\<lparr>loop_at := Dispatching\<rparr>)"
| leave: "loop_at s = Top \<Longrightarrow> quit (fq s) \<Longrightarrow> loop_moves s (s\<lparr>loop_at := Exited\<rparr>)"
| pass: "loop_at s = Dispatching \<Longrightarrow> \<not> flag s \<Longrightarrow> loop_moves s (s\<lparr>loop_at := Admitting m\<rparr>)"
| reject: "loop_at s = Dispatching \<Longrightarrow> flag s \<Longrightarrow> loop_moves s (s\<lparr>turned_away := turned_away s @ [m]\<rparr>)"
| admit: "loop_at s = Admitting m \<Longrightarrow> ThreadPool_TryAddTask m (spool s) = (True, p) \<Longrightarrow>
     loop_moves s (s\<lparr>loop_at := Dispatching, spool := p,
       early := (if waited (phase s) then early s else early s @ [m]),
       late := (if waited (phase s) then late s @ [m] else late s)\<rparr>)"
| too_busy: "loop_at s = Admitting m \<Longrightarrow> ThreadPool_TryAddTask m (spool s) = (False, p) \<Longrightarrow>
     loop_moves s (s\<lparr>loop_at := Dispatching, turned_away := turned_away s @ [m]\<rparr>)"
| swap: "loop_at s = Dispatching \<Longrightarrow> swap_functors (fq s) = (fs, q) \<Longrightarrow>
     loop_moves s (s\<lparr>loop_at := Functors, in_hands := fs, fq := q\<rparr>)"
| run: "loop_at s = Functors \<Longrightarrow> in_hands s = f # fs \<Longrightarrow> loop_moves s (s\<lparr>in_hands := fs, executed := executed s @ [f]\<rparr>)"
| turn_ends: "loop_at s = Functors \<Longrightarrow> in_hands s = [] \<Longrightarrow> loop_moves s (s\<lparr>loop_at := Top\<rparr>)"

text \<open>
  The workers: take a task, reply through \<open>send\<close>, or end without a reply (an exception that is not a
  \<open>std::exception\<close>, or a response that cannot be encoded), and only then count it as done.
\<close>

inductive worker_moves :: "'m shutdown \<Rightarrow> 'm shutdown \<Rightarrow> bool" where
  take_task: "ThreadPool_worker_lock (spool s) = Worker_runs m p \<Longrightarrow>
     worker_moves s (s\<lparr>spool := p, busy := add_mset m (busy s)\<rparr>)"
| reply: "busy s = add_mset m B \<Longrightarrow> \<not> conns_closed s \<Longrightarrow>
     worker_moves s (s\<lparr>busy := B, ending := add_mset m (ending s), fq := EventLoop_QueueInLoop (SF_reply m) (fq s)\<rparr>)"
| reply_lost: "busy s = add_mset m B \<Longrightarrow> conns_closed s \<Longrightarrow>
     worker_moves s (s\<lparr>busy := B, ending := add_mset m (ending s), lost_replies := add_mset m (lost_replies s)\<rparr>)"
| no_reply: "busy s = add_mset m B \<Longrightarrow>
     worker_moves s (s\<lparr>busy := B, ending := add_mset m (ending s), silent := add_mset m (silent s)\<rparr>)"
| task_done: "ending s = add_mset m E \<Longrightarrow> ThreadPool_worker_done (spool s) = (notify, p) \<Longrightarrow>
     worker_moves s (s\<lparr>ending := E, spool := p\<rparr>)"

text \<open>\<open>Stop\<close>, statement by statement, on a thread that is not the loop's.\<close>

inductive stop_moves :: "'m shutdown \<Rightarrow> 'm shutdown \<Rightarrow> bool" where
  set_flag: "phase s = Not_stopped \<Longrightarrow> stop_moves s (s\<lparr>flag := True, phase := Flag_set\<rparr>)"
| stop_accepting: "phase s = Flag_set \<Longrightarrow>
     stop_moves s (s\<lparr>fq := EventLoop_QueueInLoop SF_stop_accepting (fq s), phase := Accepting_stopped\<rparr>)"
| notice: "phase s = Accepting_stopped \<Longrightarrow>
     stop_moves s (s\<lparr>fq := EventLoop_QueueInLoop SF_goaway (fq s), phase := Notice_queued\<rparr>)"
| wait_returns: "phase s = Notice_queued \<Longrightarrow> ThreadPool_WaitForTasks_pred (spool s) \<Longrightarrow>
     stop_moves s (s\<lparr>phase := Tasks_waited\<rparr>)"
| close: "phase s = Tasks_waited \<Longrightarrow>
     stop_moves s (s\<lparr>fq := EventLoop_QueueInLoop SF_close (fq s), phase := Close_queued\<rparr>)"
| quit_loop: "phase s = Close_queued \<Longrightarrow> stop_moves s (s\<lparr>fq := EventLoop_Quit (fq s), phase := Quit_called\<rparr>)"
| join: "phase s = Quit_called \<Longrightarrow> loop_at s = Exited \<Longrightarrow> stop_moves s (s\<lparr>phase := Joined\<rparr>)"
| reset_pool: "phase s = Joined \<Longrightarrow> stop_moves s (s\<lparr>spool := ThreadPool_close (spool s), phase := Pool_destroyed\<rparr>)"

definition shutdown_step :: "'m shutdown \<Rightarrow> 'm shutdown \<Rightarrow> bool" where
  "shutdown_step s t \<longleftrightarrow> loop_moves s t \<or> worker_moves s t \<or> stop_moves s t"

inductive shutdown_reachable :: "nat \<Rightarrow> 'm shutdown \<Rightarrow> bool" for q where
  init: "shutdown_reachable q (shutdown_init q)"
| step: "shutdown_reachable q s \<Longrightarrow> shutdown_step s t \<Longrightarrow> shutdown_reachable q t"

section \<open>Invariant\<close>

definition history :: "'m shutdown \<Rightarrow> 'm shut_functor list" where
  "history s = executed s @ in_hands s @ pending (fq s)"

fun reply_of :: "'m shut_functor \<Rightarrow> 'm option" where
  "reply_of (SF_reply m) = Some m" | "reply_of _ = None"

definition replies :: "'m shut_functor list \<Rightarrow> 'm multiset" where
  "replies fs = mset (List.map_filter reply_of fs)"

definition before_close :: "'m shut_functor list \<Rightarrow> 'm shut_functor list" where
  "before_close fs = takeWhile (\<lambda>f. f \<noteq> SF_close) fs"

text \<open>Every admitted request is in one place; nothing is dropped while the connections are open.\<close>

definition counts_ok :: "'m shutdown \<Rightarrow> bool" where
  "counts_ok s \<longleftrightarrow> activeTasks (spool s) = size (busy s) + size (ending s) \<and>
     mset (early s) + mset (late s) =
       mset (tasks (spool s)) + busy s + silent s + replies (history s) + lost_replies s \<and>
     (\<not> conns_closed s \<longrightarrow> lost_replies s = {#}) \<and> (loop_at s \<noteq> Functors \<longrightarrow> in_hands s = [])"

text \<open>The early ones are out of the workers' hands before the closing is queued.\<close>

definition order_ok :: "'m shutdown \<Rightarrow> bool" where
  "order_ok s \<longleftrightarrow> (if waited (phase s) then mset (early s) \<subseteq># silent s + replies (before_close (history s))
     else late s = [] \<and> SF_close \<notin> set (history s))"

text \<open>At most one request can pass the test of \<open>stopped_\<close> before the flag is set and be admitted after the wait.\<close>

fun admitting :: "'m loop_pos \<Rightarrow> nat" where
  "admitting (Admitting m) = 1" | "admitting _ = 0"

definition flags_ok :: "'m shutdown \<Rightarrow> bool" where
  "flags_ok s \<longleftrightarrow> (flag s \<longleftrightarrow> phase s \<noteq> Not_stopped) \<and> (flag s \<longrightarrow> length (late s) + admitting (loop_at s) \<le> 1)"

definition shutdown_inv :: "'m shutdown \<Rightarrow> bool" where
  "shutdown_inv s \<longleftrightarrow> counts_ok s \<and> order_ok s \<and> flags_ok s"

lemma replies_simps [simp]:
  "replies [] = {#}" "replies (f # fs) = (case reply_of f of None \<Rightarrow> {#} | Some m \<Rightarrow> {#m#}) + replies fs"
  "replies (fs @ gs) = replies fs + replies gs"
  by (auto simp: replies_def List.map_filter_def split: option.splits)

lemma before_close_append:
  "before_close (fs @ gs) = (if SF_close \<in> set fs then before_close fs else fs @ before_close gs)"
  by (auto simp: before_close_def takeWhile_append)

lemma before_close_none: "SF_close \<notin> set fs \<Longrightarrow> before_close fs = fs"
  by (induction fs) (auto simp: before_close_def)

lemmas queue_history = history_def swap_functors_def EventLoop_QueueInLoop_def EventLoop_Quit_def queue_defs

lemma order_grows:
  assumes "A \<subseteq># S + replies (before_close fs)"
  shows "A \<subseteq># S + replies (before_close (fs @ gs))" and "A \<subseteq># add_mset m (S + replies (before_close fs))"
proof -
  have "replies (before_close fs) \<subseteq># replies (before_close (fs @ gs))" by (auto simp: before_close_append before_close_none)
  with assms show "A \<subseteq># S + replies (before_close (fs @ gs))"
    by (meson subset_mset.add_left_mono subset_mset.order_trans)
  show "A \<subseteq># add_mset m (S + replies (before_close fs))"
    using assms by (auto intro: subset_mset.order_trans)
qed

lemma early_sent:
  assumes "order_ok s" and "conns_closed s"
  shows "mset (early s) \<subseteq># silent s + replies (executed s)"
proof -
  from assms(2) have c: "SF_close \<in> set (executed s)" by (simp add: conns_closed_def)
  then have "waited (phase s)" using assms(1) by (auto simp: order_ok_def history_def split: if_splits)
  then have "mset (early s) \<subseteq># silent s + replies (before_close (executed s))"
    using assms(1) c by (simp add: order_ok_def history_def before_close_append)
  from order_grows(1) [OF this, of "dropWhile (\<lambda>f. f \<noteq> SF_close) (executed s)"] this show ?thesis
    using takeWhile_dropWhile_id [of "\<lambda>f. f \<noteq> SF_close" "executed s"]
    by (metis before_close_def replies_simps(3) mset_subset_eq_add_left subset_mset.add_left_mono subset_mset.order_trans)
qed

lemma shutdown_init_inv: "shutdown_inv (shutdown_init q)"
  by (simp add: shutdown_inv_def counts_ok_def order_ok_def flags_ok_def shutdown_init_def ThreadPool_new_def
      history_def waited_def conns_closed_def)

lemma loop_moves_counts: "loop_moves s t \<Longrightarrow> counts_ok s \<Longrightarrow> counts_ok t"
  by (cases rule: loop_moves.cases)
    (auto simp: counts_ok_def queue_history conns_closed_def ThreadPool_TryAddTask_def split: if_splits)

lemma loop_moves_history:
  assumes "loop_moves s t" and "counts_ok s"
  shows "history t = history s"
  using assms by (cases rule: loop_moves.cases) (auto simp: counts_ok_def queue_history)

lemma loop_moves_order:
  assumes "loop_moves s t" and "counts_ok s" and "order_ok s"
  shows "order_ok t"
proof -
  have h: "history t = history s" by (rule loop_moves_history [OF assms(1,2)])
  show ?thesis unfolding order_ok_def h
    using assms(1,3) by (cases rule: loop_moves.cases) (auto simp: order_ok_def)
qed

lemma loop_moves_flags:
  assumes "loop_moves s t" and "flags_ok s" and "order_ok s"
  shows "flags_ok t"
  using assms(1)
proof (cases rule: loop_moves.cases)
  case (admit m p)
  then show ?thesis using assms(2,3) by (simp add: flags_ok_def order_ok_def)
qed (use assms(2) in \<open>auto simp: flags_ok_def\<close>)

lemma worker_moves_counts: "worker_moves s t \<Longrightarrow> counts_ok s \<Longrightarrow> counts_ok t"
  by (cases rule: worker_moves.cases)
    (auto simp: counts_ok_def queue_history conns_closed_def pool_defs split: if_splits list.splits)

lemma worker_moves_order:
  assumes "worker_moves s t" and "order_ok s"
  shows "order_ok t"
  using assms(1)
proof (cases rule: worker_moves.cases)
  case (reply m B)
  have h: "history t = history s @ [SF_reply m]" using reply(1) by (simp add: queue_history)
  show ?thesis unfolding order_ok_def h using reply assms(2) by (auto simp: order_ok_def intro: order_grows)
next
  case (no_reply m B)
  have h: "history t = history s" using no_reply(1) by (simp add: history_def)
  show ?thesis unfolding order_ok_def h using no_reply assms(2) by (auto simp: order_ok_def intro: order_grows)
qed (use assms(2) in \<open>auto simp: order_ok_def history_def\<close>)

lemma worker_moves_flags: "worker_moves s t \<Longrightarrow> flags_ok s \<Longrightarrow> flags_ok t"
  by (cases rule: worker_moves.cases) (auto simp: flags_ok_def)

lemma stop_moves_counts: "stop_moves s t \<Longrightarrow> counts_ok s \<Longrightarrow> counts_ok t"
  by (cases rule: stop_moves.cases) (auto simp: counts_ok_def queue_history conns_closed_def ThreadPool_close_def)

lemma stop_moves_order:
  assumes "stop_moves s t" and "counts_ok s" and "order_ok s"
  shows "order_ok t"
  using assms(1)
proof (cases rule: stop_moves.cases)
  case wait_returns
  have "tasks (spool s) = []" "busy s = {#}"
    using wait_returns(3) assms(2) by (auto simp: ThreadPool_WaitForTasks_pred_def counts_ok_def)
  moreover have "late s = []" "SF_close \<notin> set (history s)" using assms(3) wait_returns(2) by (auto simp: order_ok_def waited_def)
  moreover have "lost_replies s = {#}" using assms(2) calculation(4) by (auto simp: counts_ok_def conns_closed_def history_def)
  ultimately have "mset (early s) = silent s + replies (before_close (history s))"
    using assms(2) by (simp add: counts_ok_def before_close_none)
  then show ?thesis using wait_returns(1) by (simp add: order_ok_def history_def waited_def)
next
  case close
  have h: "history t = history s @ [SF_close]" using close(1) by (simp add: queue_history)
  show ?thesis unfolding order_ok_def h using close assms(3) by (auto simp: order_ok_def waited_def intro: order_grows)
qed (use assms(3) in \<open>auto simp: order_ok_def waited_def queue_history\<close>)

lemma stop_moves_flags:
  assumes "stop_moves s t" and "flags_ok s" and "order_ok s"
  shows "flags_ok t"
  using assms(1)
proof (cases rule: stop_moves.cases)
  case set_flag
  then show ?thesis using assms(3) by (cases "loop_at s") (auto simp: flags_ok_def order_ok_def waited_def)
qed (use assms(2) in \<open>auto simp: flags_ok_def\<close>)

lemma shutdown_step_inv: "shutdown_step s t \<Longrightarrow> shutdown_inv s \<Longrightarrow> shutdown_inv t"
  unfolding shutdown_step_def shutdown_inv_def
  by (blast intro: loop_moves_counts loop_moves_order loop_moves_flags worker_moves_counts worker_moves_order
      worker_moves_flags stop_moves_counts stop_moves_order stop_moves_flags)

lemma shutdown_reachable_inv: "shutdown_reachable q s \<Longrightarrow> shutdown_inv s"
  by (induction rule: shutdown_reachable.induct) (auto intro: shutdown_init_inv shutdown_step_inv)

lemma reach_loop: "shutdown_reachable q s \<Longrightarrow> loop_moves s t \<Longrightarrow> shutdown_reachable q t"
  using shutdown_reachable.step unfolding shutdown_step_def by blast

lemma reach_worker: "shutdown_reachable q s \<Longrightarrow> worker_moves s t \<Longrightarrow> shutdown_reachable q t"
  using shutdown_reachable.step unfolding shutdown_step_def by blast

lemma reach_stop: "shutdown_reachable q s \<Longrightarrow> stop_moves s t \<Longrightarrow> shutdown_reachable q t"
  using shutdown_reachable.step unfolding shutdown_step_def by blast

section \<open>Properties\<close>



lemma exited_step: "shutdown_step s t \<Longrightarrow> loop_at s = Exited \<Longrightarrow> loop_at t = Exited \<and> executed t = executed s \<and> in_hands t = in_hands s"
  unfolding shutdown_step_def by (auto elim!: loop_moves.cases worker_moves.cases stop_moves.cases)

text \<open>
  What \<open>Stop\<close> does not wait for is the loop: \<open>WaitForTasks\<close> returns when the replies are queued, and \<open>Quit\<close>
  can be seen before they are run. From then on nothing is sent, whatever the other threads do, so a request that was
  admitted and carried out is never answered; the witness is such a run, up to the end of \<open>Stop\<close>.
\<close>

theorem exited_loop_strands_replies:
  assumes "shutdown_reachable q s" and "loop_at s = Exited" and "shutdown_step\<^sup>*\<^sup>* s t"
  shows "executed t = executed s \<and> mset (early t) + mset (late t) =
    mset (tasks (spool t)) + busy t + silent t + replies (executed s) + replies (pending (fq t)) + lost_replies t"
proof -
  have inv: "counts_ok u \<and> loop_at u = Exited \<and> executed u = executed s" if "shutdown_step\<^sup>*\<^sup>* s u" for u
    using that
  proof (induction rule: rtranclp_induct)
    case base
    then show ?case using shutdown_reachable_inv [OF assms(1)] assms(2) by (simp add: shutdown_inv_def)
  next
    case (step u v)
    then show ?case using exited_step [of u v] loop_moves_counts worker_moves_counts stop_moves_counts
      unfolding shutdown_step_def by metis
  qed
  from inv [OF assms(3)] show ?thesis by (simp add: counts_ok_def history_def)
qed

theorem exited_loop_strands_replies_witness:
  "\<exists>s t. shutdown_reachable 1 s \<and> loop_at s = Exited \<and> shutdown_step\<^sup>*\<^sup>* s t \<and> phase t = Pool_destroyed \<and>
     early t = [5 :: nat] \<and> replies (pending (fq t)) = {#5#} \<and> replies (executed t) = {#}"
proof -
  let ?i = "shutdown_init 1 :: nat shutdown"
  let ?p0 = "ThreadPool_new 1 :: nat pool"
  let ?p1 = "?p0\<lparr>tasks := [5 :: nat]\<rparr>" let ?p2 = "?p0\<lparr>activeTasks := 1\<rparr>"
  let ?f1 = "EventLoop_QueueInLoop SF_stop_accepting (fq ?i)" let ?f2 = "EventLoop_QueueInLoop SF_goaway ?f1"
  let ?f3 = "EventLoop_QueueInLoop (SF_reply 5) ?f2" let ?f4 = "EventLoop_QueueInLoop SF_close ?f3"
  let ?f5 = "EventLoop_Quit ?f4"
  note sd = shutdown_init_def ThreadPool_new_def ThreadPool_WaitForTasks_pred_def ThreadPool_TryAddTask_def waited_def
    swap_functors_def EventLoop_QueueInLoop_def EventLoop_Quit_def queue_defs ThreadPool_worker_lock_def conns_closed_def
    ThreadPool_worker_done_def ThreadPool_close_def
  have 1: "shutdown_reachable 1 (?i\<lparr>loop_at := Admitting 5\<rparr>)"
    using reach_loop [OF reach_loop [OF shutdown_reachable.init loop_moves.enter] loop_moves.pass [of _ 5]] by (simp add: sd)
  let ?a = "?i\<lparr>early := [5]\<rparr>"
  have 2: "shutdown_reachable 1 (?a\<lparr>loop_at := Dispatching, spool := ?p1\<rparr>)"
    using reach_loop [OF 1 loop_moves.admit [of _ 5 ?p1]] by (simp add: sd)
  have 3: "shutdown_reachable 1 (?a\<lparr>loop_at := Functors, spool := ?p1\<rparr>)"
    using reach_loop [OF 2 loop_moves.swap [of _ "[]" "fq ?i"]] by (simp add: sd)
  have 4: "shutdown_reachable 1 (?a\<lparr>loop_at := Functors, spool := ?p1, flag := True, phase := Notice_queued, fq := ?f2\<rparr>)"
    using reach_stop [OF reach_stop [OF reach_stop [OF 3 stop_moves.set_flag] stop_moves.stop_accepting] stop_moves.notice]
    by (simp add: sd)
  let ?b = "?a\<lparr>loop_at := Functors, flag := True\<rparr>"
  have 5: "shutdown_reachable 1 (?b\<lparr>spool := ?p2, phase := Notice_queued, fq := ?f2, busy := {#5#}\<rparr>)"
    using reach_worker [OF 4 worker_moves.take_task [of _ 5 ?p2]] by (simp add: sd)
  have 6: "shutdown_reachable 1 (?b\<lparr>spool := ?p2, phase := Notice_queued, fq := ?f3, ending := {#5#}\<rparr>)"
    using reach_worker [OF 5 worker_moves.reply [of _ 5 "{#}"]] by (simp add: sd)
  have 7: "shutdown_reachable 1 (?b\<lparr>spool := ?p0, phase := Notice_queued, fq := ?f3\<rparr>)"
    using reach_worker [OF 6 worker_moves.task_done [of _ 5 "{#}" True ?p0]] by (simp add: sd)
  have 8: "shutdown_reachable 1 (?b\<lparr>spool := ?p0, phase := Quit_called, fq := ?f5\<rparr>)"
    using reach_stop [OF reach_stop [OF reach_stop [OF 7 stop_moves.wait_returns] stop_moves.close] stop_moves.quit_loop]
    by (simp add: sd)
  let ?s = "?a\<lparr>loop_at := Exited, flag := True, spool := ?p0, phase := Quit_called, fq := ?f5\<rparr>"
  have 9: "shutdown_reachable 1 ?s"
    using reach_loop [OF reach_loop [OF 8 loop_moves.turn_ends] loop_moves.leave] by (simp add: sd)
  let ?j = "?s\<lparr>phase := Joined\<rparr>"
  let ?t = "?j\<lparr>spool := ThreadPool_close (spool ?j), phase := Pool_destroyed\<rparr>"
  have "stop_moves ?s ?j" and "stop_moves ?j ?t"
    by (rule stop_moves.join, simp, simp) (rule stop_moves.reset_pool, simp)
  then have 10: "shutdown_step ?s ?j" "shutdown_step ?j ?t" unfolding shutdown_step_def by blast+
  then have 11: "shutdown_step\<^sup>*\<^sup>* ?s ?t" by (meson converse_rtranclp_into_rtranclp rtranclp.rtrancl_refl)
  have 12: "executed ?t = executed ?s" by (rule conjunct1 [OF exited_loop_strands_replies [OF 9 _ 11]]) simp
  show ?thesis
    by (rule exI [of _ ?s], rule exI [of _ ?t]) (use 9 11 12 in \<open>simp add: sd\<close>)
qed

section \<open>Stop can always finish\<close>

text \<open>What \<open>Quit\<close> and the loop's end have to do with how far \<open>Stop\<close> is.\<close>

definition quit_called :: "stop_phase \<Rightarrow> bool" where
  "quit_called p \<longleftrightarrow> p \<in> {Quit_called, Joined, Pool_destroyed}"

definition quit_ok :: "'m shutdown \<Rightarrow> bool" where
  "quit_ok s \<longleftrightarrow> (quit (fq s) \<longleftrightarrow> quit_called (phase s)) \<and> (loop_at s = Exited \<longrightarrow> quit (fq s)) \<and>
     (phase s \<in> {Joined, Pool_destroyed} \<longrightarrow> loop_at s = Exited) \<and> (phase s = Close_queued \<longrightarrow> SF_close \<in> set (history s))"

lemma quit_ok_loop:
  assumes "loop_moves s t" and "quit_ok s" and "counts_ok s"
  shows "quit_ok t"
proof -
  have h: "history t = history s" by (rule loop_moves_history [OF assms(1,3)])
  show ?thesis unfolding quit_ok_def h
    using assms(1) by (cases rule: loop_moves.cases) (use assms(2) in \<open>auto simp: quit_ok_def swap_functors_def\<close>)
qed

lemma quit_ok_worker:
  assumes "worker_moves s t" and "quit_ok s"
  shows "quit_ok t"
proof -
  have h: "set (history s) \<subseteq> set (history t)" and e: "loop_at t = loop_at s" "phase t = phase s" "quit (fq t) = quit (fq s)"
    using assms(1) by (cases rule: worker_moves.cases; auto simp: queue_history)+
  show ?thesis unfolding quit_ok_def e using assms(2) h by (auto simp: quit_ok_def)
qed

lemma quit_ok_stop:
  assumes "stop_moves s t" and "quit_ok s"
  shows "quit_ok t"
  using assms(1) by (cases rule: stop_moves.cases) (use assms(2) in \<open>auto simp: quit_ok_def quit_called_def queue_history\<close>)

lemma reachable_ok: "shutdown_reachable q s \<Longrightarrow> quit_ok s \<and> counts_ok s"
proof (induction rule: shutdown_reachable.induct)
  case init
  then show ?case using shutdown_init_inv
    by (auto simp: quit_ok_def shutdown_init_def quit_called_def shutdown_inv_def)
next
  case (step s t)
  have "counts_ok t" using shutdown_reachable_inv [OF shutdown_reachable.step [OF step.hyps]] by (simp add: shutdown_inv_def)
  with step show ?case unfolding shutdown_step_def by (blast intro: quit_ok_loop quit_ok_worker quit_ok_stop)
qed

lemma reach_steps: "shutdown_step\<^sup>*\<^sup>* s t \<Longrightarrow> shutdown_reachable q s \<Longrightarrow> shutdown_reachable q t"
  by (induction rule: rtranclp_induct) (auto intro: shutdown_reachable.step)

text \<open>The workers, left alone, empty the pool.\<close>

lemma workers_drain:
  "counts_ok s \<Longrightarrow> \<not> conns_closed s \<Longrightarrow> \<exists>t. worker_moves\<^sup>*\<^sup>* s t \<and> ThreadPool_WaitForTasks_pred (spool t) \<and>
     phase t = phase s \<and> silent t = silent s"
proof (induction "3 * length (tasks (spool s)) + 2 * size (busy s) + size (ending s)" arbitrary: s rule: less_induct)
  case less
  have again: ?case if "worker_moves s u" "3 * length (tasks (spool u)) + 2 * size (busy u) + size (ending u) <
      3 * length (tasks (spool s)) + 2 * size (busy s) + size (ending s)" "phase u = phase s" "silent u = silent s" "\<not> conns_closed u" for u
    using less.hyps [OF that(2) worker_moves_counts [OF that(1) less.prems(1)] that(5)] that(1,3,4)
    by (metis converse_rtranclp_into_rtranclp)
  show ?case
  proof (cases "ending s")
    case (add m E)
    obtain notify p where d: "ThreadPool_worker_done (spool s) = (notify, p)" by force
    then have "tasks p = tasks (spool s)" by (auto simp: ThreadPool_worker_done_def Let_def)
    with again [OF worker_moves.task_done [OF add d]] add less.prems(2) show ?thesis by (simp add: conns_closed_def)
  next
    case empty
    show ?thesis
    proof (cases "busy s")
      case (add m B)
      from again [OF worker_moves.reply [OF add less.prems(2)]] add less.prems(2) show ?thesis by (simp add: conns_closed_def)
    next
      case none: empty
      show ?thesis
      proof (cases "tasks (spool s)")
        case Nil
        then have "ThreadPool_WaitForTasks_pred (spool s)"
          using less.prems empty none by (simp add: counts_ok_def ThreadPool_WaitForTasks_pred_def)
        then show ?thesis by blast
      next
        case (Cons m ms)
        let ?p = "(spool s)\<lparr>tasks := ms, activeTasks := activeTasks (spool s) + 1\<rparr>"
        have "ThreadPool_worker_lock (spool s) = Worker_runs m ?p" using Cons by (simp add: ThreadPool_worker_lock_def)
        from again [OF worker_moves.take_task [OF this]] Cons less.prems(2) show ?thesis by (simp add: conns_closed_def)
      qed
    qed
  qed
qed

text \<open>The loop, left alone, comes back to the test of \<open>quit_\<close>, with the functors of the turn run.\<close>

lemma loop_runs:
  "loop_at s = Functors \<Longrightarrow> \<exists>t. loop_moves\<^sup>*\<^sup>* s t \<and> loop_at t = Top \<and> in_hands t = [] \<and> executed t = executed s @ in_hands s \<and>
     fq t = fq s \<and> phase t = phase s"
proof (induction "in_hands s" arbitrary: s)
  case Nil
  then show ?case using loop_moves.turn_ends [of s] by (intro exI [of _ "s\<lparr>loop_at := Top\<rparr>"]) auto
next
  case (Cons f fs)
  let ?u = "s\<lparr>in_hands := fs, executed := executed s @ [f]\<rparr>"
  have r: "loop_moves s ?u" using loop_moves.run [of s f fs] Cons.prems Cons.hyps(2) by simp
  from Cons.hyps(1) [of ?u] Cons.prems obtain t where "loop_moves\<^sup>*\<^sup>* ?u t" "loop_at t = Top" "in_hands t = []"
    "executed t = executed ?u @ fs" "fq t = fq s" "phase t = phase s" by auto
  with r Cons.hyps(2) show ?case by (intro exI [of _ t]) (auto intro: converse_rtranclp_into_rtranclp)
qed

lemma loop_turns:
  assumes "loop_at s = Dispatching"
  shows "\<exists>t. loop_moves\<^sup>*\<^sup>* s t \<and> loop_at t = Top \<and> in_hands t = [] \<and> pending (fq t) = [] \<and> quit (fq t) = quit (fq s) \<and> phase t = phase s"
proof -
  let ?u = "s\<lparr>loop_at := Functors, in_hands := pending (fq s), fq := (fq s)\<lparr>pending := []\<rparr>\<rparr>"
  have "loop_moves s ?u" using loop_moves.swap [OF assms, of "pending (fq s)" "(fq s)\<lparr>pending := []\<rparr>"] by (simp add: swap_functors_def)
  moreover obtain t where "loop_moves\<^sup>*\<^sup>* ?u t" "loop_at t = Top" "in_hands t = []" "fq t = fq ?u" "phase t = phase s"
    using loop_runs [of ?u] by auto
  ultimately show ?thesis by (intro exI [of _ t]) (auto intro: converse_rtranclp_into_rtranclp)
qed

lemma loop_to_top:
  assumes "loop_at s \<noteq> Exited"
  shows "\<exists>t. loop_moves\<^sup>*\<^sup>* s t \<and> loop_at t = Top \<and> quit (fq t) = quit (fq s) \<and> phase t = phase s"
proof (cases "loop_at s")
  case Dispatching
  then show ?thesis using loop_turns [of s] by blast
next
  case (Admitting m)
  obtain b p where a: "ThreadPool_TryAddTask m (spool s) = (b, p)" by force
  obtain u where u: "loop_moves s u" "loop_at u = Dispatching" "fq u = fq s" "phase u = phase s"
    using loop_moves.admit [OF Admitting, of p] loop_moves.too_busy [OF Admitting, of p] a by (cases b) fastforce+
  with loop_turns [OF u(2)] show ?thesis by (metis converse_rtranclp_into_rtranclp)
next
  case Functors
  then show ?thesis using loop_runs [of s] by auto
qed (use assms in auto)

text \<open>Before \<open>Quit\<close>, one more turn runs all that is queued.\<close>

lemma loop_empties:
  assumes "loop_at s \<noteq> Exited" and "\<not> quit (fq s)" and "counts_ok s"
  shows "\<exists>t. loop_moves\<^sup>*\<^sup>* s t \<and> loop_at t = Top \<and> executed t = history s \<and> quit (fq t) = quit (fq s) \<and> phase t = phase s"
proof -
  obtain u where u: "loop_moves\<^sup>*\<^sup>* s u" "loop_at u = Top" "quit (fq u) = quit (fq s)" "phase u = phase s"
    using loop_to_top [OF assms(1)] by blast
  let ?v = "u\<lparr>loop_at := Dispatching\<rparr>"
  obtain t where t: "loop_moves\<^sup>*\<^sup>* ?v t" "loop_at t = Top" "in_hands t = []" "pending (fq t) = []" "quit (fq t) = quit (fq u)" "phase t = phase u"
    using loop_turns [of ?v] by auto
  have "loop_moves u ?v" using loop_moves.enter [OF u(2)] u(3) assms(2) by simp
  with u(1) t(1) have st: "loop_moves\<^sup>*\<^sup>* s t" by auto
  have "history t = history s \<and> counts_ok t"
    using st by (induction rule: rtranclp_induct) (auto simp: assms(3) loop_moves_counts dest: loop_moves_history)
  then show ?thesis using st t u(3,4) by (auto simp: history_def)
qed

text \<open>What the loop and \<open>Stop\<close> leave alone, and the lifting of their runs.\<close>

lemma quiet_runs:
  "loop_moves\<^sup>*\<^sup>* s t \<Longrightarrow> silent t = silent s \<and> set (executed s) \<subseteq> set (executed t)"
  "stop_moves\<^sup>*\<^sup>* s t \<Longrightarrow> silent t = silent s \<and> set (executed s) \<subseteq> set (executed t)"
  by (induction rule: rtranclp_induct; auto elim!: loop_moves.cases stop_moves.cases)+

lemma lifted_runs:
  "loop_moves\<^sup>*\<^sup>* s t \<Longrightarrow> shutdown_step\<^sup>*\<^sup>* s t"
  "worker_moves\<^sup>*\<^sup>* s t \<Longrightarrow> shutdown_step\<^sup>*\<^sup>* s t"
  "stop_moves\<^sup>*\<^sup>* s t \<Longrightarrow> shutdown_step\<^sup>*\<^sup>* s t"
  by (erule mono_rtranclp [rule_format, rotated]; simp add: shutdown_step_def)+

lemma stop_to_notice:
  assumes "phase s \<in> {Not_stopped, Flag_set, Accepting_stopped, Notice_queued}"
  shows "\<exists>t. stop_moves\<^sup>*\<^sup>* s t \<and> phase t = Notice_queued"
proof -
  have 3: "\<exists>t. stop_moves\<^sup>*\<^sup>* u t \<and> phase t = Notice_queued" if "phase u = Accepting_stopped" for u :: "'a shutdown"
    using stop_moves.notice [OF that] by (intro exI conjI) (erule r_into_rtranclp, simp)
  have 2: "\<exists>t. stop_moves\<^sup>*\<^sup>* u t \<and> phase t = Notice_queued" if "phase u = Flag_set" for u :: "'a shutdown"
    using stop_moves.stop_accepting [OF that]
      3 [of "u\<lparr>fq := EventLoop_QueueInLoop SF_stop_accepting (fq u), phase := Accepting_stopped\<rparr>"]
    by (auto intro: converse_rtranclp_into_rtranclp)
  have 1: "\<exists>t. stop_moves\<^sup>*\<^sup>* u t \<and> phase t = Notice_queued" if "phase u = Not_stopped" for u :: "'a shutdown"
    using stop_moves.set_flag [OF that] 2 [of "u\<lparr>flag := True, phase := Flag_set\<rparr>"]
    by (auto intro: converse_rtranclp_into_rtranclp)
  show ?thesis using assms 1 2 3 by (metis empty_iff insert_iff rtranclp.rtrancl_refl)
qed

text \<open>From the call of \<open>Quit\<close> to the end.\<close>

lemma finish_after_quit:
  assumes "shutdown_reachable q s" and "quit_called (phase s)"
  shows "\<exists>t. shutdown_step\<^sup>*\<^sup>* s t \<and> phase t = Pool_destroyed \<and> silent t = silent s \<and> set (executed s) \<subseteq> set (executed t)"
proof -
  have reset: "\<exists>t. stop_moves\<^sup>*\<^sup>* u t \<and> phase t = Pool_destroyed" if "phase u = Joined" for u :: "'a shutdown"
    using stop_moves.reset_pool [OF that] by (intro exI conjI) (erule r_into_rtranclp, simp)
  have join: "\<exists>t. stop_moves\<^sup>*\<^sup>* u t \<and> phase t = Pool_destroyed" if "phase u = Quit_called" "loop_at u = Exited" for u :: "'a shutdown"
    using stop_moves.join [OF that] reset [of "u\<lparr>phase := Joined\<rparr>"] by (auto intro: converse_rtranclp_into_rtranclp)
  have ends: "\<exists>t. loop_moves\<^sup>*\<^sup>* s t \<and> loop_at t = Exited \<and> phase t = phase s"
  proof (cases "loop_at s = Exited")
    case False
    obtain u where u: "loop_moves\<^sup>*\<^sup>* s u" "loop_at u = Top" "quit (fq u) = quit (fq s)" "phase u = phase s"
      using loop_to_top [OF False] by blast
    have "quit (fq s)" using reachable_ok [OF assms(1)] assms(2) by (simp add: quit_ok_def)
    then have "loop_moves u (u\<lparr>loop_at := Exited\<rparr>)" using loop_moves.leave [OF u(2)] u(3) by simp
    then show ?thesis using u(1,4) by (intro exI [of _ "u\<lparr>loop_at := Exited\<rparr>"]) auto
  qed blast
  then obtain u where u: "loop_moves\<^sup>*\<^sup>* s u" "loop_at u = Exited" "phase u = phase s" by blast
  have "\<exists>t. stop_moves\<^sup>*\<^sup>* u t \<and> phase t = Pool_destroyed"
    using assms(2) u(2,3) reset join unfolding quit_called_def by (metis empty_iff insert_iff rtranclp.rtrancl_refl)
  then obtain t where t: "stop_moves\<^sup>*\<^sup>* u t" "phase t = Pool_destroyed" by blast
  show ?thesis using quiet_runs(1) [OF u(1)] quiet_runs(2) [OF t(1)] lifted_runs(1) [OF u(1)] lifted_runs(3) [OF t(1)] t(2)
    by (intro exI [of _ t]) (auto intro: rtranclp_trans)
qed

text \<open>From the queued closing: one more turn of the loop runs it, and then \<open>Quit\<close> is called.\<close>

lemma finish_after_close:
  assumes "shutdown_reachable q s" and "phase s = Close_queued"
  shows "\<exists>t. shutdown_step\<^sup>*\<^sup>* s t \<and> phase t = Pool_destroyed \<and> silent t = silent s \<and> conns_closed t"
proof -
  have ok: "quit_ok s" "counts_ok s" using reachable_ok [OF assms(1)] by simp_all
  have "\<not> quit (fq s)" "loop_at s \<noteq> Exited" "SF_close \<in> set (history s)" using ok(1) assms(2) by (auto simp: quit_ok_def quit_called_def)
  with loop_empties [OF _ _ ok(2)] obtain u where u: "loop_moves\<^sup>*\<^sup>* s u" "executed u = history s" "phase u = phase s" by blast
  let ?v = "u\<lparr>fq := EventLoop_Quit (fq u), phase := Quit_called\<rparr>"
  have uv: "stop_moves u ?v" using stop_moves.quit_loop [of u] u(3) assms(2) by simp
  then have v: "shutdown_step\<^sup>*\<^sup>* s ?v" using lifted_runs(1) [OF u(1)] by (auto simp: shutdown_step_def intro: rtranclp.rtrancl_into_rtrancl)
  from finish_after_quit [OF reach_steps [OF v assms(1)]] obtain t where t: "shutdown_step\<^sup>*\<^sup>* ?v t" "phase t = Pool_destroyed"
    "silent t = silent ?v" "set (executed ?v) \<subseteq> set (executed t)" by (auto simp: quit_called_def)
  then show ?thesis using v quiet_runs(1) [OF u(1)] u(2) \<open>SF_close \<in> set (history s)\<close>
    by (intro exI [of _ t]) (auto simp: conns_closed_def intro: rtranclp_trans)
qed

lemma finish_after_wait:
  assumes "shutdown_reachable q s" and "phase s = Tasks_waited"
  shows "\<exists>t. shutdown_step\<^sup>*\<^sup>* s t \<and> phase t = Pool_destroyed \<and> silent t = silent s \<and> conns_closed t"
proof -
  let ?u = "s\<lparr>fq := EventLoop_QueueInLoop SF_close (fq s), phase := Close_queued\<rparr>"
  have u: "shutdown_step s ?u" using stop_moves.close [OF assms(2)] by (simp add: shutdown_step_def)
  from finish_after_close [OF shutdown_reachable.step [OF assms(1) u]] show ?thesis
    using u by (auto intro: converse_rtranclp_into_rtranclp)
qed

lemma finish_before_wait:
  assumes "shutdown_reachable q s" and "\<not> waited (phase s)"
  shows "\<exists>t. shutdown_step\<^sup>*\<^sup>* s t \<and> phase t = Pool_destroyed \<and> silent t = silent s \<and> conns_closed t"
proof -
  have "phase s \<in> {Not_stopped, Flag_set, Accepting_stopped, Notice_queued}" using assms(2) by (cases "phase s") (simp_all add: waited_def)
  from stop_to_notice [OF this] obtain u where u: "stop_moves\<^sup>*\<^sup>* s u" "phase u = Notice_queued" by blast
  have ru: "shutdown_reachable q u" by (rule reach_steps [OF lifted_runs(3) [OF u(1)] assms(1)])
  have "order_ok u" using shutdown_reachable_inv [OF ru] by (simp add: shutdown_inv_def)
  then have "\<not> conns_closed u" using u(2) by (simp add: order_ok_def waited_def conns_closed_def history_def)
  from workers_drain [OF conjunct2 [OF reachable_ok [OF ru]] this] obtain v where v: "worker_moves\<^sup>*\<^sup>* u v"
    "ThreadPool_WaitForTasks_pred (spool v)" "phase v = Notice_queued" "silent v = silent u" using u(2) by auto
  have rv: "shutdown_reachable q v" by (rule reach_steps [OF lifted_runs(2) [OF v(1)] ru])
  have vw: "shutdown_step v (v\<lparr>phase := Tasks_waited\<rparr>)" using stop_moves.wait_returns [OF v(3,2)] by (simp add: shutdown_step_def)
  from finish_after_wait [OF shutdown_reachable.step [OF rv vw]] obtain t where t: "shutdown_step\<^sup>*\<^sup>* (v\<lparr>phase := Tasks_waited\<rparr>) t"
    "phase t = Pool_destroyed" "silent t = silent v" "conns_closed t" by auto
  have "shutdown_step\<^sup>*\<^sup>* s t"
    using lifted_runs(3) [OF u(1)] lifted_runs(2) [OF v(1)] converse_rtranclp_into_rtranclp [of shutdown_step, OF vw t(1)]
    by (blast intro: rtranclp_trans)
  then show ?thesis using t v(4) quiet_runs(2) [OF u(1)] by auto
qed



end
