(* ===== verification/SystemViews.thy ===== *)
theory SystemViews
  imports CallProtocol RpcServerModel "HOL-Library.Sublist"
begin

text \<open>
  What a client and a server with one connection between them do to the bytes in flight: for each
  operation of \<open>RpcClientModel\<close> and \<open>RpcServerModel\<close>, on any thread, its effect on the stream it writes, on the
  stream it reads and on the queue of its loop, and what it leaves alone. Reads and writes are events that \<open>Channel::HandleEvent\<close>
  dispatches to \<open>handleRead\<close> and \<open>handleWrite\<close>. \<open>RpcSystem\<close> composes them.
\<close>

section \<open>Streams of whole frames\<close>

definition whole :: "(bytes \<Rightarrow> 'm option) \<Rightarrow> bytes \<Rightarrow> bool" where
  "whole parse bs \<longleftrightarrow> snd (split_frames parse bs) = ([], False)"

definition msgs_of :: "(bytes \<Rightarrow> 'm option) \<Rightarrow> bytes \<Rightarrow> 'm multiset" where
  "msgs_of parse bs = mset (fst (split_frames parse bs))"

text \<open>A buffer that holds less than one frame, as every receive loop leaves it.\<close>

definition partial_frame :: "(bytes \<Rightarrow> 'm option) \<Rightarrow> bytes \<Rightarrow> bool" where
  "partial_frame parse bs \<longleftrightarrow> split_frames parse bs = ([], bs, False)"

lemma whole_Nil [simp]: "whole parse []" "msgs_of parse [] = {#}" "partial_frame parse []"
  by (simp_all add: whole_def msgs_of_def partial_frame_def split_frames_short)

lemma whole_append:
  assumes "whole parse a" and "whole parse b"
  shows "whole parse (a @ b) \<and> msgs_of parse (a @ b) = msgs_of parse a + msgs_of parse b"
proof -
  obtain ms where ms: "split_frames parse a = (ms, [], False)" using assms(1) by (cases "split_frames parse a") (simp add: whole_def)
  obtain ns where ns: "split_frames parse b = (ns, [], False)" using assms(2) by (cases "split_frames parse b") (simp add: whole_def)
  show ?thesis using split_frames_append [OF ms, of b ns "[]" False] ms ns by (simp add: whole_def msgs_of_def)
qed

text \<open>A read in the middle of a stream of whole frames: no corruption, and the rest is one again.\<close>

lemma whole_read:
  assumes "whole parse (v @ c @ t)" and "split_frames parse (v @ c) = (ms, r, k)"
  shows "\<not> k \<and> partial_frame parse r \<and> whole parse (r @ t) \<and> msgs_of parse (v @ c @ t) = mset ms + msgs_of parse (r @ t)"
proof -
  have k: "\<not> k"
    using split_frames_append_corrupted [of parse "v @ c" ms r t] assms by (cases k) (simp_all add: whole_def)
  obtain ms' r' k' where s: "split_frames parse (r @ t) = (ms', r', k')" by (cases "split_frames parse (r @ t)")
  have "split_frames parse (v @ c @ t) = (ms @ ms', r', k')"
    using split_frames_append [of parse "v @ c" ms r t ms' r' k'] assms(2) k s by simp
  then show ?thesis using k s assms split_frames_rest [of parse "v @ c" ms r]
    by (simp add: whole_def msgs_of_def partial_frame_def)
qed

lemma whole_partial: "whole parse bs \<Longrightarrow> partial_frame parse bs \<Longrightarrow> bs = []"
  by (simp add: whole_def partial_frame_def)

text \<open>A serialiser and a parser that agree, on messages that fit into a frame.\<close>

definition codec_fits :: "('m \<Rightarrow> bytes option) \<Rightarrow> (bytes \<Rightarrow> 'm option) \<Rightarrow> bool" where
  "codec_fits ser parse \<longleftrightarrow> (\<forall>m data. ser m = Some data \<longrightarrow> parse data = Some m \<and> length data \<le> 67108864)"

lemma frame_whole:
  assumes "codec_fits ser parse" and "Codec_encode ser m = Some frame"
  shows "whole parse frame \<and> msgs_of parse frame = {#m#}"
proof -
  obtain data where "ser m = Some data" using assms(2) by (auto simp: Codec_encode_def split: option.splits)
  then show ?thesis using split_one_frame [of ser m data parse] assms by (auto simp: codec_fits_def whole_def msgs_of_def)
qed

section \<open>The queue of a loop\<close>

text \<open>The frames whose sending is queued, and the functors that a connection's loop can find there.\<close>

fun sends :: "conn_cb loop_functor list \<Rightarrow> bytes list" where
  "sends [] = []"
| "sends (f # fs) = (case f of Fn (CB_send d) \<Rightarrow> d # sends fs | _ \<Rightarrow> sends fs)"

definition plain_functor :: "(bytes \<Rightarrow> 'm option) \<Rightarrow> conn_cb loop_functor \<Rightarrow> bool" where
  "plain_functor parse f \<longleftrightarrow> (case f of Fn cb \<Rightarrow> (\<exists>d. cb = CB_send d \<and> whole parse d) | _ \<Rightarrow> True)"

definition queued_msgs :: "(bytes \<Rightarrow> 'm option) \<Rightarrow> conn_cb loop_functor list \<Rightarrow> 'm multiset" where
  "queued_msgs parse fs = sum_list (map (msgs_of parse) (sends fs))"

lemma sends_append [simp]: "sends (fs @ gs) = sends fs @ sends gs"
  by (induction fs) (auto split: loop_functor.splits conn_cb.splits)

lemma queued_msgs_simps [simp]:
  "queued_msgs parse [] = {#}" "queued_msgs parse (fs @ gs) = queued_msgs parse fs + queued_msgs parse gs"
  "queued_msgs parse (Fn (CB_send d) # fs) = msgs_of parse d + queued_msgs parse fs"
  "queued_msgs parse (Fn_AddTimer i cb t # fs) = queued_msgs parse fs"
  "queued_msgs parse (Fn_RemoveTimer i # fs) = queued_msgs parse fs"
  by (simp_all add: queued_msgs_def)

definition removals :: "conn_cb loop_functor list \<Rightarrow> bool" where
  "removals fs \<longleftrightarrow> (\<forall>f \<in> set fs. \<exists>i. f = Fn_RemoveTimer i)"

lemma removals_simps [simp]:
  "removals []" "removals (Fn_RemoveTimer i # fs) = removals fs" "removals (fs @ gs) = (removals fs \<and> removals gs)"
  by (auto simp: removals_def)

lemma removals_sends: "removals fs \<Longrightarrow> sends fs = [] \<and> queued_msgs parse fs = {#} \<and> list_all (plain_functor parse) fs"
  by (induction fs) (auto simp: removals_def plain_functor_def)

section \<open>What a connection's operations leave alone\<close>

definition conn_core where
  "conn_core w = (in_buf w, out_buf w, wire w, refs w, cstate w, chans w, chp w, sockfd w, thread_id w)"

lemma conn_core_same:
  fixes v w :: "('k, 'z) conn_world_scheme"
  assumes "conn_core v = conn_core w"
  shows "open_in_loop self v = open_in_loop self w" "promised v = promised w" "in_view v = in_view w"
    "wire v = wire w" "refs v = refs w" "out_buf v = out_buf w"
  using assms by (simp_all add: conn_core_def open_in_loop_def conn_ok_def promised_def in_view_def)

lemma set_events_wire:
  fixes v w' :: "('k, 'z) conn_world_scheme"
  shows "set_events sys junk p f v = Some w' \<Longrightarrow> wire w' = wire v"
  by (auto simp: set_events_def Channel_Update_def EventLoop_UpdateChannel_def split: option.splits prod.splits)

lemma sys_write_wire: "sys_write data w = (r, w1) \<Longrightarrow> prefix (wire w) (wire w1)"
  using sys_write_spec(1) [of data w r w1] by auto

lemma sendInLoop_wire:
  assumes "TcpConnection_sendInLoop sys junk data w = Some w'"
  shows "prefix (wire w) (wire w')"
  using assms
  by (auto simp: TcpConnection_sendInLoop_def Channel_EnableWriting_def dest!: set_events_wire sys_write_wire
      split: if_splits sum.splits prod.splits)

lemma wire_le_promised: "length (wire w) \<le> length (promised w)"
  by (simp add: promised_def)

lemma out_buf_length:
  "conn_ok w \<Longrightarrow> Buffer_ReadableBytes (out_buf w) = length (promised w) - length (wire w)"
  by (simp add: promised_def conn_ok_def)

text \<open>
  An operation hands exactly the messages \<open>M\<close> to the connection: frames that it promises at once, or that it
  queues for the loop, each with an owner of the connection.
\<close>

definition emits :: "(bytes \<Rightarrow> 'm option) \<Rightarrow> ('k, 'z) conn_world_scheme \<Rightarrow> ('k, 'z) conn_world_scheme \<Rightarrow> 'm multiset \<Rightarrow> bool" where
  "emits parse w w' M \<longleftrightarrow> (\<exists>out fs. promised w' = promised w @ out \<and> pending w' = pending w @ fs \<and>
     refs w' = refs w + length (sends fs) \<and> whole parse out \<and> list_all (plain_functor parse) fs \<and>
     msgs_of parse out + queued_msgs parse fs = M) \<and> prefix (wire w) (wire w')"

lemma emitsI:
  assumes "promised w' = promised w @ out" and "pending w' = pending w @ fs" and "refs w' = refs w + length (sends fs)"
    and "whole parse out" and "list_all (plain_functor parse) fs" and "prefix (wire w) (wire w')"
  shows "emits parse w w' (msgs_of parse out + queued_msgs parse fs)"
  using assms unfolding emits_def by blast

lemma emits_none:
  assumes "conn_core w' = conn_core w" and "pending w' = pending w @ fs" and "sends fs = []" and "list_all (plain_functor parse) fs"
  shows "emits parse w w' {#}"
  using emitsI [of w' w "[]" fs parse] conn_core_same [OF assms(1)] assms(2-4) by (simp add: queued_msgs_def)

section \<open>Events of an open connection\<close>

text \<open>
  What the loop does for an event of the connection's channel: \<open>Channel::HandleEvent\<close> with the callbacks bound to the
  connection. An open connection that is writable writes; one whose peer's bytes have arrived reads them, by way of
  \<open>handleRead\<close>, and runs the message callback with an owner of its own.
\<close>

definition conn_event where
  "conn_event sys junk cbs revents w = Channel_HandleEvent (conn_call sys junk cbs) (chp w) revents w"

text \<open>This is the dispatch of any entry of the epoll array that points to the channel.\<close>

lemma dispatch_conn_event:
  assumes "conn_ok w" and "Epoller_GetChannel (epoller w) i = chp w" and "chp w \<noteq> 0" and "Epoller_GetEventFd (epoller w) i \<noteq> wakeup_fd w"
  shows "dispatch_event (conn_call sys junk cbs) i w = conn_event sys junk cbs (Epoller_GetEvents (epoller w) i) w"
  using assms by (auto simp: dispatch_event_def conn_event_def conn_ok_def Channel_is_none_event_def Let_def)

lemma event_bits:
  "EPOLLIN AND EPOLLERR = 0" "EPOLLIN AND EPOLLHUP = 0" "EPOLLIN AND EPOLLRDHUP = 0" "EPOLLIN \<noteq> 0" "EPOLLIN AND EPOLLOUT = 0"
  "EPOLLOUT AND EPOLLERR = 0" "EPOLLOUT AND EPOLLHUP = 0" "EPOLLOUT AND EPOLLRDHUP = 0" "EPOLLOUT AND EPOLLIN = 0" "EPOLLOUT \<noteq> 0"
  by (simp_all add: epoll_masks)

lemma open_channel:
  assumes "conn_ok w"
  shows "\<exists>e. chans w (chp w) = Some ((conn_channel (sockfd w))\<lparr>ch_events := e\<rparr>) \<and> e \<noteq> 0"
  using assms by (auto simp: conn_ok_def)

lemma write_event:
  assumes "conn_ok w"
  shows "conn_event sys junk cbs EPOLLOUT w = TcpConnection_handleWrite sys junk w"
  using open_channel [OF assms]
  by (auto simp: conn_event_def Channel_HandleEvent_def event_bits call_if_set_def conn_call_def conn_channel_def
      Channel_SetReadCallback_def Channel_SetWriteCallback_def Channel_SetCloseCallback_def)

text \<open>After the message callback the connection has its owners back.\<close>

lemma read_event:
  fixes w :: "('k, 'z) conn_world_scheme"
  assumes "open_in_loop self w" and "chunk \<noteq> []"
  shows "\<exists>b. let y = w\<lparr>read_script := [], in_buf := b, refs := refs w + 1\<rparr>
    in open_in_loop self y \<and> in_view y = in_view w @ chunk \<and>
       conn_event sys junk (cbs\<lparr>messageCallback := Some f\<rparr>) EPOLLIN (w\<lparr>read_script := [Inr chunk]\<rparr>) = map_option release (f y)"
proof -
  have ok: "conn_ok w" "thread_id w = self" using assms(1) by (simp_all add: open_in_loop_def)
  let ?w = "w\<lparr>read_script := [Inr chunk]\<rparr>" and ?v = "w\<lparr>read_script := []\<rparr>"
  obtain b where b: "Buffer_ReadFd (Inr chunk) (in_buf w) = (b, Inr (length chunk))" "wf_buffer b"
    "Buffer_PeekStringView b = in_view w @ chunk"
    using ReadFd_view [of "in_buf w" "Inr chunk"] ok(1)
    by (cases "Buffer_ReadFd (Inr chunk) (in_buf w)") (auto simp: conn_ok_def in_view_def Buffer_ReadFd_def Let_def split: if_splits)
  obtain e where e: "chans w (chp w) = Some ((conn_channel (sockfd w))\<lparr>ch_events := e\<rparr>)" "e \<noteq> 0" using open_channel [OF ok(1)] by blast
  have "conn_event sys junk (cbs\<lparr>messageCallback := Some f\<rparr>) EPOLLIN ?w =
      TcpConnection_handleRead sys junk (cbs\<lparr>messageCallback := Some f\<rparr>) ?w"
    using e by (simp add: conn_event_def Channel_HandleEvent_def event_bits call_if_set_def conn_call_def conn_channel_def
        Channel_SetReadCallback_def Channel_SetWriteCallback_def Channel_SetCloseCallback_def)
  also have "\<dots> = map_option release (f (?v\<lparr>in_buf := b, refs := refs w + 1\<rparr>))"
    using ok(1) b(1) assms(2) e(1)
    by (simp add: TcpConnection_handleRead_def conn_ok_def sys_read_def invoke_Some alive_def)
  finally show ?thesis using ok b(2,3)
    by (intro exI [of _ b]) (simp add: Let_def open_in_loop_def conn_ok_def in_view_def)
qed

lemma release_back: "0 < n \<Longrightarrow> refs w = Suc n \<Longrightarrow> release w = w\<lparr>refs := n\<rparr>"
  by (simp add: release_def Let_def)

text \<open>The kernel has room for \<open>n\<close> bytes and the loop writes: progress, and nothing else changes.\<close>

lemma handleWrite_frame:
  assumes "TcpConnection_handleWrite sys junk w = Some w'"
  shows "send_frame w w'"
proof (cases "cstate w = Connected")
  case True
  obtain r w1 where r: "sys_write (Buffer_PeekStringView (out_buf w)) w = (r, w1)" by force
  obtain ret out where ret: "Buffer_WriteFd r (out_buf w1) = (ret, out)" by force
  let ?w = "case ret of Inr n \<Rightarrow> if 0 < n then w1\<lparr>out_buf := Buffer_Retrieve n (out_buf w1)\<rparr> else w1 | Inl _ \<Rightarrow> w1"
  have "send_frame w ?w" using sys_write_send_frame [OF r] by (auto split: sum.splits)
  moreover have "(if Buffer_ReadableBytes (out_buf ?w) = 0 then Channel_DisableWriting sys junk (chp ?w) ?w else Some ?w) = Some w'"
    using assms True r ret by (simp add: TcpConnection_handleWrite_def Let_def)
  ultimately show ?thesis
    by (auto simp: Channel_DisableWriting_def intro: set_events_send_frame split: if_splits)
qed (use assms in \<open>simp add: TcpConnection_handleWrite_def\<close>)

lemma send_frame_script: "send_frame w (w\<lparr>write_script := rs\<rparr>)"
  by (simp add: send_frame_def send_erased_def)

lemma send_frame_trans: "send_frame u v \<Longrightarrow> send_frame v w \<Longrightarrow> send_frame u w"
  by (simp add: send_frame_def)

lemma write_progress:
  assumes ok: "conn_ok w" and n: "0 < n" and b: "0 < Buffer_ReadableBytes (out_buf w)"
  shows "\<exists>w'. TcpConnection_handleWrite sys junk (w\<lparr>write_script := [Inr n]\<rparr>) = Some w' \<and> conn_ok w' \<and>
    promised w' = promised w \<and> thread_id w' = thread_id w \<and> send_frame w w' \<and>
    prefix (wire w) (wire w') \<and> length (wire w) < length (wire w')"
proof -
  let ?w = "w\<lparr>write_script := [Inr n]\<rparr>"
  let ?v = "Buffer_PeekStringView (out_buf w)"
  let ?n = "min n (length ?v)"
  have ok': "conn_ok ?w" using ok by (simp add: conn_ok_def)
  obtain w' where w': "TcpConnection_handleWrite sys junk ?w = Some w'" "conn_ok w'" "promised w' = promised ?w"
    "thread_id w' = thread_id ?w" using handleWrite_ok [OF ok'] by blast
  have c: "cstate w = Connected" "wf_buffer (out_buf w)" using ok by (simp_all add: conn_ok_def)
  have s: "sys_write (Buffer_PeekStringView (out_buf ?w)) ?w = (Inr ?n, ?w\<lparr>write_script := [], wire := wire w @ take ?n ?v\<rparr>)"
    by (simp add: sys_write_def Let_def)
  have pos: "0 < ?n" using n b c(2) by simp
  let ?x = "?w\<lparr>write_script := [], wire := wire w @ take ?n ?v\<rparr>"
  let ?y = "?x\<lparr>out_buf := Buffer_Retrieve ?n (out_buf ?x)\<rparr>"
  have r: "?n = min n (Buffer_ReadableBytes (out_buf w))" "min ?n (Buffer_ReadableBytes (out_buf w)) = ?n" using c(2) by simp_all
  obtain out where wf: "Buffer_WriteFd (Inr ?n) (out_buf ?x) = (Inr ?n, out)"
    using r(2) by (simp add: Buffer_WriteFd_def Let_def)
  have "(if Buffer_ReadableBytes (out_buf ?y) = 0 then Channel_DisableWriting sys junk (chp ?y) ?y else Some ?y) = Some w'"
    using w'(1) c(1) unfolding TcpConnection_handleWrite_def Let_def s prod.case wf sum.case if_P [OF pos] by simp
  then have "wire w' = wire w @ take ?n ?v"
    by (auto simp: Channel_DisableWriting_def dest!: set_events_wire split: if_splits)
  then have "prefix (wire w) (wire w')" "length (wire w) < length (wire w')" using pos by simp_all
  moreover have "send_frame w w'"
    using send_frame_trans [OF send_frame_script handleWrite_frame [OF w'(1)]] .
  ultimately show ?thesis using w' by (auto simp: promised_def)
qed

text \<open>The event: the socket is writable, and the kernel takes up to \<open>n\<close> bytes.\<close>

definition conn_writes where
  "conn_writes sys junk cbs n w = conn_event sys junk cbs EPOLLOUT (w\<lparr>write_script := [Inr n]\<rparr>)"

lemma conn_writes_progress:
  assumes "conn_ok w" and "0 < n" and "0 < Buffer_ReadableBytes (out_buf w)"
  shows "\<exists>w'. conn_writes sys junk cbs n w = Some w' \<and> conn_ok w' \<and>
    promised w' = promised w \<and> thread_id w' = thread_id w \<and> send_frame w w' \<and>
    prefix (wire w) (wire w') \<and> length (wire w) < length (wire w')"
proof -
  have "conn_ok (w\<lparr>write_script := [Inr n]\<rparr>)" using assms(1) by (simp add: conn_ok_def)
  from write_event [OF this] write_progress [OF assms] show ?thesis by (simp add: conn_writes_def)
qed

text \<open>A send from any thread.\<close>

lemma send_view:
  assumes "open_in_loop self w" and "whole parse frame"
  shows "\<exists>w'. TcpConnection_send sys junk j frame w = Some w' \<and> open_in_loop self w' \<and> in_view w' = in_view w \<and>
    emits parse w w' (msgs_of parse frame) \<and>
    (send_frame w w' \<or> w' = EventLoop_QueueInLoop (Fn (CB_send frame)) (w\<lparr>refs := refs w + 1\<rparr>))"
proof -
  have ok: "conn_ok w" "thread_id w = self" using assms(1) by (simp_all add: open_in_loop_def)
  show ?thesis
  proof (cases "j = self")
    case True
    then have s: "TcpConnection_send sys junk j frame w = TcpConnection_sendInLoop sys junk frame w"
      using ok by (simp add: TcpConnection_send_def EventLoop_IsInLoopThread_def conn_ok_def)
    obtain w' where w': "TcpConnection_sendInLoop sys junk frame w = Some w'" "conn_ok w'" "promised w' = promised w @ frame"
      "thread_id w' = thread_id w" using sendInLoop_ok [OF ok(1)] by blast
    note fr = sendInLoop_frame [OF w'(1)]
    have "in_view w' = in_view w" "pending w' = pending w" "refs w' = refs w"
      using send_frame_field [OF fr, of in_view] send_frame_field [OF fr, of pending] send_frame_field [OF fr, of refs]
      by (simp_all add: send_erased_def in_view_def)
    then show ?thesis using s w' fr assms(2) ok(2) sendInLoop_wire [OF w'(1)] emitsI [of w' w frame "[]" parse]
      by (auto simp: open_in_loop_def)
  next
    case False
    let ?w = "EventLoop_QueueInLoop (Fn (CB_send frame)) (w\<lparr>refs := refs w + 1\<rparr>)"
    have "TcpConnection_send sys junk j frame w = Some ?w"
      using False ok by (simp add: TcpConnection_send_def EventLoop_IsInLoopThread_def conn_ok_def)
    moreover have "emits parse w ?w (msgs_of parse frame)"
      using emitsI [of ?w w "[]" "[Fn (CB_send frame)]" parse] assms(2)
      by (simp add: promised_def plain_functor_def EventLoop_QueueInLoop_def queue_defs)
    ultimately show ?thesis using ok
      by (auto simp: open_in_loop_def conn_ok_def in_view_def EventLoop_QueueInLoop_def queue_defs)
  qed
qed

text \<open>The first functor of the queue runs.\<close>

lemma functor_runs:
  assumes ok: "conn_ok w" and q: "pending w = f # fs" and f: "plain_functor parse f" and refs: "length (sends (pending w)) < refs w"
    and run: "run_functor clock (conn_call sys junk cbs) f (w\<lparr>pending := fs\<rparr>) = r"
  shows "\<exists>w'. r = Some w' \<and> conn_ok w' \<and> thread_id w' = thread_id w \<and> pending w' = fs \<and>
    length (sends fs) < refs w' \<and> prefix (wire w) (wire w') \<and> in_view w' = in_view w \<and>
    (\<exists>out. promised w' = promised w @ out \<and>
      (whole parse out \<and> msgs_of parse out + queued_msgs parse fs = queued_msgs parse (pending w))) \<and>
    (send_frame (w\<lparr>pending := fs, refs := refs w - 1\<rparr>) w' \<or> (\<exists>tm. w' = w\<lparr>pending := fs, timer := tm\<rparr>))"
proof (cases f)
  case (Fn cb)
  then obtain d where d: "cb = CB_send d" "whole parse d" using f by (auto simp: plain_functor_def)
  have refs': "1 < refs w" "length (sends fs) < refs w - 1" using refs by (auto simp: q Fn d)
  have ok': "conn_ok (w\<lparr>pending := fs\<rparr>)" using ok by (simp add: conn_ok_def)
  obtain w' where w': "conn_call sys junk cbs (CB_send d) (w\<lparr>pending := fs\<rparr>) = Some w'" "conn_ok w'"
    "promised w' = promised (w\<lparr>pending := fs\<rparr>) @ d" "send_frame (w\<lparr>pending := fs, refs := refs w - 1\<rparr>) w'"
    using send_functor [OF ok', of sys junk cbs d] refs'(1) by auto
  have wire: "prefix (wire w) (wire w')"
  proof -
    have "cstate w = Connected" using ok by (simp add: conn_ok_def)
    then obtain v where v: "TcpConnection_sendInLoop sys junk d (w\<lparr>pending := fs\<rparr>) = Some v" "release v = w'"
      using w'(1) by (auto simp: conn_call_def)
    have "wire (release v) = wire v"
      by (simp add: release_def TcpConnection_delete_def Channel_delete_def Let_def)
    then show ?thesis using sendInLoop_wire [OF v(1)] v(2) by simp
  qed
  have fld: "pending w' = fs" "refs w' = refs w - 1" "in_view w' = in_view w" "thread_id w' = thread_id w"
    using send_frame_field [OF w'(4), of pending] send_frame_field [OF w'(4), of refs]
      send_frame_field [OF w'(4), of in_view] send_frame_field [OF w'(4), of thread_id]
    by (simp_all add: send_erased_def in_view_def)
  have "promised (w\<lparr>pending := fs\<rparr>) = promised w" by (simp add: promised_def)
  then show ?thesis using run w' wire fld refs'(2) d Fn by (auto simp: run_functor_def q)
qed (use assms in \<open>auto simp: run_functor_def conn_ok_def promised_def in_view_def\<close>)

section \<open>The client's end\<close>

definition client_still where
  "client_still w = ((promised w, wire w, out_buf w), (pending w, refs w),
     (has_connection w, cli_stopped w, tc_connected w, pending_locked w))"

text \<open>The receive loop of the client again, with all that a response leaves alone.\<close>

interpretation client_link: frame_reader "open_in_loop (c_self env)" in_view in_feed in_consume "c_parse env"
  "RpcClient_onMessage (recording env)" "RpcClient_handle_response (recording env)"
  "TcpConnection_close (c_sys env) (c_junk env) (c_cbs env) (c_self env)" "\<lambda>w. (client_rest w, client_still w)"
  "\<lambda>m s. (client_effect m (fst s), snd s)"
  for env :: "('k, 'u, 'z) client_env"
proof (intro frame_reader.intro conn_input.byte_stream_axioms, unfold_locales)
  fix w :: "('k, 'u, 'z) client_world_scheme"
  assume w: "open_in_loop (c_self env) w"
  show "\<exists>w'. RpcClient_handle_response (recording env) m w = Some w' \<and> open_in_loop (c_self env) w' \<and>
      in_view w' = in_view w \<and> (client_rest w', client_still w') =
        (client_effect m (fst (client_rest w, client_still w)), snd (client_rest w, client_still w))" for m
  proof -
    obtain w' where w': "RpcClient_handle_response (recording env) m w = Some w'" "open_in_loop (c_self env) w'"
      "in_view w' = in_view w" "client_rest w' = client_effect m (client_rest w)" using handle_response_ok [OF w] by blast
    have "client_still w' = client_still w" using w'(1) w
      by (auto simp: RpcClient_handle_response_def take_pending_spec remove_timer_in_loop respond_def open_in_loop_def
          client_still_def promised_def Let_def split: option.splits)
    then show ?thesis using w' by simp
  qed
qed (simp_all add: client_reader.loop_incomplete client_reader.loop_corrupted client_reader.loop_ok,
    simp_all add: in_defs client_rest_def client_still_def promised_def)

lemma fold_fst: "fold (\<lambda>m s. (f m (fst s), snd s)) ms (x, y) = (fold f ms x, y)"
  by (induction ms arbitrary: x) simp_all

text \<open>One read of the client, in the middle of a stream of whole frames.\<close>

definition client_receives ::
  "('k, 'u, 'z) client_env \<Rightarrow> bytes \<Rightarrow> ('k, 'u, 'z) client_world_scheme \<Rightarrow> ('k, 'u, 'z) client_world_scheme option" where
  "client_receives env chunk c =
     conn_event (c_sys env) (c_junk env) ((c_cbs env)\<lparr>messageCallback := Some (RpcClient_onMessage env)\<rparr>) EPOLLIN
       (c\<lparr>read_script := [Inr chunk]\<rparr>)"

lemma client_read:
  fixes c :: "('k, 'u, 'z) client_world_scheme"
  assumes "open_in_loop (c_self env) c" and "chunk \<noteq> []" and "whole (c_parse env) (in_view c @ chunk @ tail)"
  defines "ms \<equiv> fst (split_frames (c_parse env) (in_view c @ chunk))"
  shows "\<exists>c'. client_receives (recording env) chunk c = Some c' \<and> open_in_loop (c_self env) c' \<and>
    partial_frame (c_parse env) (in_view c') \<and> whole (c_parse env) (in_view c' @ tail) \<and>
    msgs_of (c_parse env) (in_view c @ chunk @ tail) = mset ms + msgs_of (c_parse env) (in_view c' @ tail) \<and>
    client_rest c' = fold client_effect ms (client_rest c) \<and> client_still c' = client_still c"
proof -
  obtain r k where s: "split_frames (c_parse env) (in_view c @ chunk) = (ms, r, k)"
    by (cases "split_frames (c_parse env) (in_view c @ chunk)") (simp add: ms_def)
  note wr = whole_read [OF assms(3) s]
  obtain b where b: "open_in_loop (c_self env) (c\<lparr>read_script := [], in_buf := b, refs := refs c + 1\<rparr>)"
    "in_view (c\<lparr>read_script := [], in_buf := b, refs := refs c + 1\<rparr>) = in_view c @ chunk"
    "client_receives (recording env) chunk c =
       map_option release (RpcClient_onMessage (recording env) (c\<lparr>read_script := [], in_buf := b, refs := refs c + 1\<rparr>))"
    using read_event [OF assms(1,2)] by (simp add: Let_def client_receives_def) blast
  let ?f = "c\<lparr>read_script := [], in_buf := b, refs := refs c + 1\<rparr>"
  have v: "split_frames (c_parse env) (in_view ?f) = (ms, r, k)" using s b(2) by simp
  obtain d where d: "open_in_loop (c_self env) d" "in_view d = r" "RpcClient_onMessage (recording env) ?f = Some d"
    "client_rest d = fold client_effect ms (client_rest ?f)" "client_still d = client_still ?f"
    using client_link.loop_split [OF b(1) v] wr by (auto simp: fold_fst)
  have pos: "0 < refs c" using assms(1) by (simp add: open_in_loop_def conn_ok_def)
  have "refs d = Suc (refs c)" using d(5) by (simp add: client_still_def)
  note rel = release_back [OF pos this]
  have "client_receives (recording env) chunk c = Some (d\<lparr>refs := refs c\<rparr>)" using b(3) d(3) rel by simp
  moreover have "open_in_loop (c_self env) (d\<lparr>refs := refs c\<rparr>)" "in_view (d\<lparr>refs := refs c\<rparr>) = r"
    using d(1,2) pos by (simp_all add: open_in_loop_def conn_ok_def in_view_def)
  moreover have "client_rest (d\<lparr>refs := refs c\<rparr>) = fold client_effect ms (client_rest c)" "client_still (d\<lparr>refs := refs c\<rparr>) = client_still c"
    using d(4,5) by (simp_all add: client_rest_def client_still_def promised_def)
  ultimately show ?thesis using wr by simp
qed

text \<open>A user is answered by a response that arrives, or by the client itself with one of its own codes.\<close>

definition client_codes :: "RpcErrorCode set" where
  "client_codes = {CLIENT_NOT_RUNNING, CLIENT_ENCODE_FAILED, CLIENT_REQUEST_TIMEOUT,
     CLIENT_CONNECTION_DISCONNECTED, CLIENT_NETWORK_ERROR}"

definition answered_by_client :: "bytes \<Rightarrow> rpc_response \<Rightarrow> bool" where
  "answered_by_client i r \<longleftrightarrow> (\<exists>code \<in> client_codes. \<exists>msg. r = make_response i code msg)"

lemma answered_by_clientI [simp]:
  "code \<in> client_codes \<Longrightarrow> answered_by_client i (make_response i code msg)"
  by (auto simp: answered_by_client_def)

lemma in_client_codes [simp]:
  "CLIENT_NOT_RUNNING \<in> client_codes" "CLIENT_ENCODE_FAILED \<in> client_codes" "CLIENT_REQUEST_TIMEOUT \<in> client_codes"
  "CLIENT_CONNECTION_DISCONNECTED \<in> client_codes" "CLIENT_NETWORK_ERROR \<in> client_codes"
  by (simp_all add: client_codes_def)

definition local_answers :: "(bytes \<times> 'u option) list \<Rightarrow> ('u \<times> rpc_response) list \<Rightarrow> bool" where
  "local_answers tbl new \<longleftrightarrow> (\<forall>x \<in> set new. \<exists>i. (i, Some (fst x)) \<in> set tbl \<and> answered_by_client i (snd x))"

lemma local_answers_simps [simp]:
  "local_answers tbl []"
  "local_answers tbl (x # new) = ((\<exists>i. (i, Some (fst x)) \<in> set tbl \<and> answered_by_client i (snd x)) \<and> local_answers tbl new)"
  by (simp_all add: local_answers_def)

lemma local_answers_mono: "local_answers tbl new \<Longrightarrow> set tbl \<subseteq> set tbl' \<Longrightarrow> local_answers tbl' new"
  unfolding local_answers_def by blast

text \<open>The table shrinks, and what is answered was in it.\<close>

definition local_step where
  "local_step w w' \<longleftrightarrow> set (pending_calls w') \<subseteq> set (pending_calls w) \<and>
     (\<exists>new. answered w' = answered w @ new \<and>
        local_answers (pending_calls w) new) \<and>
     conn_core w' = conn_core w \<and> has_connection w' = has_connection w \<and> pending_locked w' = pending_locked w \<and>
     (\<exists>fs. pending w' = pending w @ fs \<and> removals fs)"

lemma remove_timer_local:
  fixes w :: "('k, 'u, 'z) client_world_scheme"
  assumes "remove_timer env i w = Some w'"
  shows "conn_core w' = conn_core w \<and> has_connection w' = has_connection w \<and> pending_locked w' = pending_locked w \<and>
    pending_calls w' = pending_calls w \<and> answered w' = answered w \<and> (\<exists>fs. pending w' = pending w @ fs \<and> removals fs)"
  using assms
  by (cases "thread_id w = c_self env")
    (auto simp: remove_timer_in_loop remove_timer_other_thread conn_core_def EventLoop_QueueInLoop_def queue_defs)

lemma take_pending_in:
  "take_pending i tbl = (cb, tbl') \<Longrightarrow> set tbl' \<subseteq> set tbl \<and> (\<forall>u. cb = Some u \<longrightarrow> (i, Some u) \<in> set tbl)"
  by (auto simp: take_pending_spec AList.delete_eq dest: map_of_SomeD split: option.splits)

lemma settle_local:
  fixes w :: "('k, 'u, 'z) client_world_scheme"
  assumes "take_pending i (pending_calls w) = (cb, tbl)"
    and "remove_timer (recording env) i (w\<lparr>pending_calls := tbl\<rparr>) = Some v \<or> v = w\<lparr>pending_calls := tbl\<rparr>"
    and "respond (recording env) cb r v = Some w'" and "answered_by_client i r"
  shows "local_step w w'"
proof -
  have v: "conn_core v = conn_core w \<and> has_connection v = has_connection w \<and> pending_locked v = pending_locked w \<and>
    pending_calls v = tbl \<and> answered v = answered w \<and> (\<exists>fs. pending v = pending w @ fs \<and> removals fs)"
  proof (cases "v = w\<lparr>pending_calls := tbl\<rparr>")
    case True
    then show ?thesis by (simp add: conn_core_def)
  next
    case False
    then show ?thesis using assms(2) remove_timer_local [of "recording env" i "w\<lparr>pending_calls := tbl\<rparr>" v] by (simp add: conn_core_def)
  qed
  note t = take_pending_in [OF assms(1)]
  have w': "w' = v\<lparr>answered := answered v @ map (\<lambda>u. (u, r)) (case cb of None \<Rightarrow> [] | Some u \<Rightarrow> [u])\<rparr>"
    using assms(3) by (simp add: respond_recording)
  show ?thesis unfolding local_step_def w' using v t assms(4)
    by (cases cb) (auto simp: conn_core_def)
qed

lemma drop_each_local:
  fixes w :: "('k, 'u, 'z) client_world_scheme"
  assumes "drop_each (recording env) code msg tbl w = Some w'" and "code \<in> client_codes"
  shows "pending_calls w' = pending_calls w \<and> conn_core w' = conn_core w \<and> has_connection w' = has_connection w \<and>
     pending_locked w' = pending_locked w \<and> (\<exists>fs. pending w' = pending w @ fs \<and> removals fs) \<and>
     (\<exists>new. answered w' = answered w @ new \<and> local_answers tbl new)"
  using assms(1)
proof (induction tbl arbitrary: w)
  case Nil
  then show ?case by simp
next
  case (Cons e tbl)
  obtain i cb where e: "e = (i, cb)" by force
  let ?r = "make_response i code msg"
  obtain v where v: "remove_timer (recording env) i w = Some v"
    "drop_each (recording env) code msg tbl
       (v\<lparr>answered := answered v @ map (\<lambda>u. (u, ?r)) (case cb of None \<Rightarrow> [] | Some u \<Rightarrow> [u])\<rparr>) = Some w'"
    using Cons.prems by (auto simp: e bind_eq_Some_conv respond_recording)
  note r = remove_timer_local [OF v(1)]
  have a: "answered_by_client i ?r" using assms(2) by simp
  note ih = Cons.IH [OF v(2)]
  obtain new where new: "answered w' = answered v @ map (\<lambda>u. (u, ?r)) (case cb of None \<Rightarrow> [] | Some u \<Rightarrow> [u]) @ new"
    "local_answers tbl new" using ih by auto
  have "local_answers (e # tbl) (map (\<lambda>u. (u, ?r)) (case cb of None \<Rightarrow> [] | Some u \<Rightarrow> [u]) @ new)"
    using local_answers_mono [OF new(2), of "e # tbl"] a by (cases cb) (auto simp: e)
  then show ?case using ih r new(1) by (auto simp: conn_core_def)
qed

lemma drop_local:
  fixes w :: "('k, 'u, 'z) client_world_scheme"
  assumes "RpcClient_DropAllPending (recording env) code msg (w\<lparr>cli_stopped := st\<rparr>) = Some w'" and "code \<in> client_codes"
  shows "local_step w w'"
proof -
  have "drop_each (recording env) code msg (pending_calls w) (w\<lparr>cli_stopped := st, pending_calls := []\<rparr>) = Some w'"
    using assms(1) by (simp add: RpcClient_DropAllPending_def split: if_splits)
  from drop_each_local [OF this assms(2)] show ?thesis unfolding local_step_def by (simp add: conn_core_def)
qed

lemma local_step_refl: "local_step w w"
  by (simp add: local_step_def)

fun internal_op :: "'u client_op \<Rightarrow> bool" where
  "internal_op (Op_call i svc meth body cb t) = False"
| "internal_op (Op_response r) = False"
| "internal_op _ = True"

text \<open>Timeouts, errors, disconnection and \<open>Stop\<close>, on any thread.\<close>

lemma client_op_local:
  fixes w :: "('k, 'u, 'z) client_world_scheme"
  assumes "run_client_op env op w = Some w'" and "internal_op op"
  shows "local_step w w'"
proof (cases op)
  case (Op_timeout i)
  obtain cb tbl where tp: "take_pending i (pending_calls w) = (cb, tbl)" by force
  have "respond (recording env) cb (make_response i CLIENT_REQUEST_TIMEOUT (str ''request timeout'')) (w\<lparr>pending_calls := tbl\<rparr>) = Some w'"
    using assms(1) tp Op_timeout by (simp add: RpcClient_on_timeout_def)
  from settle_local [OF tp _ this] show ?thesis by simp
next
  case Op_connection
  then show ?thesis using assms(1) drop_local [where code = CLIENT_CONNECTION_DISCONNECTED and w = w and st = "cli_stopped w"] local_step_refl
    by (auto simp: RpcClient_onConnection_def split: if_splits)
next
  case (Op_error err)
  then show ?thesis using assms(1) drop_local [where code = CLIENT_NETWORK_ERROR and w = w and st = "cli_stopped w"] local_step_refl
    by (auto simp: RpcClient_onError_def split: if_splits)
next
  case Op_stop
  then show ?thesis using assms(1) drop_local [where code = CLIENT_NOT_RUNNING and w = w and st = True] local_step_refl
    by (auto split: if_splits)
next
  case (Op_link c)
  then show ?thesis using assms(1) by (auto simp: TcpClient_SetConnected_def local_step_def conn_core_def)
qed (use assms(2) in simp_all)

text \<open>A call with a fresh id, from any thread: either its frame leaves and its callback waits, or neither.\<close>

lemma AddTimer_view:
  fixes w :: "('k, 'u, 'z) client_world_scheme"
  assumes "EventLoop_AddTimer clock call self i cb t w = Some w'"
  shows "conn_core w' = conn_core w \<and> has_connection w' = has_connection w \<and> client_part w' = client_part w \<and>
    (\<exists>fs. pending w' = pending w @ fs \<and> sends fs = [] \<and> list_all (plain_functor parse) fs)"
proof -
  have "client_part w' = client_part w" by (rule AddTimer_part [OF assms])
  moreover have "(thread_id w = self \<and> (\<exists>tm. w' = w\<lparr>timer := tm\<rparr>)) \<or> w' = EventLoop_QueueInLoop (Fn_AddTimer i cb t) w"
    using assms by (auto simp: EventLoop_AddTimer_def EventLoop_RunInLoop_def EventLoop_IsInLoopThread_def run_functor_def split: if_splits)
  ultimately show ?thesis
    by (auto simp: conn_core_def plain_functor_def EventLoop_QueueInLoop_def queue_defs)
qed

lemma Send_view:
  fixes c :: "('k, 'u, 'z) client_world_scheme"
  assumes "TcpClient_Send sys junk j frame c = Some c'" and "open_in_loop self c" and "has_connection c" and "whole parse frame"
  shows "open_in_loop self c' \<and> has_connection c' \<and> client_part c' = client_part c \<and> in_view c' = in_view c \<and>
    emits parse c c' (msgs_of parse frame)"
proof -
  have "TcpConnection_send sys junk j frame c = Some c'" using assms(1,3) by (simp add: TcpClient_Send_def)
  then have v: "open_in_loop self c'" "in_view c' = in_view c" "emits parse c c' (msgs_of parse frame)"
    "send_frame c c' \<or> c' = EventLoop_QueueInLoop (Fn (CB_send frame)) (c\<lparr>refs := refs c + 1\<rparr>)"
    using send_view [OF assms(2,4), of sys junk j] by simp_all
  have "has_connection c' = has_connection c"
    using v(4) send_frame_field [of c c' has_connection] by (auto simp: send_erased_def EventLoop_QueueInLoop_def queue_defs)
  then show ?thesis using v Send_part [OF assms(1)] assms(3) by simp
qed

lemma call_view:
  fixes c :: "('k, 'u, 'z) client_world_scheme" and i svc meth body :: bytes
  defines "m \<equiv> RpcRequest_new\<lparr>rq_service_name := svc, rq_method_name := meth, rq_request_id := i, rq_body := body\<rparr>"
  assumes "RpcClient_CallRaw (recording (env\<lparr>c_self := j\<rparr>)) i svc meth body cb t c = Some (Call_returned, c')"
    and "open_in_loop self c" and "\<not> pending_locked c" and "has_connection c" and "i \<notin> fst ` set (pending_calls c)"
    and "codec_fits (c_ser env) parse"
  shows "open_in_loop self c' \<and> has_connection c' \<and> \<not> pending_locked c' \<and> in_view c' = in_view c \<and>
    (emits parse c c' {#m#} \<and> pending_calls c' = pending_calls c @ [(i, cb)] \<and> answered c' = answered c \<or>
     emits parse c c' {#} \<and> set (pending_calls c') \<subseteq> set (pending_calls c) \<and>
       (\<exists>new. answered c' = answered c @ new \<and> (\<forall>x \<in> set new. cb = Some (fst x) \<and> answered_by_client i (snd x))))"
proof (cases "cli_stopped c \<or> \<not> tc_connected c")
  case True
  let ?r = "make_response i CLIENT_NOT_RUNNING (str ''client stopped/disconnected'')"
  obtain u where u: "cb = Some u" and c': "c' = c\<lparr>answered := answered c @ [(u, ?r)]\<rparr>"
    using assms(2,4) True by (cases cb) (auto simp: RpcClient_CallRaw_def)
  have core: "conn_core c' = conn_core c" by (simp add: c' conn_core_def)
  have e: "emits parse c c' {#}" by (rule emits_none [OF core, of "[]"]) (simp_all add: c')
  show ?thesis using assms(3-5) conn_core_same [OF core] e u
    by (intro conjI disjI2) (simp_all add: c')
next
  case False
  let ?env = "recording (env\<lparr>c_self := j\<rparr>)"
  obtain v where v: "EventLoop_AddTimer (c_clock ?env) (client_call ?env) (c_self ?env)
      (timer_id ?env i) (CB_layer i) t (c\<lparr>pending_calls := AList.update i cb (pending_calls c)\<rparr>) = Some v"
    and rest: "(case Codec_encode (c_ser env) m of
       None \<Rightarrow> (let (cb, tbl) = take_pending i (pending_calls v)
                in Option.bind (remove_timer ?env i (v\<lparr>pending_calls := tbl\<rparr>))
                     (respond ?env cb (make_response i CLIENT_ENCODE_FAILED (str ''encode request failed''))))
     | Some encoded \<Rightarrow> TcpClient_Send (c_sys ?env) (c_junk ?env) (c_self ?env) encoded v) = Some c'"
    using assms(2,4) False by (auto simp: RpcClient_CallRaw_def Let_def bind_eq_Some_conv m_def)
  note av = AddTimer_view [OF v, of parse]
  then obtain fs0 where fs0: "pending v = pending c @ fs0" "sends fs0 = []" "list_all (plain_functor parse) fs0" by auto
  have core: "conn_core v = conn_core c" using av by (simp add: conn_core_def)
  note same = conn_core_same [OF core]
  have v': "has_connection v" "\<not> pending_locked v" "pending_calls v = pending_calls c @ [(i, cb)]" "answered v = answered c"
    using av assms(4-6) by (simp_all add: client_part_eqs update_absent)
  have ov: "open_in_loop self v" using assms(3) same(1) by simp
  have q0: "queued_msgs parse fs0 = {#}" using fs0(2) by (simp add: queued_msgs_def)
  show ?thesis
  proof (cases "Codec_encode (c_ser env) m")
    case None
    obtain cb' tbl where tp: "take_pending i (pending_calls v) = (cb', tbl)" by force
    have tbl: "cb' = cb" "tbl = pending_calls c"
    proof -
      have "map_of (pending_calls c) i = None" "AList.delete i (pending_calls c) = pending_calls c"
        using assms(6) by (simp_all add: map_of_eq_None_iff delete_id)
      moreover have "AList.delete i (pending_calls c @ [(i, cb)]) = AList.delete i (pending_calls c)" by (simp add: AList.delete_eq)
      ultimately show "cb' = cb" "tbl = pending_calls c" using tp by (simp_all add: v'(3) take_pending_spec map_add_def split: option.splits)
    qed
    let ?r = "make_response i CLIENT_ENCODE_FAILED (str ''encode request failed'')"
    obtain x where x: "remove_timer ?env i (v\<lparr>pending_calls := tbl\<rparr>) = Some x" "respond ?env cb' ?r x = Some c'"
      using rest None tp by (auto simp: bind_eq_Some_conv)
    note rl = remove_timer_local [OF x(1)]
    then obtain fs1 where fs1: "pending x = pending v @ fs1" "removals fs1" by auto
    have c': "c' = x\<lparr>answered := answered x @ map (\<lambda>u. (u, ?r)) (case cb of None \<Rightarrow> [] | Some u \<Rightarrow> [u])\<rparr>"
      using x(2) tbl(1) by (simp add: respond_recording)
    have core': "conn_core c' = conn_core c" using core rl by (simp add: c' conn_core_def)
    have e: "emits parse c c' {#}"
      by (rule emits_none [OF core', of "fs0 @ fs1"]) (use fs0 fs1 removals_sends [OF fs1(2), of parse] in \<open>simp_all add: c'\<close>)
    have other: "has_connection c'" "\<not> pending_locked c'" "pending_calls c' = pending_calls c"
      "answered c' = answered c @ map (\<lambda>u. (u, ?r)) (case cb of None \<Rightarrow> [] | Some u \<Rightarrow> [u])"
      using rl v' tbl by (simp_all add: c')
    have "answered_by_client i ?r" by simp
    then show ?thesis using assms(3) conn_core_same [OF core'] e other
      by (intro conjI disjI2) (simp_all split: option.splits)
  next
    case (Some frame)
    note w = frame_whole [OF assms(7) Some]
    have "TcpClient_Send (c_sys ?env) (c_junk ?env) (c_self ?env) frame v = Some c'" using rest Some by simp
    note sv = Send_view [OF this ov v'(1) conjunct1 [OF w]]
    then have "emits parse v c' {#m#}" using w by simp
    then obtain out fs where o: "promised c' = promised v @ out" "pending c' = pending v @ fs" "refs c' = refs v + length (sends fs)"
      "whole parse out" "list_all (plain_functor parse) fs" "msgs_of parse out + queued_msgs parse fs = {#m#}" "prefix (wire v) (wire c')"
      by (auto simp: emits_def)
    have "emits parse c c' {#m#}"
      using emitsI [of c' c out "fs0 @ fs" parse] o fs0 q0 same by simp
    then show ?thesis using sv same v' by (intro conjI disjI1) (simp_all add: client_part_eqs)
  qed
qed

lemma local_step_emits:
  fixes w :: "('k, 'u, 'z) client_world_scheme"
  assumes "local_step w w'" shows "emits parse w w' {#}"
proof -
  obtain fs where fs: "conn_core w' = conn_core w" "pending w' = pending w @ fs" "removals fs"
    using assms by (auto simp: local_step_def)
  show ?thesis by (rule emits_none [OF fs(1,2)]) (use removals_sends [OF fs(3), of parse] in simp_all)
qed

section \<open>The server's end\<close>

text \<open>Which of a list of requests are turned away, and with which answer; the others are queued.\<close>

fun turned_away :: "bool \<Rightarrow> rpc_request pool \<Rightarrow> rpc_request list \<Rightarrow> (rpc_request \<times> rpc_response) list" where
  "turned_away stopped p [] = []"
| "turned_away stopped p (m # ms) =
     (if stopped then (m, shutting_down_response m) # turned_away stopped p ms
      else if fst (ThreadPool_TryAddTask m p) then turned_away stopped (snd (ThreadPool_TryAddTask m p)) ms
      else (m, busy_response m) # turned_away stopped p ms)"

definition encodable :: "('m \<Rightarrow> bytes option) \<Rightarrow> 'm \<Rightarrow> bool" where
  "encodable ser m \<longleftrightarrow> Codec_encode ser m \<noteq> None"

lemma admit_all:
  "\<exists>p' q. fold (admit ser) ms (out, p, stopped) =
      (out @ concat (map (\<lambda>x. reply_bytes ser (snd x)) (turned_away stopped p ms)), p', stopped) \<and>
     tasks p' = tasks p @ q \<and> mset ms = mset q + mset (map fst (turned_away stopped p ms))"
proof (induction ms arbitrary: out p)
  case (Cons m ms)
  show ?case
  proof (cases "\<not> stopped \<and> fst (ThreadPool_TryAddTask m p)")
    case True
    let ?p = "snd (ThreadPool_TryAddTask m p)"
    have t: "tasks ?p = tasks p @ [m]" using True by (auto simp: ThreadPool_TryAddTask_def split: if_splits)
    obtain p' q where "fold (admit ser) ms (out, ?p, stopped) =
        (out @ concat (map (\<lambda>x. reply_bytes ser (snd x)) (turned_away stopped ?p ms)), p', stopped)"
      "tasks p' = tasks ?p @ q" "mset ms = mset q + mset (map fst (turned_away stopped ?p ms))"
      using Cons.IH [of out ?p] by blast
    moreover have "admit ser m (out, p, stopped) = (out, ?p, stopped)" using True by (simp add: admit_def)
    ultimately show ?thesis using True t by (intro exI [of _ p'] exI [of _ "m # q"]) simp
  next
    case False
    let ?r = "if stopped then shutting_down_response m else busy_response m"
    obtain p' q where "fold (admit ser) ms (out @ reply_bytes ser ?r, p, stopped) =
        ((out @ reply_bytes ser ?r) @ concat (map (\<lambda>x. reply_bytes ser (snd x)) (turned_away stopped p ms)), p', stopped)"
      "tasks p' = tasks p @ q" "mset ms = mset q + mset (map fst (turned_away stopped p ms))"
      using Cons.IH [of "out @ reply_bytes ser ?r" p] by blast
    moreover have "admit ser m (out, p, stopped) = (out @ reply_bytes ser ?r, p, stopped)" using False by (auto simp: admit_def)
    ultimately show ?thesis using False by (intro exI [of _ p'] exI [of _ q]) auto
  qed
qed simp

lemma replies_whole:
  assumes "codec_fits ser parse"
  shows "whole parse (concat (map (reply_bytes ser) rs)) \<and>
    msgs_of parse (concat (map (reply_bytes ser) rs)) = mset (filter (encodable ser) rs)"
proof (induction rs)
  case (Cons r rs)
  show ?case
  proof (cases "Codec_encode ser r")
    case None
    then show ?thesis using Cons by (simp add: reply_bytes_def encodable_def)
  next
    case (Some frame)
    note w = frame_whole [OF assms Some]
    show ?thesis using whole_append [OF conjunct1 [OF w] conjunct1 [OF Cons]] w Cons Some
      by (simp add: reply_bytes_def encodable_def)
  qed
qed simp

text \<open>The receive loop of the server again, with the wire, which only grows, and what a request leaves alone.\<close>

interpretation server_link: frame_reader "\<lambda>w. open_in_loop (e_self env) w \<and> prefix w0 (wire w)" in_view in_feed in_consume
  "e_parse env" "RpcServer_onMessage env" "RpcServer_handle_request env"
  "TcpConnection_close (e_sys env) (e_junk env) (e_cbs env) (e_self env)" "\<lambda>w. (server_rest w, (pending w, refs w))"
  "\<lambda>m s. (server_effect (e_ser env) m (fst s), snd s)"
  for env :: "('k, ('a, 'z) server_world_ext) rpc_env" and w0
proof unfold_locales
  fix w :: "('k, 'a, 'z) server_world_scheme" and m
  assume a: "open_in_loop (e_self env) w \<and> prefix w0 (wire w)"
  then have w: "open_in_loop (e_self env) w" by simp
  obtain w' where w': "RpcServer_handle_request env m w = Some w'" "open_in_loop (e_self env) w'"
    "in_view w' = in_view w" "server_rest w' = server_effect (e_ser env) m (server_rest w)"
    using handle_request_ok [OF w] by blast
  have sent: "pending v' = pending v \<and> refs v' = refs v \<and> prefix (wire v) (wire v')"
    if "encode_and_send env r v = Some v'" "open_in_loop (e_self env) v" for r and v v' :: "('k, 'a, 'z) server_world_scheme"
  proof (cases "Codec_encode (e_ser env) r")
    case (Some f)
    then have l: "TcpConnection_sendInLoop (e_sys env) (e_junk env) f v = Some v'"
      using that by (simp add: encode_and_send_def TcpConnection_send_def EventLoop_IsInLoopThread_def open_in_loop_def conn_ok_def)
    note fr = sendInLoop_frame [OF l]
    show ?thesis using sendInLoop_wire [OF l] send_frame_field [OF fr, of pending] send_frame_field [OF fr, of refs]
      by (simp add: send_erased_def)
  qed (use that in \<open>simp add: encode_and_send_def\<close>)
  have "pending w' = pending w \<and> refs w' = refs w \<and> prefix (wire w) (wire w')"
    using w'(1) sent [of _ w w'] sent [of _ "w\<lparr>srv_pool := snd (ThreadPool_TryAddTask m (srv_pool w))\<rparr>" w'] w
    by (auto simp: RpcServer_handle_request_def Let_def split: if_splits prod.splits)
  then show "\<exists>w'. RpcServer_handle_request env m w = Some w' \<and> (open_in_loop (e_self env) w' \<and> prefix w0 (wire w')) \<and>
      in_view w' = in_view w \<and> (server_rest w', pending w', refs w') =
        (server_effect (e_ser env) m (fst (server_rest w, pending w, refs w)), snd (server_rest w, pending w, refs w))"
    using w' a by (auto intro: prefix_order.trans)
qed (simp_all add: server_reader.loop_incomplete server_reader.loop_corrupted server_reader.loop_ok
    conn_input.inv_put [where self = "e_self env"] conn_input.view_put [where self = "e_self env"]
    conn_input.inv_drop_front [where self = "e_self env"] conn_input.view_drop_front [where self = "e_self env"],
    simp_all add: in_defs server_rest_def)

definition server_receives ::
  "('k, ('a, 'z) server_world_ext) rpc_env \<Rightarrow> bytes \<Rightarrow> ('k, 'a, 'z) server_world_scheme \<Rightarrow> ('k, 'a, 'z) server_world_scheme option" where
  "server_receives env chunk s =
     conn_event (e_sys env) (e_junk env) ((e_cbs env)\<lparr>messageCallback := Some (RpcServer_onMessage env)\<rparr>) EPOLLIN
       (s\<lparr>read_script := [Inr chunk]\<rparr>)"

lemma server_read:
  fixes s :: "('k, 'a, 'z) server_world_scheme"
  assumes "open_in_loop (e_self env) s" and "chunk \<noteq> []" and "whole (e_parse env) (in_view s @ chunk @ tail)"
    and "codec_fits (e_ser env) parse"
  defines "ms \<equiv> fst (split_frames (e_parse env) (in_view s @ chunk))"
  defines "away \<equiv> turned_away (srv_stopped s) (srv_pool s) ms"
  shows "\<exists>s' q. server_receives env chunk s = Some s' \<and> open_in_loop (e_self env) s' \<and>
    partial_frame (e_parse env) (in_view s') \<and> whole (e_parse env) (in_view s' @ tail) \<and>
    msgs_of (e_parse env) (in_view s @ chunk @ tail) = mset ms + msgs_of (e_parse env) (in_view s' @ tail) \<and>
    tasks (srv_pool s') = tasks (srv_pool s) @ q \<and> mset ms = mset q + mset (map fst away) \<and>
    emits parse s s' (mset (filter (encodable (e_ser env)) (map snd away))) \<and>
    pending s' = pending s \<and> service s' = service s \<and> app s' = app s"
proof -
  obtain r k where s: "split_frames (e_parse env) (in_view s @ chunk) = (ms, r, k)"
    by (cases "split_frames (e_parse env) (in_view s @ chunk)") (simp add: ms_def)
  note wr = whole_read [OF assms(3) s]
  obtain b where b: "open_in_loop (e_self env) (s\<lparr>read_script := [], in_buf := b, refs := refs s + 1\<rparr>)"
    "in_view (s\<lparr>read_script := [], in_buf := b, refs := refs s + 1\<rparr>) = in_view s @ chunk"
    "server_receives env chunk s =
       map_option release (RpcServer_onMessage env (s\<lparr>read_script := [], in_buf := b, refs := refs s + 1\<rparr>))"
    using read_event [OF assms(1,2)] by (simp add: Let_def server_receives_def) blast
  let ?f = "s\<lparr>read_script := [], in_buf := b, refs := refs s + 1\<rparr>"
  have f: "open_in_loop (e_self env) ?f \<and> prefix (wire s) (wire ?f)" using b(1) by simp
  have v: "split_frames (e_parse env) (in_view ?f) = (ms, r, k)" using s b(2) by simp
  obtain d where d: "open_in_loop (e_self env) d" "prefix (wire s) (wire d)" "in_view d = r" "RpcServer_onMessage env ?f = Some d"
    "server_rest d = fold (server_effect (e_ser env)) ms (server_rest ?f)" "pending d = pending s" "refs d = Suc (refs s)"
    using server_link.loop_split [OF f v] wr by (auto simp: fold_fst)
  have pos: "0 < refs s" using assms(1) by (simp add: open_in_loop_def conn_ok_def)
  have "server_rest ?f = server_rest s" by (simp add: server_rest_def promised_def)
  then have e: "server_rest d = (fold (admit (e_ser env)) ms (promised s, srv_pool s, srv_stopped s), (service s, app s))"
    using d(5) by (simp add: server_rest_def fold_server_effect)
  obtain p' q where q: "fold (admit (e_ser env)) ms (promised s, srv_pool s, srv_stopped s) =
      (promised s @ concat (map (reply_bytes (e_ser env)) (map snd away)), p', srv_stopped s)"
    "tasks p' = tasks (srv_pool s) @ q" "mset ms = mset q + mset (map fst away)"
    using admit_all [of "e_ser env" ms "promised s" "srv_pool s" "srv_stopped s"] by (auto simp: away_def comp_def)
  let ?d = "d\<lparr>refs := refs s\<rparr>"
  have fields: "promised ?d = promised s @ concat (map (reply_bytes (e_ser env)) (map snd away))" "srv_pool ?d = p'"
    "service ?d = service s" "app ?d = app s" "wire ?d = wire d" "pending ?d = pending s" "refs ?d = refs s" "in_view ?d = r"
    using e d(3,6) unfolding q(1) by (simp_all add: server_rest_def promised_def in_view_def)
  have "server_receives env chunk s = Some ?d" using b(3) d(4) release_back [OF pos d(7)] by simp
  moreover have "open_in_loop (e_self env) ?d" using d(1) pos by (simp add: open_in_loop_def conn_ok_def)
  moreover have "emits parse s ?d (mset (filter (encodable (e_ser env)) (map snd away)))"
    using emitsI [of ?d s _ "[]" parse, OF fields(1)] replies_whole [OF assms(4), of "map snd away"] fields(5-7) d(2) by simp
  ultimately show ?thesis using wr q(2,3) fields by (intro exI [of _ ?d] exI [of _ q]) simp
qed

lemma server_send_view:
  fixes s :: "('k, 'a, 'z) server_world_scheme"
  assumes "open_in_loop (e_self env) s" and "codec_fits (e_ser env) parse"
  shows "\<exists>s'. encode_and_send (env\<lparr>e_self := j\<rparr>) r s = Some s' \<and> open_in_loop (e_self env) s' \<and> in_view s' = in_view s \<and>
    emits parse s s' (if encodable (e_ser env) r then {#r#} else {#}) \<and>
    srv_pool s' = srv_pool s \<and> srv_stopped s' = srv_stopped s \<and> service s' = service s \<and> app s' = app s"
proof (cases "Codec_encode (e_ser env) r")
  case None
  then show ?thesis using assms(1) emits_none [of s s "[]" parse] by (simp add: encode_and_send_def encodable_def)
next
  case (Some f)
  note w = frame_whole [OF assms(2) Some]
  obtain s' where s': "TcpConnection_send (e_sys env) (e_junk env) j f s = Some s'" "open_in_loop (e_self env) s'"
    "in_view s' = in_view s" "emits parse s s' {#r#}"
    "send_frame s s' \<or> s' = EventLoop_QueueInLoop (Fn (CB_send f)) (s\<lparr>refs := refs s + 1\<rparr>)"
    using send_view [OF assms(1) conjunct1 [OF w], of "e_sys env" "e_junk env" j] w by auto
  have "srv_pool s' = srv_pool s \<and> srv_stopped s' = srv_stopped s \<and> service s' = service s \<and> app s' = app s"
    using s'(5) send_frame_field [of s s' srv_pool] send_frame_field [of s s' srv_stopped]
      send_frame_field [of s s' service] send_frame_field [of s s' app]
    by (auto simp: send_erased_def EventLoop_QueueInLoop_def queue_defs)
  then show ?thesis using s' Some by (simp add: encode_and_send_def encodable_def)
qed

text \<open>A pool task: the frame of the answer of the service is handed over, if there is one.\<close>

lemma server_task:
  fixes s :: "('k, 'a, 'z) server_world_scheme"
  assumes "open_in_loop (e_self env) s" and "k \<noteq> e_self env" and "codec_fits (e_ser env) parse"
    and "RpcService_Invoke (e_bad_call env) (service s) m RpcResponse_new (app s) = (result, r, a)"
  shows "\<exists>s'. RpcServer_task (env\<lparr>e_self := k\<rparr>) m s = Some s' \<and> open_in_loop (e_self env) s' \<and> in_view s' = in_view s \<and>
    emits parse s s' (if result \<noteq> Invoke_propagated \<and> encodable (e_ser env) r then {#r#} else {#}) \<and>
    srv_pool s' = srv_pool s \<and> srv_stopped s' = srv_stopped s \<and> service s' = service s \<and> app s' = a"
proof -
  have ok: "conn_ok s" "thread_id s = e_self env" using assms(1) by (simp_all add: open_in_loop_def)
  then have al: "alive s" by (auto simp: conn_ok_def alive_def)
  let ?v = "s\<lparr>refs := refs s + 1, app := a\<rparr>"
  have v: "open_in_loop (e_self env) ?v" using assms(1) by (simp add: open_in_loop_def conn_ok_def)
  show ?thesis
  proof (cases "result = Invoke_propagated")
    case True
    then have t: "RpcServer_task (env\<lparr>e_self := k\<rparr>) m s = Some (s\<lparr>app := a\<rparr>)"
      using al assms(4) ok by (simp add: RpcServer_task_def release_def conn_ok_def Let_def)
    have "conn_core (s\<lparr>app := a\<rparr>) = conn_core s" by (simp add: conn_core_def)
    note same = conn_core_same [OF this] and e = emits_none [OF this, of "[]" parse]
    show ?thesis using t same e True assms(1) by simp
  next
    case False
    then obtain b where b: "result = Invoke_returned b" by (cases result) simp_all
    obtain w where w: "encode_and_send (env\<lparr>e_self := k\<rparr>) r ?v = Some w" "open_in_loop (e_self env) w" "in_view w = in_view ?v"
      "emits parse ?v w (if encodable (e_ser env) r then {#r#} else {#})"
      "srv_pool w = srv_pool s" "srv_stopped w = srv_stopped s" "service w = service s" "app w = a"
      using server_send_view [OF v assms(3), of k r] by auto
    obtain out fs where o: "promised w = promised ?v @ out" "pending w = pending ?v @ fs" "refs w = refs ?v + length (sends fs)"
      "whole parse out" "list_all (plain_functor parse) fs" "prefix (wire ?v) (wire w)"
      "msgs_of parse out + queued_msgs parse fs = (if encodable (e_ser env) r then {#r#} else {#})"
      using w(4) by (auto simp: emits_def)
    have pv: "promised ?v = promised s" by (simp add: promised_def)
    have rel: "release w = w\<lparr>refs := refs s + length (sends fs)\<rparr>"
      using o(3) ok(1) by (simp add: release_def conn_ok_def Let_def)
    have t: "RpcServer_task (env\<lparr>e_self := k\<rparr>) m s = Some (release w)"
      using al assms(4) b w(1) by (simp add: RpcServer_task_def Let_def)
    have "promised (release w) = promised w" by (simp add: rel promised_def)
    then have "emits parse s (release w) (if encodable (e_ser env) r then {#r#} else {#})"
      using emitsI [of "release w" s out fs parse] o pv by (simp add: rel)
    moreover have "open_in_loop (e_self env) (release w)"
      using w(2) ok(1) by (auto simp: rel open_in_loop_def conn_ok_def)
    ultimately show ?thesis using t b w(3,5-8) by (simp add: rel in_view_def)
  qed
qed

end
