(* ===== verification/RpcSystem.thy ===== *)
theory RpcSystem
  imports SystemViews
begin

text \<open>
  A whole system: a client of \<open>RpcClientModel\<close> and a server of \<open>RpcServerModel\<close> with one connection between them,
  any number of calls from any threads, a pool of workers, and a network that delivers the bytes in order
  and in any pieces. Every step runs an operation of the two models. \<open>sys_inv\<close> is the invariant: each request is
  in one place on its way, and whatever is answered was asked. \<open>SystemProperties\<close> draws the conclusions.
\<close>

section \<open>State and steps\<close>

text \<open>
  \<open>srv_read\<close> and \<open>cli_read\<close> count the bytes that each end has read of the other's \<open>wire\<close>; \<open>taken\<close> are the tasks that
  workers have taken and not yet run. The rest is history: the calls made with their callbacks, the
  requests turned away and the invocations with what came of them.
\<close>

record ('k, 'u, 'l, 'a) rpc_system =
  cli :: "('k, 'u) client_world"
  srv :: "('l, 'a) server_world"
  srv_read :: nat
  cli_read :: nat
  taken :: "rpc_request multiset"
  calls_made :: "(rpc_request \<times> 'u option) list"
  refused :: "(rpc_request \<times> rpc_response) list"
  invoked :: "(rpc_request \<times> invoke_result \<times> rpc_response) list"

text \<open>
  The work of the two loops and of \<open>nw\<close> workers, once calls have been made. A loop runs the first functor that
  is queued, or handles an event of the connection's channel: writable, with room for \<open>n\<close> bytes, or readable, with the next
  bytes, at most as many as have arrived and \<open>readv\<close> has room for. A worker takes a task, and runs it.
\<close>

definition read_room :: "('k, 'z) conn_world_scheme \<Rightarrow> nat" where
  "read_room w = Buffer_WritableBytes (in_buf w) + Buffer_extrabuf_size"

inductive sys_work ::
  "nat \<Rightarrow> ('k, 'u, unit) client_env \<Rightarrow> ('l, ('a, unit) server_world_ext) rpc_env \<Rightarrow>
     ('k, 'u, 'l, 'a) rpc_system \<Rightarrow> ('k, 'u, 'l, 'a) rpc_system \<Rightarrow> bool"
  for nw cenv env where
  client_functor: "pending (cli s) = f # fs \<Longrightarrow>
     run_functor (c_clock cenv) (client_call cenv) f (cli s\<lparr>pending := fs\<rparr>) = Some c \<Longrightarrow>
     sys_work nw cenv env s (s\<lparr>cli := c\<rparr>)"
| client_write: "0 < n \<Longrightarrow> 0 < Buffer_ReadableBytes (out_buf (cli s)) \<Longrightarrow>
     conn_writes (c_sys cenv) (c_junk cenv) (c_cbs cenv) n (cli s) = Some c \<Longrightarrow>
     sys_work nw cenv env s (s\<lparr>cli := c\<rparr>)"
| server_read: "drop (srv_read s) (wire (cli s)) = chunk @ later \<Longrightarrow> chunk \<noteq> [] \<Longrightarrow>
     server_receives env chunk (srv s) = Some w \<Longrightarrow> length chunk \<le> read_room (srv s) \<Longrightarrow>
     sys_work nw cenv env s (s\<lparr>srv := w, srv_read := srv_read s + length chunk,
       refused := refused s @ turned_away (srv_stopped (srv s)) (srv_pool (srv s))
         (fst (split_frames (e_parse env) (in_view (srv s) @ chunk)))\<rparr>)"
| worker_takes: "size (taken s) < nw \<Longrightarrow> ThreadPool_worker_lock (srv_pool (srv s)) = Worker_runs m p \<Longrightarrow>
     sys_work nw cenv env s (s\<lparr>srv := srv s\<lparr>srv_pool := p\<rparr>, taken := add_mset m (taken s)\<rparr>)"
| worker_runs: "taken s = add_mset m T \<Longrightarrow> k \<noteq> e_self env \<Longrightarrow>
     RpcService_Invoke (e_bad_call env) (service (srv s)) m RpcResponse_new (app (srv s)) = (result, r, a) \<Longrightarrow>
     RpcServer_task (env\<lparr>e_self := k\<rparr>) m (srv s) = Some w \<Longrightarrow>
     sys_work nw cenv env s (s\<lparr>srv := w\<lparr>srv_pool := snd (ThreadPool_worker_done (srv_pool w))\<rparr>, taken := T,
       invoked := invoked s @ [(m, result, r)]\<rparr>)"
| server_functor: "pending (srv s) = f # fs \<Longrightarrow>
     run_functor clock (conn_call (e_sys env) (e_junk env) (e_cbs env)) f (srv s\<lparr>pending := fs\<rparr>) = Some w \<Longrightarrow>
     sys_work nw cenv env s (s\<lparr>srv := w\<rparr>)"
| server_write: "0 < n \<Longrightarrow> 0 < Buffer_ReadableBytes (out_buf (srv s)) \<Longrightarrow>
     conn_writes (e_sys env) (e_junk env) (e_cbs env) n (srv s) = Some w \<Longrightarrow>
     sys_work nw cenv env s (s\<lparr>srv := w\<rparr>)"
| client_read: "drop (cli_read s) (wire (srv s)) = chunk @ later \<Longrightarrow> chunk \<noteq> [] \<Longrightarrow>
     client_receives (recording cenv) chunk (cli s) = Some c \<Longrightarrow> length chunk \<le> read_room (cli s) \<Longrightarrow>
     sys_work nw cenv env s (s\<lparr>cli := c, cli_read := cli_read s + length chunk\<rparr>)"

text \<open>
  What the users and the world do: calls from any thread, under ids that were not used before, timeouts, errors
  and \<open>Stop\<close> at the client, and at the server the flag and the notice of \<open>Stop\<close>, and the destruction of the pool.
\<close>

inductive sys_user ::
  "('k, 'u, unit) client_env \<Rightarrow> ('l, ('a, unit) server_world_ext) rpc_env \<Rightarrow>
     ('k, 'u, 'l, 'a) rpc_system \<Rightarrow> ('k, 'u, 'l, 'a) rpc_system \<Rightarrow> bool"
  for cenv env where
  call: "i \<noteq> [] \<Longrightarrow> i \<notin> rq_request_id ` fst ` set (calls_made s) \<Longrightarrow>
     RpcClient_CallRaw (recording (cenv\<lparr>c_self := j\<rparr>)) i svc meth body cb t (cli s) = Some (Call_returned, c) \<Longrightarrow>
     sys_user cenv env s (s\<lparr>cli := c, calls_made := calls_made s @ [(RpcRequest_new\<lparr>rq_service_name := svc,
       rq_method_name := meth, rq_request_id := i, rq_body := body\<rparr>, cb)]\<rparr>)"
| client_event: "internal_op op \<Longrightarrow> run_client_op (cenv\<lparr>c_self := j\<rparr>) op (cli s) = Some c \<Longrightarrow>
     sys_user cenv env s (s\<lparr>cli := c\<rparr>)"
| server_stops: "sys_user cenv env s (s\<lparr>srv := srv s\<lparr>srv_stopped := True\<rparr>\<rparr>)"
| pool_closes: "sys_user cenv env s (s\<lparr>srv := srv s\<lparr>srv_pool := ThreadPool_close (srv_pool (srv s))\<rparr>\<rparr>)"
| server_notice: "encode_and_send (env\<lparr>e_self := j\<rparr>) goaway_response (srv s) = Some w \<Longrightarrow>
     sys_user cenv env s (s\<lparr>srv := w\<rparr>)"

definition sys_start :: "('k, 'u, unit) client_env \<Rightarrow> ('l, ('a, unit) server_world_ext) rpc_env \<Rightarrow> ('k, 'u, 'l, 'a) rpc_system \<Rightarrow> bool" where
  "sys_start cenv env s \<longleftrightarrow>
     open_in_loop (c_self cenv) (cli s) \<and> has_connection (cli s) \<and> \<not> pending_locked (cli s) \<and>
     in_view (cli s) = [] \<and> promised (cli s) = [] \<and> pending (cli s) = [] \<and> pending_calls (cli s) = [] \<and> answered (cli s) = [] \<and>
     open_in_loop (e_self env) (srv s) \<and> in_view (srv s) = [] \<and> promised (srv s) = [] \<and> pending (srv s) = [] \<and>
     tasks (srv_pool (srv s)) = [] \<and> srv_read s = 0 \<and> cli_read s = 0 \<and> taken s = {#} \<and>
     calls_made s = [] \<and> refused s = [] \<and> invoked s = []"

inductive sys_reachable ::
  "nat \<Rightarrow> ('k, 'u, unit) client_env \<Rightarrow> ('l, ('a, unit) server_world_ext) rpc_env \<Rightarrow> ('k, 'u, 'l, 'a) rpc_system \<Rightarrow> bool"
  for nw cenv env where
  start: "sys_start cenv env s \<Longrightarrow> sys_reachable nw cenv env s"
| work: "sys_reachable nw cenv env s \<Longrightarrow> sys_work nw cenv env s t \<Longrightarrow> sys_reachable nw cenv env t"
| user: "sys_reachable nw cenv env s \<Longrightarrow> sys_user cenv env s t \<Longrightarrow> sys_reachable nw cenv env t"

section \<open>One direction of the connection\<close>

text \<open>
  From the sender \<open>w\<close> to a reader that has read \<open>n\<close> bytes and holds \<open>v\<close>: what is unread is a stream of whole
  frames, and so is what waits in the sender's queue.
\<close>

definition link_ok :: "(bytes \<Rightarrow> 'm option) \<Rightarrow> nat \<Rightarrow> bytes \<Rightarrow> ('k, 'z) conn_world_scheme \<Rightarrow> bool" where
  "link_ok parse n v w \<longleftrightarrow> n \<le> length (wire w) \<and> partial_frame parse v \<and> whole parse (v @ drop n (promised w)) \<and>
     list_all (plain_functor parse) (pending w) \<and> length (sends (pending w)) < refs w"

definition in_link :: "(bytes \<Rightarrow> 'm option) \<Rightarrow> nat \<Rightarrow> bytes \<Rightarrow> ('k, 'z) conn_world_scheme \<Rightarrow> 'm multiset" where
  "in_link parse n v w = msgs_of parse (v @ drop n (promised w)) + queued_msgs parse (pending w)"

lemma emits_link:
  assumes "emits parse w w' M" and "link_ok parse n v w"
  shows "link_ok parse n v w' \<and> in_link parse n v w' = M + in_link parse n v w"
proof -
  obtain out fs where e: "promised w' = promised w @ out" "pending w' = pending w @ fs" "refs w' = refs w + length (sends fs)"
    "whole parse out" "list_all (plain_functor parse) fs" "msgs_of parse out + queued_msgs parse fs = M" "prefix (wire w) (wire w')"
    using assms(1) by (auto simp: emits_def)
  have n: "n \<le> length (promised w)" using assms(2) wire_le_promised [of w] by (simp add: link_ok_def)
  have d: "v @ drop n (promised w') = (v @ drop n (promised w)) @ out" using n by (simp add: e(1))
  have wh: "whole parse (v @ drop n (promised w))" using assms(2) by (simp add: link_ok_def)
  have "n \<le> length (wire w')" using assms(2) prefix_length_le [OF e(7)] by (simp add: link_ok_def)
  then show ?thesis using whole_append [OF wh e(4)] assms(2) e d
    by (auto simp: link_ok_def in_link_def union_ac simp del: append_assoc)
qed

lemma functor_link:
  assumes "conn_ok w" and "pending w = f # fs" and "link_ok parse n v w"
    and "run_functor clock (conn_call sys junk cbs) f (w\<lparr>pending := fs\<rparr>) = r"
  shows "\<exists>w'. r = Some w' \<and> conn_ok w' \<and> thread_id w' = thread_id w \<and> pending w' = fs \<and> in_view w' = in_view w \<and>
    link_ok parse n v w' \<and> in_link parse n v w' = in_link parse n v w \<and>
    (send_frame (w\<lparr>pending := fs, refs := refs w - 1\<rparr>) w' \<or> (\<exists>tm. w' = w\<lparr>pending := fs, timer := tm\<rparr>))"
proof -
  have l: "plain_functor parse f" "length (sends (pending w)) < refs w" "whole parse (v @ drop n (promised w))" "n \<le> length (wire w)"
    "partial_frame parse v" "list_all (plain_functor parse) fs"
    using assms(2,3) by (simp_all add: link_ok_def)
  obtain w' out where w': "r = Some w'" "conn_ok w'" "thread_id w' = thread_id w" "pending w' = fs" "length (sends fs) < refs w'"
    "prefix (wire w) (wire w')" "in_view w' = in_view w" "promised w' = promised w @ out" "whole parse out"
    "msgs_of parse out + queued_msgs parse fs = queued_msgs parse (pending w)"
    "send_frame (w\<lparr>pending := fs, refs := refs w - 1\<rparr>) w' \<or> (\<exists>tm. w' = w\<lparr>pending := fs, timer := tm\<rparr>)"
    using functor_runs [OF assms(1,2) l(1,2) assms(4)] by blast
  have n: "n \<le> length (promised w)" using l(4) wire_le_promised [of w] by simp
  have d: "v @ drop n (promised w') = (v @ drop n (promised w)) @ out" using n by (simp add: w'(8))
  have "n \<le> length (wire w')" using l(4) prefix_length_le [OF w'(6)] by simp
  then show ?thesis using whole_append [OF l(3) w'(9)] w' l d
    by (auto simp: link_ok_def in_link_def union_ac simp del: append_assoc)
qed

lemma write_link:
  assumes "send_frame w w'" and "promised w' = promised w" and "prefix (wire w) (wire w')" and "link_ok parse n v w"
  shows "link_ok parse n v w' \<and> in_link parse n v w' = in_link parse n v w"
proof -
  have "pending w' = pending w" "refs w' = refs w"
    using send_frame_field [OF assms(1), of pending] send_frame_field [OF assms(1), of refs] by (simp_all add: send_erased_def)
  then show ?thesis using assms prefix_length_le [OF assms(3)] by (auto simp: link_ok_def in_link_def)
qed

text \<open>A read takes the messages \<open>ms\<close> off the link.\<close>

lemma read_chunk:
  assumes "drop n (wire w) = chunk @ later"
  shows "drop n (promised w) = chunk @ drop (n + length chunk) (promised w) \<and> n + length chunk \<le> length (wire w) \<or> chunk = []"
proof -
  have l: "length (wire w) - n = length chunk + length later" using arg_cong [OF assms, of length] by simp
  show ?thesis
  proof (cases "n \<le> length (wire w)")
    case True
    have "drop n (promised w) = chunk @ (later @ Buffer_PeekStringView (out_buf w))"
      using assms True by (simp add: promised_def)
    moreover from this have "drop (n + length chunk) (promised w) = later @ Buffer_PeekStringView (out_buf w)"
      by (metis append_eq_conv_conj drop_drop add.commute)
    moreover have "n + length chunk \<le> length (wire w)" using l True by arith
    ultimately show ?thesis by simp
  qed (use l in simp)
qed

lemma read_link:
  assumes "link_ok parse n v w" and "n + length chunk \<le> length (wire w)"
    and "drop n (promised w) = chunk @ drop (n + length chunk) (promised w)"
    and "partial_frame parse v'" and "whole parse (v' @ drop (n + length chunk) (promised w))"
    and "msgs_of parse (v @ drop n (promised w)) = mset ms + msgs_of parse (v' @ drop (n + length chunk) (promised w))"
  shows "link_ok parse (n + length chunk) v' w \<and> in_link parse n v w = mset ms + in_link parse (n + length chunk) v' w"
  using assms by (auto simp: link_ok_def in_link_def)

section \<open>The invariant\<close>

text \<open>Requests that no worker has run and nobody has refused, answers that the client has not read, and what was answered.\<close>

definition unserved where
  "unserved env s = in_link (e_parse env) (srv_read s) (in_view (srv s)) (cli s) + mset (tasks (srv_pool (srv s))) + taken s"

definition coming where
  "coming cenv s = in_link (c_parse cenv) (cli_read s) (in_view (cli s)) (srv s)"

definition replies :: "('k, 'u, 'l, 'a) rpc_system \<Rightarrow> (rpc_request \<times> rpc_response) set" where
  "replies s = set (refused s) \<union> {(m, r). \<exists>b. (m, Invoke_returned b, r) \<in> set (invoked s)}"

text \<open>Requests whose answer never left: the handler threw past \<open>Invoke\<close>, or the answer could not be encoded.\<close>

definition silent :: "('l, ('a, unit) server_world_ext) rpc_env \<Rightarrow> ('k, 'u, 'l, 'a) rpc_system \<Rightarrow> rpc_request set" where
  "silent env s = {m. \<exists>result r. (m, result, r) \<in> set (invoked s) \<and> (result = Invoke_propagated \<or> \<not> encodable (e_ser env) r)} \<union>
     {m. \<exists>r. (m, r) \<in> set (refused s) \<and> \<not> encodable (e_ser env) r}"

definition ends_ok where
  "ends_ok cenv env s \<longleftrightarrow>
     open_in_loop (c_self cenv) (cli s) \<and> has_connection (cli s) \<and> \<not> pending_locked (cli s) \<and>
     open_in_loop (e_self env) (srv s) \<and>
     link_ok (e_parse env) (srv_read s) (in_view (srv s)) (cli s) \<and>
     link_ok (c_parse cenv) (cli_read s) (in_view (cli s)) (srv s)"

definition requests_ok where
  "requests_ok env s \<longleftrightarrow>
     unserved env s + mset (map fst (invoked s)) + mset (map fst (refused s)) \<subseteq># mset (map fst (calls_made s)) \<and>
     distinct (map (rq_request_id \<circ> fst) (calls_made s)) \<and> [] \<notin> rq_request_id ` fst ` set (calls_made s)"

definition replies_ok where
  "replies_ok cenv s \<longleftrightarrow> (\<forall>(m, r) \<in> replies s. rs_request_id r = rq_request_id m) \<and>
     (\<forall>r \<in># coming cenv s. r = goaway_response \<or> (\<exists>m. (m, r) \<in> replies s)) \<and>
     (\<forall>(m, r) \<in> set (refused s). r \<in> {shutting_down_response m, busy_response m})"

definition table_ok where
  "table_ok cenv env s \<longleftrightarrow> (\<forall>(i, cb) \<in> set (pending_calls (cli s)). \<exists>m. (m, cb) \<in> set (calls_made s) \<and> rq_request_id m = i \<and>
     (m \<in># unserved env s \<or> i \<in> rs_request_id ` set_mset (coming cenv s) \<or> m \<in> silent env s))"

definition right_answer :: "('k, 'u, 'l, 'a) rpc_system \<Rightarrow> rpc_request \<Rightarrow> rpc_response \<Rightarrow> bool" where
  "right_answer s m r \<longleftrightarrow> answered_by_client (rq_request_id m) r \<or> (m, r) \<in> replies s"

definition answers_ok where
  "answers_ok s \<longleftrightarrow> (\<forall>(u, r) \<in> set (answered (cli s)). \<exists>m. (m, Some u) \<in> set (calls_made s) \<and> right_answer s m r)"

definition invoked_ok where
  "invoked_ok env s \<longleftrightarrow> (\<forall>(m, result, r) \<in> set (invoked s). \<exists>a a'.
     RpcService_Invoke (e_bad_call env) (service (srv s)) m RpcResponse_new a = (result, r, a'))"

definition users_made :: "('k, 'u, 'l, 'a) rpc_system \<Rightarrow> 'u multiset" where
  "users_made s = sum_list (map (users_of \<circ> snd) (calls_made s))"

definition sys_inv where
  "sys_inv cenv env s \<longleftrightarrow> ends_ok cenv env s \<and> requests_ok env s \<and> replies_ok cenv s \<and> table_ok cenv env s \<and> answers_ok s \<and>
     call_inv (call_abs (users_made s) (cli s)) \<and> invoked_ok env s"

lemma made_unique:
  assumes "requests_ok env s" and "(m, cb) \<in> set (calls_made s)" and "(m', cb') \<in> set (calls_made s)"
    and "rq_request_id m = rq_request_id m'"
  shows "m = m' \<and> cb = cb'"
proof -
  have "inj_on (rq_request_id \<circ> fst) (set (calls_made s))" using assms(1) by (simp add: requests_ok_def distinct_map)
  from inj_onD [OF this, of "(m, cb)" "(m', cb')"] show ?thesis using assms(2-4) by simp
qed

text \<open>A turn of the client's loop that moves no message across the ends, and one of the server's.\<close>

lemma call_abs_part: "client_part c' = client_part c \<Longrightarrow> call_abs I c' = call_abs I c"
  by (simp add: call_abs_def client_part_eqs)

lemma client_turn:
  assumes "sys_inv cenv env s"
    and "open_in_loop (c_self cenv) c" and "has_connection c = has_connection (cli s)" and "client_part c = client_part (cli s)"
    and "in_view c = in_view (cli s)"
    and "link_ok (e_parse env) (srv_read s) (in_view (srv s)) c \<and>
      in_link (e_parse env) (srv_read s) (in_view (srv s)) c = in_link (e_parse env) (srv_read s) (in_view (srv s)) (cli s)"
  shows "sys_inv cenv env (s\<lparr>cli := c\<rparr>)"
proof -
  let ?t = "s\<lparr>cli := c\<rparr>"
  have u: "unserved env ?t = unserved env s" using assms(6) by (simp add: unserved_def)
  have r: "coming cenv ?t = coming cenv s" using assms(5) by (simp add: coming_def)
  have h: "replies ?t = replies s" "silent env ?t = silent env s" "users_made ?t = users_made s" "right_answer ?t = right_answer s"
    by (simp_all add: replies_def silent_def users_made_def right_answer_def fun_eq_iff)
  have p: "pending_calls c = pending_calls (cli s)" "answered c = answered (cli s)" "pending_locked c = pending_locked (cli s)"
    using assms(4) by (simp_all add: client_part_eqs)
  note inv = assms(1) [unfolded sys_inv_def]
  have "ends_ok cenv env ?t" using inv assms(2,3,5,6) p(3) by (simp add: ends_ok_def)
  moreover have "requests_ok env ?t" using inv by (simp add: requests_ok_def u)
  moreover have "replies_ok cenv ?t" using inv by (simp add: replies_ok_def r h)
  moreover have "table_ok cenv env ?t" using inv by (simp add: table_ok_def u r h p)
  moreover have "answers_ok ?t" using inv by (simp add: answers_ok_def h p)
  moreover have "call_inv (call_abs (users_made ?t) (cli ?t))" using inv by (simp add: h call_abs_part [OF assms(4)])
  moreover have "invoked_ok env ?t" using inv by (simp add: invoked_ok_def)
  ultimately show ?thesis by (simp add: sys_inv_def)
qed

lemma server_turn:
  assumes "sys_inv cenv env s"
    and "open_in_loop (e_self env) w" and "in_view w = in_view (srv s)" and "tasks (srv_pool w) = tasks (srv_pool (srv s))"
    and "link_ok (c_parse cenv) (cli_read s) (in_view (cli s)) w \<and>
      in_link (c_parse cenv) (cli_read s) (in_view (cli s)) w = M + in_link (c_parse cenv) (cli_read s) (in_view (cli s)) (srv s)"
    and "set_mset M \<subseteq> {goaway_response}" and "service w = service (srv s)"
  shows "sys_inv cenv env (s\<lparr>srv := w\<rparr>)"
proof -
  let ?t = "s\<lparr>srv := w\<rparr>"
  have u: "unserved env ?t = unserved env s" using assms(3,4) by (simp add: unserved_def)
  have r: "coming cenv ?t = M + coming cenv s" using assms(5) by (simp add: coming_def)
  have h: "replies ?t = replies s" "silent env ?t = silent env s" "users_made ?t = users_made s" "right_answer ?t = right_answer s"
    by (simp_all add: replies_def silent_def users_made_def right_answer_def fun_eq_iff)
  have ro: "replies_ok cenv ?t" using assms(1,6) by (auto simp: sys_inv_def replies_ok_def h r)
  note inv = assms(1) [unfolded sys_inv_def]
  have "ends_ok cenv env ?t" using inv assms(2,3,5) by (simp add: ends_ok_def)
  moreover have "requests_ok env ?t" using inv by (simp add: requests_ok_def u)
  moreover have "table_ok cenv env ?t" using inv unfolding table_ok_def u h r by (fastforce simp: image_Un)
  moreover have "answers_ok ?t" using inv by (simp add: answers_ok_def h)
  moreover have "call_inv (call_abs (users_made ?t) (cli ?t))" using inv by (simp add: h)
  moreover have "invoked_ok env ?t" using inv assms(7) by (simp add: invoked_ok_def)
  ultimately show ?thesis using ro by (simp add: sys_inv_def)
qed

lemma client_functor_inv:
  assumes "sys_inv cenv env s" and "pending (cli s) = f # fs"
    and "run_functor (c_clock cenv) (client_call cenv) f (cli s\<lparr>pending := fs\<rparr>) = r"
  shows "\<exists>c. r = Some c \<and> pending c = fs \<and> sys_inv cenv env (s\<lparr>cli := c\<rparr>)"
proof -
  have e: "open_in_loop (c_self cenv) (cli s)" "link_ok (e_parse env) (srv_read s) (in_view (srv s)) (cli s)"
    using assms(1) by (simp_all add: sys_inv_def ends_ok_def)
  have ok: "conn_ok (cli s)" "thread_id (cli s) = c_self cenv" using e(1) by (simp_all add: open_in_loop_def)
  obtain c where c: "r = Some c" "conn_ok c" "thread_id c = thread_id (cli s)" "pending c = fs" "in_view c = in_view (cli s)"
    "link_ok (e_parse env) (srv_read s) (in_view (srv s)) c"
    "in_link (e_parse env) (srv_read s) (in_view (srv s)) c = in_link (e_parse env) (srv_read s) (in_view (srv s)) (cli s)"
    "send_frame (cli s\<lparr>pending := fs, refs := refs (cli s) - 1\<rparr>) c \<or> (\<exists>tm. c = cli s\<lparr>pending := fs, timer := tm\<rparr>)"
    using functor_link [OF ok(1) assms(2) e(2) assms(3) [unfolded client_call_def]] by blast
  have "client_part c = client_part (cli s)" "has_connection c = has_connection (cli s)"
    using c(8) send_frame_field [of "cli s\<lparr>pending := fs, refs := refs (cli s) - 1\<rparr>" c client_part]
      send_frame_field [of "cli s\<lparr>pending := fs, refs := refs (cli s) - 1\<rparr>" c has_connection]
    by (auto simp: send_erased_def client_part_def)
  then show ?thesis using client_turn [OF assms(1), of c] c ok(2) by (simp add: open_in_loop_def)
qed

lemma client_write_inv:
  assumes "sys_inv cenv env s" and "0 < n" and "0 < Buffer_ReadableBytes (out_buf (cli s))"
    and "conn_writes (c_sys cenv) (c_junk cenv) (c_cbs cenv) n (cli s) = r"
  shows "\<exists>c. r = Some c \<and> pending c = pending (cli s) \<and> promised c = promised (cli s) \<and>
    length (wire (cli s)) < length (wire c) \<and> sys_inv cenv env (s\<lparr>cli := c\<rparr>)"
proof -
  have e: "open_in_loop (c_self cenv) (cli s)" "link_ok (e_parse env) (srv_read s) (in_view (srv s)) (cli s)"
    using assms(1) by (simp_all add: sys_inv_def ends_ok_def)
  have ok: "conn_ok (cli s)" "thread_id (cli s) = c_self cenv" using e(1) by (simp_all add: open_in_loop_def)
  obtain c where c: "r = Some c" "conn_ok c" "promised c = promised (cli s)" "thread_id c = thread_id (cli s)"
    "send_frame (cli s) c" "prefix (wire (cli s)) (wire c)" "length (wire (cli s)) < length (wire c)"
    using conn_writes_progress [OF ok(1) assms(2,3), of "c_sys cenv" "c_junk cenv" "c_cbs cenv"] assms(4) by auto
  note fr = send_frame_field [OF c(5)]
  have "client_part c = client_part (cli s)" "has_connection c = has_connection (cli s)" "in_view c = in_view (cli s)"
    "pending c = pending (cli s)"
    using fr [of client_part] fr [of has_connection] fr [of in_view] fr [of pending]
    by (simp_all add: send_erased_def client_part_def in_view_def)
  then show ?thesis using client_turn [OF assms(1), of c] c ok(2) write_link [OF c(5,3,6) e(2)]
    by (simp add: open_in_loop_def)
qed

lemma server_functor_inv:
  assumes "sys_inv cenv env s" and "pending (srv s) = f # fs"
    and "run_functor clock (conn_call (e_sys env) (e_junk env) (e_cbs env)) f (srv s\<lparr>pending := fs\<rparr>) = r"
  shows "\<exists>w. r = Some w \<and> pending w = fs \<and> tasks (srv_pool w) = tasks (srv_pool (srv s)) \<and>
    service w = service (srv s) \<and> sys_inv cenv env (s\<lparr>srv := w\<rparr>)"
proof -
  have e: "open_in_loop (e_self env) (srv s)" "link_ok (c_parse cenv) (cli_read s) (in_view (cli s)) (srv s)"
    using assms(1) by (simp_all add: sys_inv_def ends_ok_def)
  have ok: "conn_ok (srv s)" "thread_id (srv s) = e_self env" using e(1) by (simp_all add: open_in_loop_def)
  obtain c where c: "r = Some c" "conn_ok c" "thread_id c = thread_id (srv s)" "pending c = fs" "in_view c = in_view (srv s)"
    "link_ok (c_parse cenv) (cli_read s) (in_view (cli s)) c"
    "in_link (c_parse cenv) (cli_read s) (in_view (cli s)) c = in_link (c_parse cenv) (cli_read s) (in_view (cli s)) (srv s)"
    "send_frame (srv s\<lparr>pending := fs, refs := refs (srv s) - 1\<rparr>) c \<or> (\<exists>tm. c = srv s\<lparr>pending := fs, timer := tm\<rparr>)"
    using functor_link [OF ok(1) assms(2) e(2) assms(3)] by blast
  have "srv_pool c = srv_pool (srv s)" "service c = service (srv s)"
    using c(8) send_frame_field [of "srv s\<lparr>pending := fs, refs := refs (srv s) - 1\<rparr>" c srv_pool]
      send_frame_field [of "srv s\<lparr>pending := fs, refs := refs (srv s) - 1\<rparr>" c service]
    by (auto simp: send_erased_def)
  then show ?thesis using server_turn [OF assms(1), of c "{#}"] c ok(2) by (simp add: open_in_loop_def)
qed

lemma server_write_inv:
  assumes "sys_inv cenv env s" and "0 < n" and "0 < Buffer_ReadableBytes (out_buf (srv s))"
    and "conn_writes (e_sys env) (e_junk env) (e_cbs env) n (srv s) = r"
  shows "\<exists>w. r = Some w \<and> pending w = pending (srv s) \<and> promised w = promised (srv s) \<and> tasks (srv_pool w) = tasks (srv_pool (srv s)) \<and>
    length (wire (srv s)) < length (wire w) \<and> service w = service (srv s) \<and> sys_inv cenv env (s\<lparr>srv := w\<rparr>)"
proof -
  have e: "open_in_loop (e_self env) (srv s)" "link_ok (c_parse cenv) (cli_read s) (in_view (cli s)) (srv s)"
    using assms(1) by (simp_all add: sys_inv_def ends_ok_def)
  have ok: "conn_ok (srv s)" "thread_id (srv s) = e_self env" using e(1) by (simp_all add: open_in_loop_def)
  obtain c where c: "r = Some c" "conn_ok c" "promised c = promised (srv s)" "thread_id c = thread_id (srv s)"
    "send_frame (srv s) c" "prefix (wire (srv s)) (wire c)" "length (wire (srv s)) < length (wire c)"
    using conn_writes_progress [OF ok(1) assms(2,3), of "e_sys env" "e_junk env" "e_cbs env"] assms(4) by auto
  note fr = send_frame_field [OF c(5)]
  have "srv_pool c = srv_pool (srv s)" "in_view c = in_view (srv s)" "pending c = pending (srv s)" "service c = service (srv s)"
    using fr [of srv_pool] fr [of in_view] fr [of pending] fr [of service] by (simp_all add: send_erased_def in_view_def)
  then show ?thesis using server_turn [OF assms(1), of c "{#}"] c ok(2) write_link [OF c(5,3,6) e(2)]
    by (simp add: open_in_loop_def)
qed

text \<open>The server reads: every request is queued or refused.\<close>

lemma shutting_down_id [simp]: "rs_request_id (shutting_down_response m) = rq_request_id m"
  by (simp add: shutting_down_response_def)

lemma busy_id [simp]: "rs_request_id (busy_response m) = rq_request_id m"
  by (simp add: busy_response_def)

lemma goaway_id [simp]: "rs_request_id goaway_response = []"
  by (simp add: goaway_response_def RpcResponse_new_def)

lemma turned_away_replies: "(m, r) \<in> set (turned_away st p ms) \<Longrightarrow> r \<in> {shutting_down_response m, busy_response m}"
  by (induction st p ms rule: turned_away.induct) (auto split: if_splits)

lemma server_read_inv:
  fixes s :: "('k, 'u, 'l, 'a) rpc_system"
  assumes "sys_inv cenv env s" and "codec_fits (e_ser env) (c_parse cenv)"
    and "drop (srv_read s) (wire (cli s)) = chunk @ later" and "chunk \<noteq> []"
    and "server_receives env chunk (srv s) = x"
  defines "away \<equiv> turned_away (srv_stopped (srv s)) (srv_pool (srv s)) (fst (split_frames (e_parse env) (in_view (srv s) @ chunk)))"
  shows "\<exists>w. x = Some w \<and> service w = service (srv s) \<and> sys_inv cenv env (s\<lparr>srv := w, srv_read := srv_read s + length chunk, refused := refused s @ away\<rparr>)"
proof -
  note inv = assms(1) [unfolded sys_inv_def]
  have e: "open_in_loop (e_self env) (srv s)" "link_ok (e_parse env) (srv_read s) (in_view (srv s)) (cli s)"
    "link_ok (c_parse cenv) (cli_read s) (in_view (cli s)) (srv s)"
    using inv by (simp_all add: ends_ok_def)
  have rc: "drop (srv_read s) (promised (cli s)) = chunk @ drop (srv_read s + length chunk) (promised (cli s))"
    "srv_read s + length chunk \<le> length (wire (cli s))" using read_chunk [OF assms(3)] assms(4) by simp_all
  let ?tail = "drop (srv_read s + length chunk) (promised (cli s))"
  let ?ms = "fst (split_frames (e_parse env) (in_view (srv s) @ chunk))"
  have wh: "whole (e_parse env) (in_view (srv s) @ chunk @ ?tail)" using e(2) rc(1) by (simp add: link_ok_def)
  obtain w q where w: "x = Some w" "open_in_loop (e_self env) w" "partial_frame (e_parse env) (in_view w)"
    "whole (e_parse env) (in_view w @ ?tail)"
    "msgs_of (e_parse env) (in_view (srv s) @ chunk @ ?tail) = mset ?ms + msgs_of (e_parse env) (in_view w @ ?tail)"
    "tasks (srv_pool w) = tasks (srv_pool (srv s)) @ q" "mset ?ms = mset q + mset (map fst away)"
    "emits (c_parse cenv) (srv s) w (mset (filter (encodable (e_ser env)) (map snd away)))" "service w = service (srv s)"
    using SystemViews.server_read [OF e(1) assms(4) wh assms(2)] assms(5) unfolding away_def by auto
  let ?t = "s\<lparr>srv := w, srv_read := srv_read s + length chunk, refused := refused s @ away\<rparr>"
  have l1: "link_ok (e_parse env) (srv_read ?t) (in_view w) (cli s)"
    "in_link (e_parse env) (srv_read s) (in_view (srv s)) (cli s) = mset ?ms + in_link (e_parse env) (srv_read ?t) (in_view w) (cli s)"
    using read_link [OF e(2) rc(2,1) w(3,4)] w(5) rc(1) by simp_all
  have l2: "link_ok (c_parse cenv) (cli_read s) (in_view (cli s)) w"
    "coming cenv ?t = mset (filter (encodable (e_ser env)) (map snd away)) + coming cenv s"
    using emits_link [OF w(8) e(3)] by (simp_all add: coming_def)
  have u: "unserved env s = mset (map fst away) + unserved env ?t"
    using l1(2) w(6,7) by (simp add: unserved_def union_ac)
  have h: "replies ?t = replies s \<union> set away" "users_made ?t = users_made s"
    "silent env ?t = silent env s \<union> {m. \<exists>r. (m, r) \<in> set away \<and> \<not> encodable (e_ser env) r}"
    by (auto simp: replies_def silent_def users_made_def)
  have aw: "(m, r) \<in> set away \<Longrightarrow> r \<in> {shutting_down_response m, busy_response m}" for m r
    unfolding away_def by (rule turned_away_replies)
  then have ids: "(m, r) \<in> set away \<Longrightarrow> rs_request_id r = rq_request_id m" for m r by fastforce
  have "ends_ok cenv env ?t" using inv w(2) l1(1) l2(1) by (simp add: ends_ok_def)
  moreover have "requests_ok env ?t" using inv u by (simp add: requests_ok_def union_ac)
  moreover have "replies_ok cenv ?t"
  proof -
    have "\<forall>(m, r) \<in> set (refused ?t). r \<in> {shutting_down_response m, busy_response m}"
      using inv aw unfolding replies_ok_def by fastforce
    moreover have "\<forall>(m, r) \<in> replies ?t. rs_request_id r = rq_request_id m"
      using inv ids unfolding replies_ok_def h by fastforce
    moreover have "\<forall>r \<in># coming cenv ?t. r = goaway_response \<or> (\<exists>m. (m, r) \<in> replies ?t)"
      using inv unfolding replies_ok_def l2(2) h by force
    ultimately show ?thesis unfolding replies_ok_def by blast
  qed
  moreover have "table_ok cenv env ?t"
    unfolding table_ok_def
  proof clarify
    fix i cb assume "(i, cb) \<in> set (pending_calls (cli ?t))"
    then obtain m where m: "(m, cb) \<in> set (calls_made s)" "rq_request_id m = i"
      "m \<in># unserved env s \<or> i \<in> rs_request_id ` set_mset (coming cenv s) \<or> m \<in> silent env s"
      using inv unfolding table_ok_def by fastforce
    have "m \<in># unserved env ?t \<or> i \<in> rs_request_id ` set_mset (coming cenv ?t) \<or> m \<in> silent env ?t"
    proof (cases "m \<in> fst ` set away")
      case True
      then obtain r where r: "(m, r) \<in> set away" by auto
      then show ?thesis using ids [OF r] m(2) unfolding l2(2) h(3)
        by (cases "encodable (e_ser env) r") (force intro!: image_eqI [of _ _ r])+
    next
      case False
      then show ?thesis using m(3) unfolding u l2(2) h(3) by auto
    qed
    then show "\<exists>m. (m, cb) \<in> set (calls_made ?t) \<and> rq_request_id m = i \<and>
      (m \<in># unserved env ?t \<or> i \<in> rs_request_id ` set_mset (coming cenv ?t) \<or> m \<in> silent env ?t)" using m(1,2) by auto
  qed
  moreover have "answers_ok ?t" using inv unfolding answers_ok_def right_answer_def h by fastforce
  moreover have "call_inv (call_abs (users_made ?t) (cli ?t))" using inv by (simp add: h)
  moreover have "invoked_ok env ?t" using inv w(9) by (simp add: invoked_ok_def)
  ultimately show ?thesis using w(1,9) by (auto simp: sys_inv_def)
qed

lemma worker_takes_inv:
  assumes "sys_inv cenv env s" and "ThreadPool_worker_lock (srv_pool (srv s)) = Worker_runs m p"
  shows "sys_inv cenv env (s\<lparr>srv := srv s\<lparr>srv_pool := p\<rparr>, taken := add_mset m (taken s)\<rparr>)"
proof -
  let ?t = "s\<lparr>srv := srv s\<lparr>srv_pool := p\<rparr>, taken := add_mset m (taken s)\<rparr>"
  note inv = assms(1) [unfolded sys_inv_def]
  have t: "tasks (srv_pool (srv s)) = m # tasks p"
    using assms(2) by (auto simp: ThreadPool_worker_lock_def split: if_splits list.splits)
  have v: "in_view (srv ?t) = in_view (srv s)" "promised (srv ?t) = promised (srv s)" by (simp_all add: in_view_def)
  have u: "unserved env ?t = unserved env s" using t v by (simp add: unserved_def)
  have l: "link_ok (c_parse cenv) n x (srv ?t) = link_ok (c_parse cenv) n x (srv s)"
    "in_link (c_parse cenv) n x (srv ?t) = in_link (c_parse cenv) n x (srv s)" for n x
    by (simp_all add: link_ok_def in_link_def)
  have r: "coming cenv ?t = coming cenv s" using l by (simp add: coming_def)
  have h: "replies ?t = replies s" "silent env ?t = silent env s" "users_made ?t = users_made s" "right_answer ?t = right_answer s"
    by (simp_all add: replies_def silent_def users_made_def right_answer_def fun_eq_iff)
  have "ends_ok cenv env ?t" using inv l v by (simp add: ends_ok_def)
  moreover have "requests_ok env ?t" using inv by (simp add: requests_ok_def u)
  moreover have "replies_ok cenv ?t" using inv by (simp add: replies_ok_def r h)
  moreover have "table_ok cenv env ?t" using inv by (simp add: table_ok_def u r h)
  moreover have "answers_ok ?t" using inv by (simp add: answers_ok_def h)
  moreover have "call_inv (call_abs (users_made ?t) (cli ?t))" using inv by (simp add: h)
  moreover have "invoked_ok env ?t" using inv by (simp add: invoked_ok_def)
  ultimately show ?thesis by (simp add: sys_inv_def)
qed

lemma worker_runs_inv:
  fixes s :: "('k, 'u, 'l, 'a) rpc_system"
  assumes "sys_inv cenv env s" and "codec_fits (e_ser env) (c_parse cenv)"
    and "taken s = add_mset m T" and "k \<noteq> e_self env"
    and "RpcService_Invoke (e_bad_call env) (service (srv s)) m RpcResponse_new (app (srv s)) = (result, r, a)"
    and "RpcServer_task (env\<lparr>e_self := k\<rparr>) m (srv s) = x"
  shows "\<exists>w. x = Some w \<and> srv_pool w = srv_pool (srv s) \<and> service w = service (srv s) \<and>
    sys_inv cenv env (s\<lparr>srv := w\<lparr>srv_pool := snd (ThreadPool_worker_done (srv_pool w))\<rparr>, taken := T,
    invoked := invoked s @ [(m, result, r)]\<rparr>)"
proof -
  note inv = assms(1) [unfolded sys_inv_def]
  have e: "open_in_loop (e_self env) (srv s)" "link_ok (c_parse cenv) (cli_read s) (in_view (cli s)) (srv s)"
    using inv by (simp_all add: ends_ok_def)
  let ?M = "if result \<noteq> Invoke_propagated \<and> encodable (e_ser env) r then {#r#} else {#}"
  obtain w where w: "x = Some w" "open_in_loop (e_self env) w" "in_view w = in_view (srv s)"
    "emits (c_parse cenv) (srv s) w ?M" "srv_pool w = srv_pool (srv s)" "service w = service (srv s)"
    using server_task [OF e(1) assms(4,2,5)] assms(6) by auto
  let ?w = "w\<lparr>srv_pool := snd (ThreadPool_worker_done (srv_pool w))\<rparr>"
  let ?t = "s\<lparr>srv := ?w, taken := T, invoked := invoked s @ [(m, result, r)]\<rparr>"
  have l0: "link_ok (c_parse cenv) n v ?w = link_ok (c_parse cenv) n v w"
    "in_link (c_parse cenv) n v ?w = in_link (c_parse cenv) n v w" for n v by (simp_all add: link_ok_def in_link_def)
  have l: "link_ok (c_parse cenv) (cli_read s) (in_view (cli s)) ?w" "coming cenv ?t = ?M + coming cenv s"
    using emits_link [OF w(4) e(2)] l0 by (simp_all add: coming_def)
  have v: "in_view ?w = in_view (srv s)" "tasks (srv_pool ?w) = tasks (srv_pool (srv s))"
    using w(3,5) by (simp_all add: in_view_def ThreadPool_worker_done_def Let_def)
  have u: "unserved env s = add_mset m (unserved env ?t)" using v assms(3) by (simp add: unserved_def)
  have h: "replies ?t = replies s \<union> {(m, r) |b. result = Invoke_returned b}" "users_made ?t = users_made s"
    "silent env ?t = silent env s \<union> (if result = Invoke_propagated \<or> \<not> encodable (e_ser env) r then {m} else {})"
    by (auto simp: replies_def silent_def users_made_def)
  have id: "rs_request_id r = rq_request_id m" if "result = Invoke_returned b" for b
    by (rule Invoke_request_id [OF assms(5) [unfolded that]])
  have ret: "result \<noteq> Invoke_propagated \<Longrightarrow> \<exists>b. result = Invoke_returned b" by (cases result) simp_all
  have "ends_ok cenv env ?t" using inv w(2) l(1) v by (simp add: ends_ok_def)
  moreover have "requests_ok env ?t" using inv u by (simp add: requests_ok_def)
  moreover have "replies_ok cenv ?t" using inv id ret unfolding replies_ok_def l(2) h by (auto split: if_splits)
  moreover have "table_ok cenv env ?t"
    unfolding table_ok_def
  proof clarify
    fix i cb assume "(i, cb) \<in> set (pending_calls (cli ?t))"
    then obtain m' where m': "(m', cb) \<in> set (calls_made s)" "rq_request_id m' = i"
      "m' \<in># unserved env s \<or> i \<in> rs_request_id ` set_mset (coming cenv s) \<or> m' \<in> silent env s"
      using inv unfolding table_ok_def by fastforce
    have "m' \<in># unserved env ?t \<or> i \<in> rs_request_id ` set_mset (coming cenv ?t) \<or> m' \<in> silent env ?t"
      using m'(2,3) id ret unfolding u l(2) h(3)
      by (cases "m' = m"; cases "result = Invoke_propagated") (auto simp del: split_paired_Ex)
    then show "\<exists>m. (m, cb) \<in> set (calls_made ?t) \<and> rq_request_id m = i \<and>
      (m \<in># unserved env ?t \<or> i \<in> rs_request_id ` set_mset (coming cenv ?t) \<or> m \<in> silent env ?t)" using m'(1,2) by auto
  qed
  moreover have "answers_ok ?t" using inv unfolding answers_ok_def right_answer_def h by fastforce
  moreover have "call_inv (call_abs (users_made ?t) (cli ?t))" using inv by (simp add: h)
  moreover have "invoked_ok env ?t" using inv assms(5) w(6) by (auto simp: invoked_ok_def)
  ultimately show ?thesis using w(1,5,6) by (auto simp: sys_inv_def)
qed

text \<open>The client reads: who is answered was waiting under the id of a message that arrived.\<close>

lemma fold_client:
  "\<exists>new. fold client_effect ms (tbl, ans) = (filter (\<lambda>e. fst e \<notin> rs_request_id ` set ms) tbl, ans @ new) \<and>
     (\<forall>x \<in> set new. (rs_request_id (snd x), Some (fst x)) \<in> set tbl \<and> snd x \<in> set ms)"
proof (induction ms arbitrary: tbl ans)
  case (Cons m ms)
  let ?i = "rs_request_id m"
  let ?one = "case map_of tbl ?i of Some (Some u) \<Rightarrow> [(u, m)] | _ \<Rightarrow> []"
  have st: "client_effect m (tbl, ans) = (AList.delete ?i tbl, ans @ ?one)" by (simp add: client_effect_def)
  have del: "AList.delete ?i tbl = filter (\<lambda>e. fst e \<noteq> ?i) tbl" by (auto simp: AList.delete_eq intro!: filter_cong)
  obtain new where new: "fold client_effect ms (AList.delete ?i tbl, ans @ ?one) =
      (filter (\<lambda>e. fst e \<notin> rs_request_id ` set ms) (AList.delete ?i tbl), (ans @ ?one) @ new)"
    "\<forall>x \<in> set new. (rs_request_id (snd x), Some (fst x)) \<in> set (AList.delete ?i tbl) \<and> snd x \<in> set ms"
    using Cons.IH [of "AList.delete ?i tbl" "ans @ ?one"] by blast
  have one: "\<forall>x \<in> set ?one. (rs_request_id (snd x), Some (fst x)) \<in> set tbl \<and> snd x = m"
    by (auto dest: map_of_SomeD map_of_SomeD [OF sym] split: option.splits)
  have "filter (\<lambda>e. fst e \<notin> rs_request_id ` set ms) (AList.delete ?i tbl) = filter (\<lambda>e. fst e \<notin> rs_request_id ` set (m # ms)) tbl"
    unfolding del by (simp add: conj_commute)
  then show ?case using new one del by (intro exI [of _ "?one @ new"]) (auto simp: st)
qed simp

lemma fold_client_inv:
  assumes "distinct (map fst tbl)" and "I = image_mset fst (mset ans) + waiting_users tbl"
    and "fold client_effect ms (tbl, ans) = (tbl', ans')"
  shows "distinct (map fst tbl') \<and> I = image_mset fst (mset ans') + waiting_users tbl'"
  using assms
proof (induction ms arbitrary: tbl ans)
  case (Cons m ms)
  let ?i = "rs_request_id m"
  let ?one = "case map_of tbl ?i of Some (Some u) \<Rightarrow> [(u, m)] | _ \<Rightarrow> []"
  have "client_effect m (tbl, ans) = (AList.delete ?i tbl, ans @ ?one)" by (simp add: client_effect_def)
  then have st: "fold client_effect ms (AList.delete ?i tbl, ans @ ?one) = (tbl', ans')"
    using Cons.prems(3) by simp
  have w: "waiting_users tbl = image_mset fst (mset ?one) + waiting_users (AList.delete ?i tbl)"
  proof (cases "map_of tbl ?i")
    case None
    then have "AList.delete ?i tbl = tbl" by (simp add: delete_id map_of_eq_None_iff)
    then show ?thesis using None by simp
  next
    case (Some cb)
    then show ?thesis using waiting_delete [OF Cons.prems(1) Some] by (simp split: option.splits)
  qed
  show ?case
    by (rule Cons.IH [OF _ _ st]) (use Cons.prems(1,2) w in \<open>simp_all add: distinct_delete union_ac\<close>)
qed simp

lemma client_read_inv:
  fixes s :: "('k, 'u, 'l, 'a) rpc_system"
  assumes "sys_inv cenv env s" and "drop (cli_read s) (wire (srv s)) = chunk @ later" and "chunk \<noteq> []"
    and "client_receives (recording cenv) chunk (cli s) = x"
  shows "\<exists>c. x = Some c \<and> pending c = pending (cli s) \<and> promised c = promised (cli s) \<and> wire c = wire (cli s) \<and>
    sys_inv cenv env (s\<lparr>cli := c, cli_read := cli_read s + length chunk\<rparr>)"
proof -
  note inv = assms(1) [unfolded sys_inv_def]
  have e: "open_in_loop (c_self cenv) (cli s)" "link_ok (e_parse env) (srv_read s) (in_view (srv s)) (cli s)"
    "link_ok (c_parse cenv) (cli_read s) (in_view (cli s)) (srv s)"
    using inv by (simp_all add: ends_ok_def)
  have rc: "drop (cli_read s) (promised (srv s)) = chunk @ drop (cli_read s + length chunk) (promised (srv s))"
    "cli_read s + length chunk \<le> length (wire (srv s))" using read_chunk [OF assms(2)] assms(3) by simp_all
  let ?tail = "drop (cli_read s + length chunk) (promised (srv s))"
  define ms where "ms = fst (split_frames (c_parse cenv) (in_view (cli s) @ chunk))"
  have wh: "whole (c_parse cenv) (in_view (cli s) @ chunk @ ?tail)" using e(3) rc(1) by (simp add: link_ok_def)
  obtain c where c: "x = Some c" "open_in_loop (c_self cenv) c" "partial_frame (c_parse cenv) (in_view c)"
    "whole (c_parse cenv) (in_view c @ ?tail)"
    "msgs_of (c_parse cenv) (in_view (cli s) @ chunk @ ?tail) = mset ms + msgs_of (c_parse cenv) (in_view c @ ?tail)"
    "client_rest c = fold client_effect ms (client_rest (cli s))" "client_still c = client_still (cli s)"
    using SystemViews.client_read [OF e(1) assms(3) wh] assms(4) unfolding ms_def by auto
  let ?t = "s\<lparr>cli := c, cli_read := cli_read s + length chunk\<rparr>"
  have st: "promised c = promised (cli s)" "wire c = wire (cli s)" "pending c = pending (cli s)" "refs c = refs (cli s)"
    "has_connection c = has_connection (cli s)" "cli_stopped c = cli_stopped (cli s)" "pending_locked c = pending_locked (cli s)"
    using c(7) by (simp_all add: client_still_def)
  have l1: "link_ok (e_parse env) (srv_read s) (in_view (srv s)) c"
    "in_link (e_parse env) (srv_read s) (in_view (srv s)) c = in_link (e_parse env) (srv_read s) (in_view (srv s)) (cli s)"
    using e(2) st by (simp_all add: link_ok_def in_link_def)
  have l2: "link_ok (c_parse cenv) (cli_read ?t) (in_view c) (srv s)" "coming cenv s = mset ms + coming cenv ?t"
    using read_link [OF e(3) rc(2,1) c(3,4)] c(5) rc(1) by (simp_all add: coming_def)
  have u: "unserved env ?t = unserved env s" using l1(2) by (simp add: unserved_def)
  have h: "replies ?t = replies s" "silent env ?t = silent env s" "users_made ?t = users_made s" "right_answer ?t = right_answer s"
    by (simp_all add: replies_def silent_def users_made_def right_answer_def fun_eq_iff)
  obtain new where new: "pending_calls c = filter (\<lambda>e. fst e \<notin> rs_request_id ` set ms) (pending_calls (cli s))"
    "answered c = answered (cli s) @ new"
    "\<forall>x \<in> set new. (rs_request_id (snd x), Some (fst x)) \<in> set (pending_calls (cli s)) \<and> snd x \<in> set ms"
    using fold_client [of ms "pending_calls (cli s)" "answered (cli s)"] c(6) by (auto simp: client_rest_def)
  have rep: "m' = m" if "(m', r) \<in> replies s" "(m, cb) \<in> set (calls_made s)" "rq_request_id m = rs_request_id r" for m m' r cb
  proof -
    have "rq_request_id m' = rq_request_id m" using inv that(1,3) by (auto simp: replies_ok_def)
    moreover have "m' \<in># unserved env s + mset (map fst (invoked s)) + mset (map fst (refused s))"
      using that(1) by (force simp: replies_def)
    then have "m' \<in># mset (map fst (calls_made s))" using inv unfolding requests_ok_def by (blast dest: mset_subset_eqD)
    then obtain cb' where "(m', cb') \<in> set (calls_made s)" by auto
    ultimately show ?thesis using made_unique [of env s m' cb' m cb] that(2) inv by blast
  qed
  have "ends_ok cenv env ?t" using inv c(2) st l1(1) l2(1) by (simp add: ends_ok_def)
  moreover have "requests_ok env ?t" using inv by (simp add: requests_ok_def u)
  moreover have "replies_ok cenv ?t" using inv unfolding replies_ok_def l2(2) h by auto
  moreover have "table_ok cenv env ?t" using inv unfolding table_ok_def u l2(2) h by (fastforce simp: new(1))
  moreover have "answers_ok ?t"
    unfolding answers_ok_def h
  proof clarify
    fix v r assume "(v, r) \<in> set (answered (cli ?t))"
    then consider "(v, r) \<in> set (answered (cli s))" | "(rs_request_id r, Some v) \<in> set (pending_calls (cli s))" "r \<in> set ms"
      using new(2,3) by auto
    then show "\<exists>m. (m, Some v) \<in> set (calls_made ?t) \<and> right_answer s m r"
    proof cases
      case 1
      then show ?thesis using inv unfolding answers_ok_def by auto
    next
      case 2
      obtain m where m: "(m, Some v) \<in> set (calls_made s)" "rq_request_id m = rs_request_id r"
        using inv 2(1) unfolding table_ok_def by fastforce
      have "r \<in># coming cenv s" using 2(2) by (simp add: l2(2))
      moreover have "r \<noteq> goaway_response" using inv m unfolding requests_ok_def by force
      ultimately obtain m' where m': "(m', r) \<in> replies s" using inv unfolding replies_ok_def by auto
      have "m' = m" by (rule rep [OF m' m])
      then show ?thesis using m(1) m' by (auto simp: right_answer_def)
    qed
  qed
  moreover have "call_inv (call_abs (users_made ?t) (cli ?t))"
  proof -
    have "fold client_effect ms (pending_calls (cli s), answered (cli s)) = (pending_calls c, answered c)"
      using c(6) by (simp add: client_rest_def)
    from fold_client_inv [OF _ _ this, of "users_made s"] inv st(6) show ?thesis
      by (simp add: call_inv_def call_abs_def h new(1))
  qed
  moreover have "invoked_ok env ?t" using inv by (simp add: invoked_ok_def)
  ultimately show ?thesis using c(1) st by (auto simp: sys_inv_def)
qed

text \<open>The users' steps.\<close>

lemma call_steps_inv: "call_step\<^sup>*\<^sup>* s t \<Longrightarrow> call_inv s \<Longrightarrow> call_inv t"
  by (induction rule: rtranclp_induct) (auto intro: call_step_inv)

lemma call_inv_user:
  fixes s :: "('k, 'u, 'l, 'a) rpc_system" and i svc meth body :: bytes
  assumes "sys_inv cenv env s" and "codec_fits (c_ser cenv) (e_parse env)"
    and "i \<noteq> []" and "i \<notin> rq_request_id ` fst ` set (calls_made s)"
    and "RpcClient_CallRaw (recording (cenv\<lparr>c_self := j\<rparr>)) i svc meth body cb t (cli s) = Some (Call_returned, c)"
  defines "m \<equiv> RpcRequest_new\<lparr>rq_service_name := svc, rq_method_name := meth, rq_request_id := i, rq_body := body\<rparr>"
  shows "sys_inv cenv env (s\<lparr>cli := c, calls_made := calls_made s @ [(m, cb)]\<rparr>)"
proof -
  let ?t = "s\<lparr>cli := c, calls_made := calls_made s @ [(m, cb)]\<rparr>"
  note inv = assms(1) [unfolded sys_inv_def]
  have e: "open_in_loop (c_self cenv) (cli s)" "\<not> pending_locked (cli s)" "has_connection (cli s)"
    "link_ok (e_parse env) (srv_read s) (in_view (srv s)) (cli s)"
    using inv by (simp_all add: ends_ok_def)
  have fresh: "i \<notin> fst ` set (pending_calls (cli s))"
    using inv assms(4) unfolding table_ok_def by force
  have id: "rq_request_id m = i" by (simp add: m_def)
  have c: "open_in_loop (c_self cenv) c" "has_connection c" "\<not> pending_locked c" "in_view c = in_view (cli s)"
    and cases: "emits (e_parse env) (cli s) c {#m#} \<and> pending_calls c = pending_calls (cli s) @ [(i, cb)] \<and> answered c = answered (cli s) \<or>
     emits (e_parse env) (cli s) c {#} \<and> set (pending_calls c) \<subseteq> set (pending_calls (cli s)) \<and>
       (\<exists>new. answered c = answered (cli s) @ new \<and> (\<forall>x \<in> set new. cb = Some (fst x) \<and> answered_by_client i (snd x)))"
    using call_view [OF assms(5) e(1-3) fresh assms(2)] unfolding m_def by blast+
  have r: "coming cenv ?t = coming cenv s" using c(4) by (simp add: coming_def)
  have h: "replies ?t = replies s" "silent env ?t = silent env s" "users_made ?t = users_of cb + users_made s"
    "right_answer ?t = right_answer s"
    by (simp_all add: replies_def silent_def users_made_def right_answer_def fun_eq_iff)
  obtain M where M: "emits (e_parse env) (cli s) c M" "M \<subseteq># {#m#}"
    "(i, cb) \<in> set (pending_calls c) \<Longrightarrow> (i, cb) \<notin> set (pending_calls (cli s)) \<Longrightarrow> M = {#m#}"
    "set (pending_calls c) \<subseteq> insert (i, cb) (set (pending_calls (cli s)))"
  proof (cases "emits (e_parse env) (cli s) c {#m#} \<and> pending_calls c = pending_calls (cli s) @ [(i, cb)]")
    case True
    then show ?thesis using that [of "{#m#}"] by simp
  next
    case False
    then have "emits (e_parse env) (cli s) c {#}" "set (pending_calls c) \<subseteq> set (pending_calls (cli s))" using cases by blast+
    then show ?thesis using that [of "{#}"] by auto
  qed
  have l: "link_ok (e_parse env) (srv_read s) (in_view (srv s)) c" "unserved env ?t = M + unserved env s"
    using emits_link [OF M(1) e(4)] by (simp_all add: unserved_def)
  have "ends_ok cenv env ?t" using inv c l(1) by (simp add: ends_ok_def)
  moreover have "requests_ok env ?t"
  proof -
    have "unserved env s + mset (map fst (invoked s)) + mset (map fst (refused s)) \<subseteq># mset (map fst (calls_made s))"
      using inv by (simp add: requests_ok_def)
    from subset_mset.add_mono [OF M(2) this]
    have "unserved env ?t + mset (map fst (invoked ?t)) + mset (map fst (refused ?t)) \<subseteq># mset (map fst (calls_made ?t))"
      by (simp add: l(2) union_ac)
    then show ?thesis using inv assms(3,4) id by (auto simp: requests_ok_def image_image)
  qed
  moreover have "replies_ok cenv ?t" using inv by (simp add: replies_ok_def r h)
  moreover have "table_ok cenv env ?t"
    unfolding table_ok_def
  proof clarify
    fix i' cb' assume a: "(i', cb') \<in> set (pending_calls (cli ?t))"
    show "\<exists>m. (m, cb') \<in> set (calls_made ?t) \<and> rq_request_id m = i' \<and>
      (m \<in># unserved env ?t \<or> i' \<in> rs_request_id ` set_mset (coming cenv ?t) \<or> m \<in> silent env ?t)"
    proof (cases "(i', cb') \<in> set (pending_calls (cli s))")
      case True
      then show ?thesis using inv unfolding table_ok_def l(2) r h by fastforce
    next
      case False
      then have "i' = i" "cb' = cb" "M = {#m#}" using a M(3,4) by auto
      then show ?thesis using id by (auto simp: l(2))
    qed
  qed
  moreover have "answers_ok ?t"
    unfolding answers_ok_def h
  proof clarify
    fix v r assume "(v, r) \<in> set (answered (cli ?t))"
    then consider "(v, r) \<in> set (answered (cli s))" | "cb = Some v" "answered_by_client i r" using cases by fastforce
    then show "\<exists>m. (m, Some v) \<in> set (calls_made ?t) \<and> right_answer s m r"
    proof cases
      case 1
      then show ?thesis using inv unfolding answers_ok_def by auto
    next
      case 2
      then show ?thesis using id by (auto simp: right_answer_def)
    qed
  qed
  moreover have "call_inv (call_abs (users_made ?t) (cli ?t))"
    using call_steps_inv [OF conjunct1 [OF call_refines [OF assms(5) e(2) fresh]], of "users_made s"] inv by (simp add: h)
  moreover have "invoked_ok env ?t" using inv by (simp add: invoked_ok_def)
  ultimately show ?thesis by (simp add: sys_inv_def)
qed

lemma client_event_inv:
  assumes "sys_inv cenv env s" and "internal_op op" and "run_client_op (cenv\<lparr>c_self := j\<rparr>) op (cli s) = Some c"
  shows "sys_inv cenv env (s\<lparr>cli := c\<rparr>)"
proof -
  let ?t = "s\<lparr>cli := c\<rparr>"
  note inv = assms(1) [unfolded sys_inv_def]
  note ls = client_op_local [OF assms(3,2)]
  obtain new where new: "set (pending_calls c) \<subseteq> set (pending_calls (cli s))" "answered c = answered (cli s) @ new"
    "local_answers (pending_calls (cli s)) new" "has_connection c = has_connection (cli s)" "pending_locked c = pending_locked (cli s)"
    and core: "conn_core c = conn_core (cli s)"
    using ls by (auto simp: local_step_def)
  note same = conn_core_same [OF core]
  have l: "link_ok (e_parse env) (srv_read s) (in_view (srv s)) c" "unserved env ?t = unserved env s"
    using emits_link [OF local_step_emits [OF ls], of "e_parse env" "srv_read s" "in_view (srv s)"] inv
    by (simp_all add: unserved_def ends_ok_def)
  have r: "coming cenv ?t = coming cenv s" using same(3) by (simp add: coming_def)
  have h: "replies ?t = replies s" "silent env ?t = silent env s" "users_made ?t = users_made s" "right_answer ?t = right_answer s"
    by (simp_all add: replies_def silent_def users_made_def right_answer_def fun_eq_iff)
  have "op_users op = {#}" "op_fresh op (cli s)" using assms(2) by (cases op; simp)+
  then have cs: "call_step\<^sup>*\<^sup>* (call_abs (users_made s) (cli s)) (call_abs (users_made s) c)"
    using client_op_refines [OF assms(3), of "users_made s"] inv by (simp add: ends_ok_def)
  have "ends_ok cenv env ?t" using inv same l(1) new(4,5) by (simp add: ends_ok_def)
  moreover have "requests_ok env ?t" using inv by (simp add: requests_ok_def l(2))
  moreover have "replies_ok cenv ?t" using inv by (simp add: replies_ok_def r h)
  moreover have "table_ok cenv env ?t" using inv new(1) unfolding table_ok_def l(2) r h by fastforce
  moreover have "answers_ok ?t"
    unfolding answers_ok_def h
  proof clarify
    fix v r assume "(v, r) \<in> set (answered (cli ?t))"
    then consider "(v, r) \<in> set (answered (cli s))" | i where "(i, Some v) \<in> set (pending_calls (cli s))" "answered_by_client i r"
      using new(2,3) by (auto simp: local_answers_def)
    then show "\<exists>m. (m, Some v) \<in> set (calls_made ?t) \<and> right_answer s m r"
    proof cases
      case 1
      then show ?thesis using inv unfolding answers_ok_def by auto
    next
      case 2
      then show ?thesis using inv unfolding table_ok_def right_answer_def by fastforce
    qed
  qed
  moreover have "call_inv (call_abs (users_made ?t) (cli ?t))" using call_steps_inv [OF cs] inv by (simp add: h)
  moreover have "invoked_ok env ?t" using inv by (simp add: invoked_ok_def)
  ultimately show ?thesis by (simp add: sys_inv_def)
qed

lemma server_notice_inv:
  assumes "sys_inv cenv env s" and "codec_fits (e_ser env) (c_parse cenv)"
    and "encode_and_send (env\<lparr>e_self := j\<rparr>) goaway_response (srv s) = Some w"
  shows "sys_inv cenv env (s\<lparr>srv := w\<rparr>)"
proof -
  have e: "open_in_loop (e_self env) (srv s)" "link_ok (c_parse cenv) (cli_read s) (in_view (cli s)) (srv s)"
    using assms(1) by (simp_all add: sys_inv_def ends_ok_def)
  have w: "open_in_loop (e_self env) w" "in_view w = in_view (srv s)" "srv_pool w = srv_pool (srv s)" "service w = service (srv s)"
    "emits (c_parse cenv) (srv s) w (if encodable (e_ser env) goaway_response then {#goaway_response#} else {#})"
    using server_send_view [OF e(1) assms(2), of j goaway_response] assms(3) by auto
  show ?thesis by (rule server_turn [OF assms(1) w(1,2) _ emits_link [OF w(5) e(2)]]) (use w(3,4) in auto)
qed

lemma server_flag_inv:
  assumes "sys_inv cenv env s" and "w = srv s\<lparr>srv_stopped := True\<rparr> \<or> w = srv s\<lparr>srv_pool := ThreadPool_close (srv_pool (srv s))\<rparr>"
  shows "sys_inv cenv env (s\<lparr>srv := w\<rparr>)"
proof (rule server_turn [OF assms(1)])
  have o: "open_in_loop (e_self env) (srv s)" "link_ok (c_parse cenv) (cli_read s) (in_view (cli s)) (srv s)"
    using assms(1) by (simp_all add: sys_inv_def ends_ok_def)
  show "open_in_loop (e_self env) w" using o(1) assms(2) by (auto simp: open_in_loop_def conn_ok_def)
  show "in_view w = in_view (srv s)" "tasks (srv_pool w) = tasks (srv_pool (srv s))"
    using assms(2) by (auto simp: in_view_def ThreadPool_close_def)
  show "link_ok (c_parse cenv) (cli_read s) (in_view (cli s)) w \<and>
    in_link (c_parse cenv) (cli_read s) (in_view (cli s)) w = {#} + in_link (c_parse cenv) (cli_read s) (in_view (cli s)) (srv s)"
    using o(2) assms(2) by (auto simp: link_ok_def in_link_def promised_def)
  show "service w = service (srv s)" using assms(2) by auto
qed simp

lemma sys_start_inv:
  assumes "sys_start cenv env s" shows "sys_inv cenv env s"
proof -
  have w: "wire (cli s) = []" "wire (srv s) = []" "0 < refs (cli s)" "0 < refs (srv s)"
    using assms by (auto simp: sys_start_def promised_def open_in_loop_def conn_ok_def)
  show ?thesis using assms w
    by (auto simp: sys_start_def sys_inv_def ends_ok_def requests_ok_def replies_ok_def table_ok_def answers_ok_def
        call_inv_def call_abs_def link_ok_def in_link_def unserved_def coming_def replies_def users_made_def invoked_ok_def)
qed

lemma sys_work_inv:
  assumes "sys_work nw cenv env s t" and "sys_inv cenv env s" and "codec_fits (e_ser env) (c_parse cenv)"
  shows "sys_inv cenv env t"
  using assms(1)
proof cases
  case (client_functor f fs c)
  show ?thesis using client_functor_inv [OF assms(2) client_functor(2,3)] client_functor(1) by auto
next
  case (client_write n c)
  show ?thesis using client_write_inv [OF assms(2) client_write(2,3,4)] client_write(1) by auto
next
  case (server_read chunk later w)
  show ?thesis using server_read_inv [OF assms(2,3) server_read(2,3,4)] server_read(1) by auto
next
  case (worker_takes m p)
  show ?thesis using worker_takes_inv [OF assms(2) worker_takes(3)] worker_takes(1) by auto
next
  case (worker_runs m T k result r a w)
  show ?thesis using worker_runs_inv [OF assms(2,3) worker_runs(2,3,4,5)] worker_runs(1) by auto
next
  case (server_functor f fs clock w)
  show ?thesis using server_functor_inv [OF assms(2) server_functor(2,3)] server_functor(1) by auto
next
  case (server_write n w)
  show ?thesis using server_write_inv [OF assms(2) server_write(2,3,4)] server_write(1) by auto
next
  case (client_read chunk later c)
  show ?thesis using client_read_inv [OF assms(2) client_read(2,3,4)] client_read(1) by auto
qed

lemma sys_user_inv:
  assumes "sys_user cenv env s t" and "sys_inv cenv env s"
    and "codec_fits (c_ser cenv) (e_parse env)" and "codec_fits (e_ser env) (c_parse cenv)"
  shows "sys_inv cenv env t"
  using assms(1)
proof cases
  case (call i j svc meth body cb tm c)
  show ?thesis using call_inv_user [OF assms(2,3) call(2,3,4)] call(1) by simp
next
  case (client_event op j c)
  show ?thesis using client_event_inv [OF assms(2) client_event(2,3)] client_event(1) by simp
next
  case (server_notice j w)
  show ?thesis using server_notice_inv [OF assms(2,4) server_notice(2)] server_notice(1) by simp
next
  case server_stops
  show ?thesis unfolding server_stops by (rule server_flag_inv [OF assms(2)]) simp
next
  case pool_closes
  show ?thesis unfolding pool_closes by (rule server_flag_inv [OF assms(2)]) simp
qed

lemma sys_reachable_inv:
  assumes "sys_reachable nw cenv env s" and "codec_fits (c_ser cenv) (e_parse env)" and "codec_fits (e_ser env) (c_parse cenv)"
  shows "sys_inv cenv env s"
  using assms(1)
proof induction
  case (start s)
  then show ?case by (rule sys_start_inv)
next
  case (work s t)
  show ?case by (rule sys_work_inv [OF work.hyps(2) work.IH assms(3)])
next
  case (user s t)
  show ?case by (rule sys_user_inv [OF user.hyps(2) user.IH assms(2,3)])
qed

end
