(* ===== verification/SystemProperties.thy ===== *)
theory SystemProperties
  imports RpcSystem
begin

text \<open>
  What holds of the system of \<open>RpcSystem\<close>: no request is invoked twice, every answer is the answer to its own
  call, the work of the loops and the workers ends, and then nobody waits whose answer could be sent.
\<close>

section \<open>The work ends, and then nothing is on its way\<close>

text \<open>Every kind of work moves something one place further along the path of a call.\<close>

definition work_left :: "(('k, 'u, 'l, 'a) rpc_system \<Rightarrow> nat) list" where
  "work_left = [\<lambda>s. length (pending (cli s)), \<lambda>s. length (promised (cli s)) - length (wire (cli s)),
     \<lambda>s. length (wire (cli s)) - srv_read s, \<lambda>s. length (tasks (srv_pool (srv s))), \<lambda>s. size (taken s),
     \<lambda>s. length (pending (srv s)), \<lambda>s. length (promised (srv s)) - length (wire (srv s)),
     \<lambda>s. length (wire (srv s)) - cli_read s]"

lemma unread_less:
  assumes "drop n w = chunk @ later" and "chunk \<noteq> []"
  shows "length w - (n + length chunk) < length w - n"
proof -
  have "length w - n = length chunk + length later" using arg_cong [OF assms(1), of length] by simp
  moreover have "0 < length chunk" using assms(2) by simp
  ultimately show ?thesis by arith
qed

lemma unwritten_less:
  assumes "promised w' = promised w" and "length (wire w) < length (wire w')"
  shows "length (promised w') - length (wire w') < length (promised w) - length (wire w)"
  using assms wire_le_promised [of w'] by simp

lemma work_decreases:
  assumes "sys_work nw cenv env s t" and "sys_inv cenv env s" and "codec_fits (e_ser env) (c_parse cenv)"
  shows "(t, s) \<in> measures work_left"
  using assms(1)
proof cases
  case (client_functor f fs c)
  then show ?thesis using client_functor_inv [OF assms(2) client_functor(2,3)] by (auto simp: work_left_def)
next
  case (client_write n c)
  then show ?thesis using client_write_inv [OF assms(2) client_write(2,3,4)] unwritten_less [of c "cli s"]
    by (auto simp: work_left_def)
next
  case (server_read chunk later w)
  then show ?thesis using unread_less [OF server_read(2,3)] by (simp add: work_left_def)
next
  case (worker_takes m p)
  then show ?thesis by (auto simp: work_left_def ThreadPool_worker_lock_def split: if_splits list.splits)
next
  case (worker_runs m T k result r a w)
  then show ?thesis using worker_runs_inv [OF assms(2,3) worker_runs(2,3,4,5)]
    by (auto simp: work_left_def ThreadPool_worker_done_def Let_def)
next
  case (server_functor f fs clock w)
  then show ?thesis using server_functor_inv [OF assms(2) server_functor(2,3)] by (auto simp: work_left_def)
next
  case (server_write n w)
  then show ?thesis using server_write_inv [OF assms(2) server_write(2,3,4)] unwritten_less [of w "srv s"]
    by (auto simp: work_left_def)
next
  case (client_read chunk later c)
  then show ?thesis using client_read_inv [OF assms(2) client_read(2,3,4)] unread_less [OF client_read(2,3)]
    by (auto simp: work_left_def)
qed

lemma quiet_link:
  assumes "conn_ok w" and "link_ok parse n v w" and "pending w = []" and "\<not> 0 < Buffer_ReadableBytes (out_buf w)"
    and "drop n (wire w) = []"
  shows "in_link parse n v w = {#}"
proof -
  have "Buffer_PeekStringView (out_buf w) = []" using assms(1,4) empty_view by (simp add: conn_ok_def)
  then have d: "drop n (promised w) = []" using assms(5) by (simp add: promised_def)
  then have "v = []" using assms(2) whole_partial by (auto simp: link_ok_def)
  then show ?thesis using d assms(3) by (simp add: in_link_def)
qed

lemma no_work_left:
  assumes "sys_inv cenv env s" and "codec_fits (e_ser env) (c_parse cenv)" and "0 < nw" and "\<not> (\<exists>t. sys_work nw cenv env s t)"
  shows "unserved env s = {#} \<and> coming cenv s = {#}"
proof -
  note inv = assms(1) [unfolded sys_inv_def ends_ok_def]
  have ok: "conn_ok (cli s)" "conn_ok (srv s)" using inv by (simp_all add: open_in_loop_def)
  have idle: "sys_work nw cenv env s t \<Longrightarrow> False" for t using assms(4) by blast
  have c1: "pending (cli s) = []"
  proof (cases "pending (cli s)")
    case (Cons f fs)
    then show ?thesis using client_functor_inv [OF assms(1) Cons refl] idle sys_work.client_functor [OF Cons] by blast
  qed
  have c2: "\<not> 0 < Buffer_ReadableBytes (out_buf (cli s))"
  proof
    assume b: "0 < Buffer_ReadableBytes (out_buf (cli s))"
    have "(0 :: nat) < 1" by simp
    from client_write_inv [OF assms(1) this b refl] idle sys_work.client_write [OF this b] show False by blast
  qed
  have c3: "drop (srv_read s) (wire (cli s)) = []"
  proof (rule ccontr)
    assume ne: "drop (srv_read s) (wire (cli s)) \<noteq> []"
    then obtain x xs where d: "drop (srv_read s) (wire (cli s)) = [x] @ xs" by (cases "drop (srv_read s) (wire (cli s))") auto
    have r: "[x] \<noteq> []" "length [x] \<le> read_room (srv s)" by (simp_all add: read_room_def Buffer_extrabuf_size_def)
    from server_read_inv [OF assms(1,2) d r(1) refl] idle sys_work.server_read [OF d r(1) _ r(2)] show False by blast
  qed
  have s1: "taken s = {#}"
  proof (rule ccontr)
    assume "taken s \<noteq> {#}"
    then obtain m T where t: "taken s = add_mset m T" by (meson multiset_nonemptyE mset_add)
    obtain result r a where i: "RpcService_Invoke (e_bad_call env) (service (srv s)) m RpcResponse_new (app (srv s)) = (result, r, a)"
      by (metis prod_cases3)
    have k: "e_self env + 1 \<noteq> e_self env" by simp
    from worker_runs_inv [OF assms(1,2) t k i refl] idle sys_work.worker_runs [OF t k i] show False by blast
  qed
  have s2: "tasks (srv_pool (srv s)) = []"
  proof (cases "tasks (srv_pool (srv s))")
    case (Cons m ms)
    then have "ThreadPool_worker_lock (srv_pool (srv s)) =
        Worker_runs m (srv_pool (srv s)\<lparr>tasks := ms, activeTasks := activeTasks (srv_pool (srv s)) + 1\<rparr>)"
      by (simp add: ThreadPool_worker_lock_def)
    from sys_work.worker_takes [OF _ this] show ?thesis using idle s1 assms(3) by auto
  qed
  have s3: "pending (srv s) = []"
  proof (cases "pending (srv s)")
    case (Cons f fs)
    then show ?thesis
      using server_functor_inv [OF assms(1) Cons refl] idle sys_work.server_functor [OF Cons] by blast
  qed
  have s4: "\<not> 0 < Buffer_ReadableBytes (out_buf (srv s))"
  proof
    assume b: "0 < Buffer_ReadableBytes (out_buf (srv s))"
    have "(0 :: nat) < 1" by simp
    from server_write_inv [OF assms(1) this b refl] idle sys_work.server_write [OF this b] show False by blast
  qed
  have s5: "drop (cli_read s) (wire (srv s)) = []"
  proof (rule ccontr)
    assume ne: "drop (cli_read s) (wire (srv s)) \<noteq> []"
    then obtain x xs where d: "drop (cli_read s) (wire (srv s)) = [x] @ xs" by (cases "drop (cli_read s) (wire (srv s))") auto
    have r: "[x] \<noteq> []" "length [x] \<le> read_room (cli s)" by (simp_all add: read_room_def Buffer_extrabuf_size_def)
    from client_read_inv [OF assms(1) d r(1) refl] idle sys_work.client_read [OF d r(1) _ r(2)] show False by blast
  qed
  have "in_link (e_parse env) (srv_read s) (in_view (srv s)) (cli s) = {#}"
    by (rule quiet_link [OF ok(1) _ c1 c2 c3]) (use inv in simp)
  moreover have "in_link (c_parse cenv) (cli_read s) (in_view (cli s)) (srv s) = {#}"
    by (rule quiet_link [OF ok(2) _ s3 s4 s5]) (use inv in simp)
  ultimately show ?thesis using s1 s2 by (simp add: unserved_def coming_def)
qed

lemma work_keeps_calls: "sys_work nw cenv env s t \<Longrightarrow> calls_made t = calls_made s"
  by (erule sys_work.cases) auto

lemma work_keeps_service:
  assumes "sys_work nw cenv env s t" and "sys_inv cenv env s" and "codec_fits (e_ser env) (c_parse cenv)"
  shows "service (srv t) = service (srv s)"
  using assms(1)
proof cases
  case (server_read chunk later w)
  then show ?thesis using server_read_inv [OF assms(2,3) server_read(2,3,4)] by auto
next
  case (worker_runs m T k result r a w)
  then show ?thesis using worker_runs_inv [OF assms(2,3) worker_runs(2,3,4,5)] by auto
next
  case (server_functor f fs clock w)
  then show ?thesis using server_functor_inv [OF assms(2) server_functor(2,3)] by auto
next
  case (server_write n w)
  then show ?thesis using server_write_inv [OF assms(2) server_write(2,3,4)] by auto
qed auto

lemma work_run:
  assumes "(sys_work nw cenv env)\<^sup>*\<^sup>* s t" and "sys_inv cenv env s" and "codec_fits (e_ser env) (c_parse cenv)"
  shows "sys_inv cenv env t \<and> calls_made t = calls_made s \<and> service (srv t) = service (srv s)"
  using assms(1)
proof induction
  case base
  then show ?case using assms(2) by simp
next
  case (step t u)
  then show ?case using sys_work_inv [OF step.hyps(2) _ assms(3)] work_keeps_calls [OF step.hyps(2)]
      work_keeps_service [OF step.hyps(2) _ assms(3)] by simp
qed

lemma work_reachable: "(sys_work nw cenv env)\<^sup>*\<^sup>* s t \<Longrightarrow> sys_reachable nw cenv env s \<Longrightarrow> sys_reachable nw cenv env t"
  by (induction rule: rtranclp_induct) (auto intro: sys_reachable.work)

text \<open>Work can always be brought to an end.\<close>

lemma work_finishes:
  assumes "sys_inv cenv env s" and "codec_fits (e_ser env) (c_parse cenv)"
  shows "\<exists>t. (sys_work nw cenv env)\<^sup>*\<^sup>* s t \<and> \<not> (\<exists>u. sys_work nw cenv env t u)"
  using assms(1)
proof (induction s rule: wf_induct_rule [OF wf_measures [of work_left]])
  case (1 s)
  show ?case
  proof (cases "\<exists>t. sys_work nw cenv env s t")
    case True
    then obtain t where t: "sys_work nw cenv env s t" by blast
    obtain u where "(sys_work nw cenv env)\<^sup>*\<^sup>* t u" "\<not> (\<exists>v. sys_work nw cenv env u v)"
      using "1.IH" [OF work_decreases [OF t "1.prems" assms(2)] sys_work_inv [OF t "1.prems" assms(2)]] by blast
    then show ?thesis using t by (blast intro: converse_rtranclp_into_rtranclp)
  qed blast
qed

text \<open>When it has, whoever still waits made a call whose answer never left the server.\<close>

lemma finished_system:
  assumes "(sys_work nw cenv env)\<^sup>*\<^sup>* s t" and "\<not> (\<exists>u. sys_work nw cenv env t u)" and "0 < nw"
    and "sys_inv cenv env s" and "codec_fits (e_ser env) (c_parse cenv)"
  shows "(\<forall>(i, cb) \<in> set (pending_calls (cli t)). \<exists>m \<in> silent env t. rq_request_id m = i) \<and>
    (silent env t = {} \<longrightarrow> pending_calls (cli t) = [] \<and>
       image_mset fst (mset (answered (cli t))) = sum_list (map (users_of \<circ> snd) (calls_made s)))"
proof -
  note inv = work_run [OF assms(1,4,5), unfolded sys_inv_def]
  have q: "unserved env t = {#}" "coming cenv t = {#}"
    using no_work_left [OF _ assms(5,3,2)] work_run [OF assms(1,4,5)] by simp_all
  have w: "\<forall>(i, cb) \<in> set (pending_calls (cli t)). \<exists>m \<in> silent env t. rq_request_id m = i"
    using inv unfolding table_ok_def q by fastforce
  have "pending_calls (cli t) = []" if "silent env t = {}"
    using w that by (cases "pending_calls (cli t)") auto
  then show ?thesis using w inv by (auto simp: call_inv_def call_abs_def users_made_def)
qed

lemma distinct_submset: "mset xs \<subseteq># mset ys \<Longrightarrow> distinct ys \<Longrightarrow> distinct xs"
  by (metis distinct_append mset_append mset_eq_imp_distinct_iff mset_subset_eq_exists_conv ex_mset)

section \<open>Properties\<close>

text \<open>
  A system for the witnesses: the demo client and server, with serialisers for the request that consists of an id and for
  three answers to it, and what happens after a call from thread 3.
\<close>

definition id_request :: "rpc_request \<Rightarrow> bytes option" where
  "id_request m = (if m = RpcRequest_new\<lparr>rq_request_id := rq_request_id m\<rparr> \<and> length (rq_request_id m) \<le> 67108864
     then Some (rq_request_id m) else None)"

abbreviation demo_request :: rpc_request where
  "demo_request \<equiv> RpcRequest_new\<lparr>rq_request_id := [7]\<rparr>"

abbreviation demo_answer :: rpc_response where
  "demo_answer \<equiv> RpcResponse_new\<lparr>rs_request_id := [7], rs_msg := str ''success''\<rparr>"

definition demo_reply_ser :: "rpc_response \<Rightarrow> bytes option" where
  "demo_reply_ser r = (if r = demo_answer then Some [1]
     else if r = busy_response demo_request then Some [2]
     else if r = shutting_down_response demo_request then Some [3] else None)"

definition demo_reply_parse :: "bytes \<Rightarrow> rpc_response option" where
  "demo_reply_parse bs = (if bs = [1] then Some demo_answer
     else if bs = [2] then Some (busy_response demo_request)
     else if bs = [3] then Some (shutting_down_response demo_request) else None)"

definition demo_cli_env :: "(unit, nat, unit) client_env" where
  "demo_cli_env = demo_cenv 0 (\<lambda>_. 0)\<lparr>c_ser := id_request, c_parse := demo_reply_parse\<rparr>"

definition demo_srv_env :: "(unit, (unit, unit) server_world_ext) rpc_env" where
  "demo_srv_env = demo_env 0\<lparr>e_ser := demo_reply_ser\<rparr>"

text \<open>A typed handler that returns its request, on byte strings.\<close>

definition demo_service :: "unit rpc_service" where
  "demo_service = RpcServer_Register [] Some [] Some [] [] (Some (\<lambda>x r w. (Returned, x, w))) RpcService_new"

definition demo_system :: "(unit, nat, unit, unit) rpc_system" where
  "demo_system = \<lparr>cli = demo_client True [],
     srv = demo_server 1 False\<lparr>service := demo_service\<rparr>,
     srv_read = 0, cli_read = 0, taken = {#}, calls_made = [], refused = [], invoked = []\<rparr>"

lemma demo_fits: "codec_fits (c_ser demo_cli_env) (e_parse demo_srv_env)" "codec_fits (e_ser demo_srv_env) (c_parse demo_cli_env)"
  by (auto simp: codec_fits_def demo_cli_env_def demo_srv_env_def id_request_def demo_reply_ser_def
      demo_reply_parse_def demo_env_def demo_cenv_def split: if_splits)

lemma demo_start: "sys_start demo_cli_env demo_srv_env demo_system"
proof -
  have "conn_ok (demo_server 1 False\<lparr>service := x\<rparr>)" "in_view (demo_server 1 False\<lparr>service := x\<rparr>) = []"
    "promised (demo_server 1 False\<lparr>service := x\<rparr>) = []" for x
    using demo_server_fields [of 1 False] by (simp_all add: conn_ok_def in_view_def promised_def)
  moreover have "e_self demo_srv_env = 0" "c_self demo_cli_env = 0" by (simp_all add: demo_srv_env_def demo_cli_env_def)
  moreover have "pending (demo_client True ([] :: (bytes \<times> nat option) list)) = []"
    by (simp add: demo_client_def demo_conn_def conn_world.defs tcp_client_world.defs client_world.defs)
  moreover have "tasks (srv_pool (demo_server 1 False)) = []" by (simp add: ThreadPool_new_def)
  ultimately show ?thesis by (simp add: sys_start_def demo_system_def open_in_loop_def)
qed

lemma demo_call:
  "\<exists>c. sys_user demo_cli_env demo_srv_env demo_system (demo_system\<lparr>cli := c,
     calls_made := [(RpcRequest_new\<lparr>rq_request_id := [7]\<rparr>, Some 42)]\<rparr>)"
proof -
  let ?c = "demo_client True ([] :: (bytes \<times> nat option) list)"
  have m: "RpcRequest_new\<lparr>rq_service_name := [], rq_method_name := [], rq_request_id := [7], rq_body := []\<rparr> =
    RpcRequest_new\<lparr>rq_request_id := [7]\<rparr>" by (simp add: RpcRequest_new_def)
  have e: "Codec_encode (c_ser demo_cli_env) (RpcRequest_new\<lparr>rq_service_name := [], rq_method_name := [], rq_request_id := [7], rq_body := []\<rparr>) =
      Some (store_u32 (htonl 1) @ [7])"
    unfolding m by (simp add: demo_cli_env_def id_request_def Codec_encode_def UINT32_MAX_def)
  have c: "conn_ok ?c" "thread_id ?c \<noteq> c_self (demo_cli_env\<lparr>c_self := 3\<rparr>)" "\<not> pending_locked ?c" "has_connection ?c"
    "\<not> cli_stopped ?c" "tc_connected ?c" by simp_all
  have e': "Codec_encode (c_ser (demo_cli_env\<lparr>c_self := 3\<rparr>)) (RpcRequest_new\<lparr>rq_service_name := [], rq_method_name := [],
      rq_request_id := [7], rq_body := []\<rparr>) = Some (store_u32 (htonl 1) @ [7])" using e by simp
  obtain c where "RpcClient_CallRaw (recording (demo_cli_env\<lparr>c_self := 3\<rparr>)) [7] [] [] [] (Some 42) 50 ?c = Some (Call_returned, c)"
    using CallRaw_other_thread [where u = 42 and t = 50, OF c e'] by blast
  then have c: "RpcClient_CallRaw (recording (demo_cli_env\<lparr>c_self := 3\<rparr>)) [7] [] [] [] (Some 42) 50 (cli demo_system) = Some (Call_returned, c)"
    by (simp add: demo_system_def)
  show ?thesis using sys_user.call [OF _ _ c, of demo_srv_env] unfolding m by (auto simp: demo_system_def)
qed

text \<open>The call is made, and the work is brought to its end.\<close>

lemma demo_run:
  "\<exists>s t. sys_reachable 1 demo_cli_env demo_srv_env s \<and> calls_made s = [(demo_request, Some 42)] \<and>
     (sys_work 1 demo_cli_env demo_srv_env)\<^sup>*\<^sup>* s t \<and> \<not> (\<exists>u. sys_work 1 demo_cli_env demo_srv_env t u) \<and>
     silent demo_srv_env t = {} \<and> image_mset fst (mset (answered (cli t))) = {#42#} \<and> service (srv t) = demo_service"
proof -
  obtain c where c: "sys_user demo_cli_env demo_srv_env demo_system (demo_system\<lparr>cli := c,
      calls_made := [(demo_request, Some 42)]\<rparr>)" using demo_call by blast
  let ?s = "demo_system\<lparr>cli := c, calls_made := [(demo_request, Some 42)]\<rparr>"
  have r: "sys_reachable 1 demo_cli_env demo_srv_env ?s" by (rule sys_reachable.user [OF sys_reachable.start [OF demo_start] c])
  note inv = sys_reachable_inv [OF r demo_fits]
  obtain t where t: "(sys_work 1 demo_cli_env demo_srv_env)\<^sup>*\<^sup>* ?s t" "\<not> (\<exists>u. sys_work 1 demo_cli_env demo_srv_env t u)"
    using work_finishes [OF inv demo_fits(2)] by blast
  note wr = work_run [OF t(1) inv demo_fits(2)]
  have made: "m = demo_request" if "m \<in># mset (map fst (invoked t)) + mset (map fst (refused t))" for m
  proof -
    have "unserved demo_srv_env t + mset (map fst (invoked t)) + mset (map fst (refused t)) \<subseteq># mset (map fst (calls_made t))"
      using wr unfolding sys_inv_def requests_ok_def by blast
    moreover have "m \<in># unserved demo_srv_env t + mset (map fst (invoked t)) + mset (map fst (refused t))" using that by auto
    ultimately have "m \<in># mset (map fst (calls_made t))" by (rule mset_subset_eqD)
    then show ?thesis using wr by (simp add: demo_system_def)
  qed
  have "silent demo_srv_env t = {}"
  proof -
    have "result = Invoke_returned True \<and> r = demo_answer" if i: "(m, result, r) \<in> set (invoked t)" for m result r
    proof -
      have "m \<in># mset (map fst (invoked t)) + mset (map fst (refused t))" using i by force
      from made [OF this] have m: "m = demo_request" .
      obtain a a' where "RpcService_Invoke (e_bad_call demo_srv_env) (service (srv t)) m RpcResponse_new a = (result, r, a')"
        using wr i by (fastforce simp: sys_inv_def invoked_ok_def)
      then show ?thesis using wr unfolding m
        by (simp add: demo_system_def demo_service_def RpcServer_Register_def RpcServer_RegisterRaw_def RpcService_Invoke_def
            RpcRequest_new_def RpcServer_Register_wrapper_def call_service_callback_def RpcResponse_new_def Let_def)
    qed
    moreover have "r \<in> {shutting_down_response demo_request, busy_response demo_request}" if i: "(m, r) \<in> set (refused t)" for m r
    proof -
      have "m \<in># mset (map fst (invoked t)) + mset (map fst (refused t))" using i by force
      from made [OF this] show ?thesis using wr i by (fastforce simp: sys_inv_def replies_ok_def)
    qed
    moreover have "encodable (e_ser demo_srv_env) demo_answer"
      "encodable (e_ser demo_srv_env) (shutting_down_response demo_request)" "encodable (e_ser demo_srv_env) (busy_response demo_request)"
      by (simp_all add: encodable_def demo_srv_env_def demo_reply_ser_def Codec_encode_def UINT32_MAX_def)
    ultimately show ?thesis unfolding silent_def by fastforce
  qed
  moreover from this have "image_mset fst (mset (answered (cli t))) = {#42#}"
    using finished_system [OF t _ inv demo_fits(2)] by (simp add: users_of_def)
  moreover have "service (srv t) = demo_service" using wr by (simp add: demo_system_def)
  ultimately show ?thesis using r t by (intro exI [of _ ?s] exI [of _ t]) simp
qed

text \<open>Where an answer comes from.\<close>

lemma answer_origin:
  assumes "sys_reachable nw cenv env s" and "codec_fits (c_ser cenv) (e_parse env)" and "codec_fits (e_ser env) (c_parse cenv)"
    and "(u, r) \<in> set (answered (cli s))"
  shows "\<exists>m. (m, Some u) \<in> set (calls_made s) \<and> rs_request_id r = rq_request_id m \<and>
    ((\<exists>code \<in> client_codes. rs_code r = code_value code) \<or>
     (m, r) \<in> set (refused s) \<and> r \<in> {shutting_down_response m, busy_response m} \<or>
     (\<exists>b a a'. RpcService_Invoke (e_bad_call env) (service (srv s)) m RpcResponse_new a = (Invoke_returned b, r, a')))"
proof -
  note inv = sys_reachable_inv [OF assms(1-3), unfolded sys_inv_def]
  obtain m where m: "(m, Some u) \<in> set (calls_made s)" "right_answer s m r"
    using inv assms(4) unfolding answers_ok_def by auto
  consider "answered_by_client (rq_request_id m) r" | "(m, r) \<in> replies s" using m(2) by (auto simp: right_answer_def)
  then show ?thesis
  proof cases
    case 1
    then show ?thesis using m(1) by (auto simp: answered_by_client_def make_response_def intro!: exI [of _ m])
  next
    case 2
    then have "rs_request_id r = rq_request_id m" using inv unfolding replies_ok_def by auto
    moreover have "(m, r) \<in> set (refused s) \<Longrightarrow> r \<in> {shutting_down_response m, busy_response m}"
      using inv unfolding replies_ok_def by auto
    moreover have "\<exists>a a'. RpcService_Invoke (e_bad_call env) (service (srv s)) m RpcResponse_new a = (Invoke_returned b, r, a')"
      if "(m, Invoke_returned b, r) \<in> set (invoked s)" for b
      using inv that unfolding invoked_ok_def by fastforce
    ultimately show ?thesis using 2 m(1) unfolding replies_def by (intro exI [of _ m]) blast
  qed
qed

text \<open>
  C4. In a whole system of a client, a server and a connection that stays open, with calls from any threads, timeouts,
  errors and \<open>Stop\<close> at any moment, bytes delivered in any pieces, and workers that run tasks in any order: every
  callback is called with an answer to its own call: one the client made up itself under one of its own codes, or the
  server's refusal of that very request, or the response the service returned when it was invoked on that very request.
  The request ids are assumed distinct, and the parsers to read back what the serialisers write.
\<close>

theorem system_answers_own_call:
  assumes "sys_reachable nw cenv env s" and "codec_fits (c_ser cenv) (e_parse env)" and "codec_fits (e_ser env) (c_parse cenv)"
    and "(u, r) \<in> set (answered (cli s))"
  shows "\<exists>m. (m, Some u) \<in> set (calls_made s) \<and> rs_request_id r = rq_request_id m \<and>
    ((\<exists>code \<in> client_codes. rs_code r = code_value code) \<or>
     (m, r) \<in> set (refused s) \<and> r \<in> {shutting_down_response m, busy_response m} \<or>
     (\<exists>b a a'. RpcService_Invoke (e_bad_call env) (service (srv s)) m RpcResponse_new a = (Invoke_returned b, r, a')))"
  by (rule answer_origin [OF assms])

theorem system_answers_own_call_witness:
  "\<exists>t r. sys_reachable 1 demo_cli_env demo_srv_env t \<and> answered (cli t) = [(42, r)] \<and> rs_request_id r = [7]"
proof -
  obtain s t where t: "sys_reachable 1 demo_cli_env demo_srv_env s" "calls_made s = [(demo_request, Some 42)]"
    "(sys_work 1 demo_cli_env demo_srv_env)\<^sup>*\<^sup>* s t" "image_mset fst (mset (answered (cli t))) = {#42#}" using demo_run by blast
  have r: "sys_reachable 1 demo_cli_env demo_srv_env t" by (rule work_reachable [OF t(3,1)])
  have c: "calls_made t = [(demo_request, Some 42)]"
    using work_run [OF t(3) sys_reachable_inv [OF t(1) demo_fits] demo_fits(2)] t(2) by simp
  have "size (answered (cli t)) = 1" using arg_cong [OF t(4), of size] by simp
  then obtain u x where a: "answered (cli t) = [(u, x)]" by (cases "answered (cli t)") auto
  then have "u = 42" using t(4) by simp
  then show ?thesis using system_answers_own_call [OF r demo_fits, of u x] a r c by auto
qed



text \<open>
  C32. The work of a system always ends: from any reachable state, without new calls from the users, the loops and the
  workers cannot run functors, write, read, take and run tasks for ever, whatever order they do it in and
  however small the pieces are that the kernel takes and delivers.
\<close>

theorem system_work_terminates:
  assumes "sys_reachable nw cenv env s" and "codec_fits (c_ser cenv) (e_parse env)" and "codec_fits (e_ser env) (c_parse cenv)"
  shows "\<not> (\<exists>f. f 0 = s \<and> (\<forall>n. sys_work nw cenv env (f n) (f (Suc n))))"
proof
  assume "\<exists>f. f 0 = s \<and> (\<forall>n. sys_work nw cenv env (f n) (f (Suc n)))"
  then obtain f where f: "f 0 = s" "\<And>n. sys_work nw cenv env (f n) (f (Suc n))" by blast
  have "sys_inv cenv env (f n)" for n
    by (induction n) (use f sys_reachable_inv [OF assms] sys_work_inv [OF _ _ assms(3)] in auto)
  then have "(f (Suc n), f n) \<in> measures work_left" for n using work_decreases [OF f(2) _ assms(3)] by blast
  then show False using wf_measures [of work_left] unfolding wf_iff_no_infinite_down_chain by blast
qed

theorem system_work_terminates_witness:
  "\<not> (\<exists>f. f 0 = demo_system \<and> (\<forall>n. sys_work 1 demo_cli_env demo_srv_env (f n) (f (Suc n))))"
  by (rule system_work_terminates [OF sys_reachable.start [OF demo_start] demo_fits])

text \<open>
  C5. Nobody waits for ever. From any reachable state of the system the work can be brought to an end, and
  however that is done: who then still waits made a call whose handler threw something that is no \<open>std::exception\<close>, or
  whose answer could not be encoded; if there is no such call, the table of pending calls is empty and every callback has been
  called exactly once. No timeout is needed for it, and it holds for any number of workers and any room in their queue.
\<close>

theorem system_answers_everybody:
  assumes "sys_reachable nw cenv env s" and "codec_fits (c_ser cenv) (e_parse env)" and "codec_fits (e_ser env) (c_parse cenv)"
    and "0 < nw"
  shows "(\<exists>t. (sys_work nw cenv env)\<^sup>*\<^sup>* s t \<and> \<not> (\<exists>u. sys_work nw cenv env t u)) \<and>
    (\<forall>t. (sys_work nw cenv env)\<^sup>*\<^sup>* s t \<and> \<not> (\<exists>u. sys_work nw cenv env t u) \<longrightarrow>
      (\<forall>(i, cb) \<in> set (pending_calls (cli t)). \<exists>m \<in> silent env t. rq_request_id m = i) \<and>
      (silent env t = {} \<longrightarrow> pending_calls (cli t) = [] \<and>
        image_mset fst (mset (answered (cli t))) = sum_list (map (users_of \<circ> snd) (calls_made s))))"
proof (intro conjI allI impI, goal_cases)
  case 1
  show ?case by (rule work_finishes [OF sys_reachable_inv [OF assms(1-3)] assms(3)])
next
  case (2 t)
  then show ?case using finished_system [OF _ _ assms(4) sys_reachable_inv [OF assms(1-3)] assms(3)] by blast
qed (use finished_system [OF _ _ assms(4) sys_reachable_inv [OF assms(1-3)] assms(3)] in blast)+

theorem system_answers_everybody_witness:
  "\<exists>t. sys_reachable 1 demo_cli_env demo_srv_env t \<and> pending_calls (cli t) = [] \<and> image_mset fst (mset (answered (cli t))) = {#42#}"
proof -
  obtain s t where t: "sys_reachable 1 demo_cli_env demo_srv_env s" "calls_made s = [(demo_request, Some 42)]"
    "(sys_work 1 demo_cli_env demo_srv_env)\<^sup>*\<^sup>* s t" "\<not> (\<exists>u. sys_work 1 demo_cli_env demo_srv_env t u)" "silent demo_srv_env t = {}"
    using demo_run by blast
  have "(0 :: nat) < 1" by simp
  from system_answers_everybody [OF t(1) demo_fits this, THEN conjunct2, rule_format, of t]
  show ?thesis using t work_reachable [OF t(3,1)] by (intro exI [of _ t]) (simp add: users_of_def)
qed

section \<open>Typed calls\<close>

text \<open>
  What \<open>RpcServer::Register\<close> and \<open>RpcClient::Call\<close> make of an answer of the service, when the client parses what
  the server serialises: \<open>OK\<close> comes with the handler's own result, every other code with an untouched one.
\<close>

lemma typed_answer:
  assumes "RpcService_Invoke bad' (RpcServer_Register bad parse_req rsp_new ser_rsp sname mname (Some f) svc) m RpcResponse_new a
      = (Invoke_returned b, r, a')"
    and "rq_service_name m = sname" and "rq_method_name m = mname" and "parse_req (rq_body m) = Some x"
    and "\<forall>v out. ser_rsp v = Some out \<longrightarrow> parse_rsp out = Some v"
    and "Call_raw_cb parse_rsp leftover rsp0 r = (code, msg, v)"
  shows "if code = code_value OK then f x rsp_new a = (Returned, v, a') else v = rsp0"
  using assms
  by (auto simp: RpcService_Invoke_def RpcServer_Register_def RpcServer_RegisterRaw_def call_service_callback_def
      RpcServer_Register_wrapper_def Call_raw_cb_def Let_def split: prod.splits cb_outcome.splits option.splits if_splits)

lemma Call_raw_cb_error: "rs_code r \<noteq> code_value OK \<Longrightarrow> Call_raw_cb parse_rsp leftover rsp0 r = (rs_code r, rs_msg r, rsp0)"
  by (simp add: Call_raw_cb_def)

text \<open>
  C6. The typed interface, end to end. Let the server have a typed handler for a method, and let the parsers of the two
  message types read back what their serialisers write. Then in every reachable state of the system every callback
  was given an answer to its own call, and if that was a \<open>Call\<close> of the method with the request \<open>x\<close>, then the typed callback
  gets \<open>OK\<close> only together with a result that the handler computed for \<open>x\<close>, and with every other code the fresh response.
\<close>

theorem typed_call_gets_own_result:
  assumes "sys_reachable nw cenv env s" and "codec_fits (c_ser cenv) (e_parse env)" and "codec_fits (e_ser env) (c_parse cenv)"
    and "(u, r) \<in> set (answered (cli s))"
    and "service (srv s) = RpcServer_Register bad parse_req rsp_new ser_rsp sname mname (Some f) svc"
    and "\<forall>x out. ser_req x = Some out \<longrightarrow> parse_req out = Some x" and "\<forall>v out. ser_rsp v = Some out \<longrightarrow> parse_rsp out = Some v"
  shows "\<exists>m. (m, Some u) \<in> set (calls_made s) \<and> rs_request_id r = rq_request_id m \<and>
    (\<forall>x code msg v. rq_service_name m = sname \<and> rq_method_name m = mname \<and> RpcClient_Call ser_req rsp0 x = Typed_calls_raw (rq_body m) \<and>
       Call_raw_cb parse_rsp leftover rsp0 r = (code, msg, v) \<longrightarrow>
       (if code = code_value OK then \<exists>a a'. f x rsp_new a = (Returned, v, a') else v = rsp0))"
proof -
  obtain m where m: "(m, Some u) \<in> set (calls_made s)" "rs_request_id r = rq_request_id m"
    "(\<exists>code \<in> client_codes. rs_code r = code_value code) \<or> r \<in> {shutting_down_response m, busy_response m} \<or>
     (\<exists>b a a'. RpcService_Invoke (e_bad_call env) (service (srv s)) m RpcResponse_new a = (Invoke_returned b, r, a'))"
    using answer_origin [OF assms(1-4)] by blast
  have "if code = code_value OK then \<exists>a a'. f x rsp_new a = (Returned, v, a') else v = rsp0"
    if c: "rq_service_name m = sname" "rq_method_name m = mname" "RpcClient_Call ser_req rsp0 x = Typed_calls_raw (rq_body m)"
      "Call_raw_cb parse_rsp leftover rsp0 r = (code, msg, v)" for x code msg v
  proof (cases "rs_code r = code_value OK")
    case True
    then have "\<not> (\<exists>code \<in> client_codes. rs_code r = code_value code)" "r \<notin> {shutting_down_response m, busy_response m}"
      by (auto simp: client_codes_def shutting_down_response_def busy_response_def simp del: code_value.simps)
    then obtain b a a' where i: "RpcService_Invoke (e_bad_call env) (service (srv s)) m RpcResponse_new a = (Invoke_returned b, r, a')"
      using m(3) by blast
    have "parse_req (rq_body m) = Some x" using c(3) assms(6) by (simp add: RpcClient_Call_def split: option.splits)
    from typed_answer [OF i [unfolded assms(5)] c(1,2) this assms(7) c(4)] show ?thesis by (auto split: if_splits)
  qed (use Call_raw_cb_error [of r parse_rsp leftover rsp0] c(4) in simp)
  then show ?thesis using m(1,2) by (intro exI [of _ m]) blast
qed

theorem typed_call_gets_own_result_witness:
  "\<exists>t r. sys_reachable 1 demo_cli_env demo_srv_env t \<and> answered (cli t) = [(42, r)] \<and>
     (case Call_raw_cb Some (\<lambda>_. []) [9] r of (code, msg, v) \<Rightarrow> v = (if code = code_value OK then [] else [9]))"
proof -
  obtain s t where t: "sys_reachable 1 demo_cli_env demo_srv_env s" "calls_made s = [(demo_request, Some 42)]"
    "(sys_work 1 demo_cli_env demo_srv_env)\<^sup>*\<^sup>* s t" "image_mset fst (mset (answered (cli t))) = {#42#}"
    "service (srv t) = demo_service" using demo_run by blast
  have r: "sys_reachable 1 demo_cli_env demo_srv_env t" by (rule work_reachable [OF t(3,1)])
  have c: "calls_made t = [(demo_request, Some 42)]"
    using work_run [OF t(3) sys_reachable_inv [OF t(1) demo_fits] demo_fits(2)] t(2) by simp
  have "size (answered (cli t)) = 1" using arg_cong [OF t(4), of size] by simp
  then obtain u x where a: "answered (cli t) = [(u, x)]" by (cases "answered (cli t)") auto
  then have u: "u = 42" using t(4) by simp
  have k: "\<forall>x out. Some x = Some out \<longrightarrow> Some out = Some (x :: bytes)" by simp
  have "(42, x) \<in> set (answered (cli t))" using a u by simp
  from typed_call_gets_own_result [OF r demo_fits this t(5) [unfolded demo_service_def] k k, of "[9]" "\<lambda>_. []"] c
  show ?thesis using r a u by (intro exI [of _ t] exI [of _ x]) (auto simp: RpcClient_Call_def RpcRequest_new_def)
qed

end
