(* ===== verification/LostConnection.thy ===== *)
theory LostConnection
  imports SystemProperties
begin

text \<open>
  The connection is lost at the client: the loop sees \<open>EPOLLRDHUP\<close>, \<open>handleClose\<close> runs \<open>RpcClient::onConnection\<close>, which
  drops the pending calls, and then the close callback of \<open>TcpClient\<close>. With it, \<open>RpcSystem\<close> is complete: however far
  the calls have got, everybody is called back once, and later calls are refused.
\<close>

section \<open>The event\<close>

definition client_disconnects ::
  "('k, 'u, 'z) client_env \<Rightarrow> ('k, 'u, 'z) client_world_scheme \<Rightarrow> ('k, 'u, 'z) client_world_scheme option" where
  "client_disconnects env w =
     conn_event (c_sys env) (c_junk env)
       ((c_cbs env)\<lparr>connectionCallback := Some (RpcClient_onConnection env),
          closeCallback := Some (\<lambda>w. Some (TcpClient_SetConnected False w))\<rparr>) EPOLLRDHUP w"

lemma hangup_event:
  assumes "conn_ok w"
  shows "conn_event sys junk cbs EPOLLRDHUP w = TcpConnection_handleClose sys junk cbs w"
  using open_channel [OF assms]
  by (auto simp: conn_event_def Channel_HandleEvent_def epoll_masks call_if_set_def conn_call_def conn_channel_def
      Channel_SetReadCallback_def Channel_SetWriteCallback_def Channel_SetCloseCallback_def)

text \<open>The connection callback on a closed connection, with everything it leaves alone.\<close>

lemma onConnection_closed:
  fixes w :: "('k, 'u, 'z) client_world_scheme"
  assumes "cstate w = Disconnected" and "thread_id w = c_self env" and "\<not> pending_locked w" and "cli_stopped w \<longrightarrow> pending_calls w = []"
  shows "\<exists>w'. RpcClient_onConnection (recording env) w = Some w' \<and> pending_calls w' = [] \<and> conn_core w' = conn_core w \<and>
    \<not> pending_locked w' \<and> answered w' = answered w @ List.map_filter (\<lambda>(i, cb). map_option (\<lambda>u. (u,
      make_response i CLIENT_CONNECTION_DISCONNECTED (str ''tcp connection disconnected''))) cb) (pending_calls w)"
proof (cases "cli_stopped w")
  case True
  then show ?thesis using assms by (simp add: RpcClient_onConnection_def List.map_filter_def)
next
  case False
  let ?msg = "str ''tcp connection disconnected''"
  have "thread_id (w\<lparr>pending_calls := []\<rparr>) = c_self env" using assms(2) by simp
  from drop_each_recording [OF this, of CLIENT_CONNECTION_DISCONNECTED ?msg "pending_calls w"]
  obtain w' where d: "RpcClient_DropAllPending (recording env) CLIENT_CONNECTION_DISCONNECTED ?msg w = Some w'" "pending_calls w' = []"
    "answered w' = answered w @ List.map_filter (\<lambda>(i, cb). map_option (\<lambda>u. (u,
      make_response i CLIENT_CONNECTION_DISCONNECTED ?msg)) cb) (pending_calls w)"
    using assms(3) by (auto simp: RpcClient_DropAllPending_def)
  have "w\<lparr>cli_stopped := False\<rparr> = w" using False by simp
  then have "local_step w w'"
    using drop_local [where st = False and w = w and w' = w' and msg = ?msg and env = env] d(1) by simp
  then show ?thesis using d assms(1,3) False by (simp add: RpcClient_onConnection_def local_step_def)
qed

lemma disconnect_drops:
  fixes w :: "('k, 'u, 'z) client_world_scheme"
  assumes "open_in_loop (c_self env) w" and "\<not> pending_locked w" and "cli_stopped w \<longrightarrow> pending_calls w = []"
  shows "\<exists>w'. client_disconnects (recording env) w = Some w' \<and> cstate w' = Disconnected \<and> \<not> tc_connected w' \<and>
    \<not> pending_locked w' \<and> pending_calls w' = [] \<and> answered w' = answered w @ List.map_filter (\<lambda>(i, cb). map_option (\<lambda>u. (u,
      make_response i CLIENT_CONNECTION_DISCONNECTED (str ''tcp connection disconnected''))) cb) (pending_calls w)"
proof -
  have ok: "conn_ok w" "thread_id w = c_self env" "0 < refs w" using assms(1) by (simp_all add: open_in_loop_def conn_ok_def)
  let ?f = "RpcClient_onConnection (recording env)" and ?g = "\<lambda>w. Some (TcpClient_SetConnected False w)"
  let ?cbs = "(c_cbs env)\<lparr>connectionCallback := Some ?f, closeCallback := Some ?g\<rparr>"
  obtain k' where h: "TcpConnection_handleClose (c_sys env) (c_junk env) ?cbs w =
    (let w2 = w\<lparr>cstate := Disconnected, chans := (chans w)(chp w \<mapsto> Channel_new (sockfd w)), kern := k'\<rparr>
     in Option.bind (invoke (connectionCallback ?cbs) w2) (invoke (closeCallback ?cbs)))"
    using handleClose_steps [OF ok(1)] by blast
  let ?w2 = "w\<lparr>cstate := Disconnected, chans := (chans w)(chp w \<mapsto> Channel_new (sockfd w)), kern := k'\<rparr>"
  let ?y = "?w2\<lparr>refs := refs ?w2 + 1\<rparr>"
  have y: "cstate ?y = Disconnected" "thread_id ?y = c_self env" "\<not> pending_locked ?y" "cli_stopped ?y \<longrightarrow> pending_calls ?y = []"
    using ok(2) assms(2,3) by simp_all
  obtain z where z: "?f ?y = Some z" "pending_calls z = []" "conn_core z = conn_core ?y" "\<not> pending_locked z"
    "answered z = answered w @ List.map_filter (\<lambda>(i, cb). map_option (\<lambda>u. (u,
      make_response i CLIENT_CONNECTION_DISCONNECTED (str ''tcp connection disconnected''))) cb) (pending_calls w)"
    using onConnection_closed [OF y] by auto
  have core: "refs z = Suc (refs w)" "chans z (chp z) = Some (Channel_new (sockfd w))" "cstate z = Disconnected"
    using z(3) by (simp_all add: conn_core_def)
  let ?z = "z\<lparr>refs := refs w\<rparr>"
  have 1: "invoke (Some ?f) ?w2 = Some ?z"
    using z(1) release_back [OF ok(3) core(1)] by (simp add: invoke_def alive_def)
  let ?v = "z\<lparr>refs := Suc (refs w), tc_connected := False\<rparr>"
  have "release ?v = ?v\<lparr>refs := refs w\<rparr>" by (rule release_back [OF ok(3)]) simp
  then have 2: "invoke (Some ?g) ?z = Some (?v\<lparr>refs := refs w\<rparr>)"
    using core(2) by (simp add: invoke_def alive_def TcpClient_SetConnected_def)
  have "client_disconnects (recording env) w = Some (?v\<lparr>refs := refs w\<rparr>)"
    using h 1 2 by (simp add: client_disconnects_def hangup_event [OF ok(1)] Let_def)
  then show ?thesis using z core(3) by simp
qed

section \<open>Properties\<close>

text \<open>
  C7. The connection is lost in any reachable state of the whole system, with calls queued, on the wire, in the server's
  queue, being executed or on their way back: the client's loop gets through \<open>handleClose\<close>, and then every callback has been
  called exactly once, those that still waited with \<open>CLIENT_CONNECTION_DISCONNECTED\<close> and the id of their call,
  nobody waits, and a later call, on any thread, is answered at once with \<open>CLIENT_NOT_RUNNING\<close>.
\<close>

theorem lost_connection_answers_everybody:
  assumes "sys_reachable nw cenv env s" and "codec_fits (c_ser cenv) (e_parse env)" and "codec_fits (e_ser env) (c_parse cenv)"
  shows "\<exists>c. client_disconnects (recording cenv) (cli s) = Some c \<and> cstate c = Disconnected \<and> pending_calls c = [] \<and>
    image_mset fst (mset (answered c)) = sum_list (map (users_of \<circ> snd) (calls_made s)) \<and>
    mset (answered c) = mset (answered (cli s)) +
      dropped CLIENT_CONNECTION_DISCONNECTED (str ''tcp connection disconnected'') (pending_calls (cli s)) \<and>
    (\<forall>j i svc meth body u t. \<exists>c'. RpcClient_CallRaw (recording (cenv\<lparr>c_self := j\<rparr>)) i svc meth body (Some u) t c = Some (Call_returned, c') \<and>
       pending_calls c' = [] \<and> answered c' = answered c @ [(u, make_response i CLIENT_NOT_RUNNING (str ''client stopped/disconnected''))])"
proof -
  note inv = sys_reachable_inv [OF assms, unfolded sys_inv_def]
  have e: "open_in_loop (c_self cenv) (cli s)" "\<not> pending_locked (cli s)" using inv by (simp_all add: ends_ok_def)
  have st: "cli_stopped (cli s) \<longrightarrow> pending_calls (cli s) = []" using inv by (simp add: call_inv_def call_abs_def)
  obtain c where c: "client_disconnects (recording cenv) (cli s) = Some c" "cstate c = Disconnected" "\<not> tc_connected c"
    "\<not> pending_locked c" "pending_calls c = []" "answered c = answered (cli s) @ List.map_filter (\<lambda>(i, cb). map_option (\<lambda>u. (u,
      make_response i CLIENT_CONNECTION_DISCONNECTED (str ''tcp connection disconnected''))) cb) (pending_calls (cli s))"
    using disconnect_drops [OF e st] by blast
  have m: "mset (answered c) = mset (answered (cli s)) +
      dropped CLIENT_CONNECTION_DISCONNECTED (str ''tcp connection disconnected'') (pending_calls (cli s))"
    using c(6) by (simp add: dropped_def)
  then have "image_mset fst (mset (answered c)) = image_mset fst (mset (answered (cli s))) + waiting_users (pending_calls (cli s))"
    by (simp add: users_dropped)
  moreover have "\<dots> = sum_list (map (users_of \<circ> snd) (calls_made s))"
    using inv by (simp add: call_inv_def call_abs_def users_made_def)
  ultimately show ?thesis using c(1-5) m by (intro exI [of _ c]) (simp add: RpcClient_CallRaw_def)
qed

theorem lost_connection_answers_everybody_witness:
  "\<exists>s c. sys_reachable 1 demo_cli_env demo_srv_env s \<and> client_disconnects (recording demo_cli_env) (cli s) = Some c \<and>
     pending_calls c = [] \<and> image_mset fst (mset (answered c)) = {#42#}"
proof -
  obtain s where s: "sys_reachable 1 demo_cli_env demo_srv_env s" "calls_made s = [(demo_request, Some 42)]" using demo_run by blast
  show ?thesis using lost_connection_answers_everybody [OF s(1) demo_fits] s by (auto simp: users_of_def)
qed

end
