(* ===== verification/ClientTimeouts.thy ===== *)
theory ClientTimeouts
  imports SystemViews
begin

text \<open>
  Calls that nobody answers: \<open>RpcClient::CallRaw\<close>, the functor that sets the timer, and \<open>EventLoop\<close>'s \<open>Tick\<close> with the
  timeout lambdas, put together. Nothing is assumed of the clock: a timer may fire early, as
  \<open>TimeWheelModel\<close> shows, but not later than the turns of the wheel that its delay amounts to.
\<close>

section \<open>The wheel under any clock\<close>

text \<open>The scan of a slot: each live node fires, or stays with one round less, and then had a round left.\<close>

lemma tick_slot_any_clock:
  fixes w :: "'c wheel"
  assumes "wheel_inv w" and "drop i (cur_list w) = l" and "i \<le> length (cur_list w)"
  shows "\<exists>w' (fire :: 'c timer_node list) keep. tick_slot clock (quiet f) i (w, s) = Some (w', fold f (map tn_cb fire) s) \<and>
    slots w' = (slots w)[nat (current_slot w) := take i (cur_list w) @ map next_round keep] \<and>
    current_slot w' = current_slot w \<and> set fire \<union> set keep = {n \<in> set l. \<not> tn_isDeleted n} \<and> (\<forall>n \<in> set keep. tn_rounds n \<noteq> 0)"
  using assms
proof (induction l arbitrary: i w s)
  case Nil
  then have "take i (cur_list w) = cur_list w" by simp
  then show ?case using Nil by (subst tick_slot.simps) (auto simp: Let_def intro!: exI [of _ "[]"])
next
  case (Cons n l)
  have i: "i < length (cur_list w)" using Cons.prems(2) by (rule_tac ccontr) simp
  have n: "cur_list w ! i = n" "drop (Suc i) (cur_list w) = l"
    using Cons.prems(2) i by (simp_all add: Cons_nth_drop_Suc [symmetric])
  let ?t = "expiry_test clock n w"
  have upd: "(slots w)[nat (current_slot w) := x] ! nat (current_slot w) = x" for x
    by (rule cur_update [OF Cons.prems(1)])
  have ti: "take i (take i (cur_list w) @ x) = take i (cur_list w)" for x using i by simp
  consider (del) "tn_isDeleted n" | (fire) "\<not> tn_isDeleted n" "fst ?t" | (skip) "tn_rounds n \<noteq> 0" "\<not> fst ?t" "\<not> tn_isDeleted n"
  proof (cases "tn_rounds n = 0")
    case True
    then show thesis using del fire by (auto simp: expiry_test_def)
  next
    case False
    then show thesis using del fire skip by blast
  qed
  then show ?case
  proof cases
    case del
    let ?w = "erase_at i w"
    have cur: "cur_list ?w = take i (cur_list w) @ l" using n upd by (simp add: erase_at_def)
    have dl: "drop i (cur_list ?w) = l" "i \<le> length (cur_list ?w)" unfolding cur using i by simp_all
    have inv': "wheel_inv ?w" using wheel_inv_erase_at [of w i] Cons.prems(1) i by simp
    obtain w' fire keep where "tick_slot clock (quiet f) i (?w, s) = Some (w', fold f (map tn_cb fire) s)"
      "slots w' = (slots ?w)[nat (current_slot ?w) := take i (cur_list ?w) @ map next_round keep]"
      "current_slot w' = current_slot ?w" "set fire \<union> set keep = {n \<in> set l. \<not> tn_isDeleted n}" "\<forall>n \<in> set keep. tn_rounds n \<noteq> 0"
      using Cons.IH [OF inv' dl, of s] by blast
    then show ?thesis using del i n unfolding cur ti
      by (intro exI [of _ w'] exI [of _ fire] exI [of _ keep]) (subst tick_slot.simps, auto simp: Let_def erase_at_def)
  next
    case fire
    let ?w = "erase_at i (snd ?t)"
    have cur: "cur_list ?w = take i (cur_list w) @ l" using n upd by (simp add: erase_at_def)
    have dl: "drop i (cur_list ?w) = l" "i \<le> length (cur_list ?w)" unfolding cur using i by simp_all
    have inv': "wheel_inv ?w" using wheel_inv_erase_at [of "snd ?t" i] Cons.prems(1) i by simp
    obtain w' fd keep where "tick_slot clock (quiet f) i (?w, f (tn_cb n) s) = Some (w', fold f (map tn_cb fd) (f (tn_cb n) s))"
      "slots w' = (slots ?w)[nat (current_slot ?w) := take i (cur_list ?w) @ map next_round keep]"
      "current_slot w' = current_slot ?w" "set fd \<union> set keep = {n \<in> set l. \<not> tn_isDeleted n}" "\<forall>n \<in> set keep. tn_rounds n \<noteq> 0"
      using Cons.IH [OF inv' dl, of "f (tn_cb n) s"] by blast
    moreover have "fire_at clock (quiet f) i (snd ?t, s) = (?w, f (tn_cb n) s)"
      using n by (simp add: fire_at_def quiet_def run_timer_ops_def)
    ultimately show ?thesis using fire i n unfolding cur ti
      by (intro exI [of _ w'] exI [of _ "n # fd"] exI [of _ keep]) (subst tick_slot.simps, auto simp: Let_def erase_at_def)
  next
    case skip
    let ?w = "skip_at i (snd ?t)"
    have cur: "cur_list ?w = take i (cur_list w) @ next_round n # l"
      using n upd i by (simp add: skip_at_def set_cur_def next_round_def upd_conv_take_nth_drop)
    have len: "length (take i (cur_list w)) = i" using i by simp
    have r: "tn_rounds (cur_list (snd ?t) ! i) \<noteq> 0" using skip n by simp
    have dl: "drop (Suc i) (cur_list ?w) = l" "Suc i \<le> length (cur_list ?w)" unfolding cur using i by simp_all
    have inv': "wheel_inv ?w" using wheel_inv_skip_at [OF _ _ r] Cons.prems(1) i by simp
    obtain w' fd keep where "tick_slot clock (quiet f) (Suc i) (?w, s) = Some (w', fold f (map tn_cb fd) s)"
      "slots w' = (slots ?w)[nat (current_slot ?w) := take (Suc i) (cur_list ?w) @ map next_round keep]"
      "current_slot w' = current_slot ?w" "set fd \<union> set keep = {n \<in> set l. \<not> tn_isDeleted n}" "\<forall>n \<in> set keep. tn_rounds n \<noteq> 0"
      using Cons.IH [OF inv' dl, of s] by blast
    moreover have "take (Suc i) (cur_list ?w) = take i (cur_list w) @ [next_round n]"
      unfolding cur using len by simp
    ultimately show ?thesis using skip i n
      by (intro exI [of _ w'] exI [of _ fd] exI [of _ "n # keep"])
        (subst tick_slot.simps, auto simp: Let_def skip_at_def set_cur_def)
  qed
qed

text \<open>A live node and the turns it has left.\<close>

definition live_node :: "'c wheel \<Rightarrow> 'c \<Rightarrow> int \<Rightarrow> bool" where
  "live_node w cb d \<longleftrightarrow> (\<exists>k n. node_at w k n \<and> \<not> tn_isDeleted n \<and> tn_cb n = cb \<and> turns_left w k n = d)"

definition wheel_cbs :: "'c wheel \<Rightarrow> 'c set" where
  "wheel_cbs w = {tn_cb n | k n. node_at w k n}"

lemma live_nodeI: "node_at w k n \<Longrightarrow> \<not> tn_isDeleted n \<Longrightarrow> live_node w (tn_cb n) (turns_left w k n)"
  by (auto simp: live_node_def)

lemma live_node_nonneg: "wheel_inv w \<Longrightarrow> live_node w cb d \<Longrightarrow> 0 \<le> d"
  by (auto simp: live_node_def wheel_inv_def turns_left_def)

lemma one_turn_any_clock:
  fixes w :: "'c wheel"
  assumes inv: "wheel_inv w"
  shows "\<exists>w' (fire :: 'c timer_node list). tick_slot clock (quiet f) 0 (w, s) = Some (w', fold f (map tn_cb fire) s) \<and>
    (let v = w'\<lparr>current_slot := (current_slot w' + 1) smod WHEEL_SIZE\<rparr> in wheel_inv v \<and>
      (\<forall>cb d. live_node w cb d \<longrightarrow> cb \<in> tn_cb ` set fire \<or> live_node v cb (d - 1)) \<and>
      tn_cb ` set fire \<subseteq> wheel_cbs w \<and> wheel_cbs v \<subseteq> wheel_cbs w)"
proof -
  have c: "0 \<le> current_slot w" "current_slot w < 1024" using inv by (simp_all add: wheel_inv_def WHEEL_SIZE_def)
  let ?k = "nat (current_slot w)"
  have len: "?k < length (slots w)" "length (slots w) = 1024"
    using cur_in_range [OF inv] inv by (simp_all add: wheel_inv_def)
  obtain w' and fire keep :: "'c timer_node list" where w': "tick_slot clock (quiet f) 0 (w, s) = Some (w', fold f (map tn_cb fire) s)"
    "slots w' = (slots w)[?k := map next_round keep]" "current_slot w' = current_slot w"
    "set fire \<union> set keep = {n \<in> set (cur_list w). \<not> tn_isDeleted n}" "\<forall>n \<in> set keep. tn_rounds n \<noteq> 0"
    using tick_slot_any_clock [OF inv, of 0 "cur_list w" clock f s] by auto
  let ?v = "w'\<lparr>current_slot := (current_slot w' + 1) smod WHEEL_SIZE\<rparr>"
  have invv: "wheel_inv ?v" using tick_slot_inv [OF w'(1)] inv wheel_inv_advance by simp
  have cv: "current_slot ?v = (current_slot w + 1) mod 1024" using c by (simp add: w' smod_nonneg WHEEL_SIZE_def)
  have at: "node_at ?v k n \<longleftrightarrow> (if k = ?k then n \<in> next_round ` set keep else node_at w k n)" for k n
    using len by (auto simp: node_at_def w')
  have old: "n \<in> set fire \<union> set keep \<Longrightarrow> node_at w ?k n" for n using len by (simp add: w'(4) node_at_def)
  have live: "cb \<in> tn_cb ` set fire \<or> live_node ?v cb (d - 1)" if ln: "live_node w cb d" for cb d
  proof -
    obtain k n where n: "node_at w k n" "\<not> tn_isDeleted n" "tn_cb n = cb" "turns_left w k n = d"
      using ln by (auto simp: live_node_def)
    show ?thesis
    proof (cases "k = ?k")
      case True
      then have "n \<in> set fire \<union> set keep" using n(1,2) len by (simp add: w'(4) node_at_def)
      then show ?thesis
      proof
        assume "n \<in> set keep"
        then have "node_at ?v ?k (next_round n)" by (simp add: at)
        moreover have "turns_left ?v ?k (next_round n) = d - 1"
          using shift_mod(1) [of "int ?k" "current_slot w"] c n(4) True by (simp add: turns_left_def cv next_round_def)
        ultimately show ?thesis using n(2,3) live_nodeI [of ?v ?k "next_round n"] by (simp add: next_round_def)
      qed (use n(3) in auto)
    next
      case False
      have k: "k < 1024" using n(1) len by (simp add: node_at_def)
      have nz: "(int k - current_slot w) mod 1024 \<noteq> 0" using slot_at_cur [OF c k] False by simp
      have "turns_left ?v k n = d - 1" using shift_mod(2) [OF nz] n(4) by (simp add: turns_left_def cv)
      then show ?thesis using n False at [of k n] by (auto simp: live_node_def)
    qed
  qed
  have sub: "wheel_cbs ?v \<subseteq> wheel_cbs w"
    unfolding wheel_cbs_def
  proof clarify
    fix k n assume n: "node_at ?v k n"
    show "\<exists>k' n'. tn_cb n = tn_cb n' \<and> node_at w k' n'"
    proof (cases "k = ?k")
      case True
      then obtain n' where "n' \<in> set keep" "n = next_round n'" using n at by auto
      then show ?thesis using old [of n'] by (intro exI [of _ ?k] exI [of _ n']) (simp add: next_round_def)
    qed (use n at in auto)
  qed
  have "tn_cb ` set fire \<subseteq> wheel_cbs w" using old unfolding wheel_cbs_def by blast
  moreover have "\<forall>cb d. live_node w cb d \<longrightarrow> cb \<in> tn_cb ` set fire \<or> live_node ?v cb (d - 1)" using live by blast
  ultimately show ?thesis unfolding Let_def using w'(1) invv sub by (intro exI [of _ w'] exI [of _ fire] conjI) assumption+
qed

lemma ticks_any_clock:
  fixes w :: "'c wheel"
  assumes "wheel_inv w"
  shows "\<exists>w' cbs. tick_steps clock (quiet f) m (w, s) = Some (w', fold f cbs s) \<and> wheel_inv w' \<and>
    (\<forall>cb d. live_node w cb d \<longrightarrow> cb \<in> set cbs \<or> live_node w' cb (d - int m)) \<and>
    set cbs \<subseteq> wheel_cbs w \<and> wheel_cbs w' \<subseteq> wheel_cbs w"
  using assms
proof (induction m arbitrary: w s)
  case 0
  then show ?case by (intro exI [of _ w] exI [of _ "[]"]) simp
next
  case (Suc m)
  obtain w1 and fire :: "'c timer_node list" where t: "tick_slot clock (quiet f) 0 (w, s) = Some (w1, fold f (map tn_cb fire) s)"
    and v: "let v = w1\<lparr>current_slot := (current_slot w1 + 1) smod WHEEL_SIZE\<rparr> in wheel_inv v \<and>
      (\<forall>cb d. live_node w cb d \<longrightarrow> cb \<in> tn_cb ` set fire \<or> live_node v cb (d - 1)) \<and>
      tn_cb ` set fire \<subseteq> wheel_cbs w \<and> wheel_cbs v \<subseteq> wheel_cbs w"
    using one_turn_any_clock [OF Suc.prems, of clock f s] by blast
  let ?v = "w1\<lparr>current_slot := (current_slot w1 + 1) smod WHEEL_SIZE\<rparr>"
  have v': "wheel_inv ?v" "\<And>cb d. live_node w cb d \<Longrightarrow> cb \<in> tn_cb ` set fire \<or> live_node ?v cb (d - 1)"
    "tn_cb ` set fire \<subseteq> wheel_cbs w" "wheel_cbs ?v \<subseteq> wheel_cbs w"
    using v by (simp_all add: Let_def)
  obtain w' cbs where IH: "tick_steps clock (quiet f) m (?v, fold f (map tn_cb fire) s) = Some (w', fold f cbs (fold f (map tn_cb fire) s))"
    "wheel_inv w'" "\<forall>cb d. live_node ?v cb d \<longrightarrow> cb \<in> set cbs \<or> live_node w' cb (d - int m)"
    "set cbs \<subseteq> wheel_cbs ?v" "wheel_cbs w' \<subseteq> wheel_cbs ?v"
    using Suc.IH [OF v'(1), of "fold f (map tn_cb fire) s"] by blast
  have "cb \<in> set (map tn_cb fire @ cbs) \<or> live_node w' cb (d - int (Suc m))" if "live_node w cb d" for cb d
  proof -
    have e: "d - 1 - int m = d - int (Suc m)" by simp
    show ?thesis using v'(2) [OF that] IH(3) unfolding e [symmetric] by auto
  qed
  moreover have "tick_steps clock (quiet f) (Suc m) (w, s) = Some (w', fold f (map tn_cb fire @ cbs) s)" using t IH(1) by simp
  moreover have "set (map tn_cb fire @ cbs) \<subseteq> wheel_cbs w" using v'(3) subset_trans [OF IH(4) v'(4)] by simp
  moreover have "wheel_cbs w' \<subseteq> wheel_cbs w" by (rule subset_trans [OF IH(5) v'(4)])
  ultimately show ?case using IH(2) by (intro exI [of _ w'] exI [of _ "map tn_cb fire @ cbs"] conjI) blast+
qed

section \<open>The client's timers\<close>

text \<open>
  What the loop does for a timeout lambda, with callbacks that are recorded. Every timer of a client's loop is one of
  these. \<open>tick_run n\<close> is any number of calls of \<open>Tick\<close> in which the wheel makes \<open>n\<close> turns altogether.
\<close>

definition timeout_response :: "bytes \<Rightarrow> rpc_response" where
  "timeout_response i = make_response i CLIENT_REQUEST_TIMEOUT (str ''request timeout'')"

definition timeout_step ::
  "('k, 'u, 'z) client_env \<Rightarrow> conn_cb \<Rightarrow> ('k, 'u, 'z) client_world_scheme \<Rightarrow> ('k, 'u, 'z) client_world_scheme" where
  "timeout_step env cb w = (case cb of CB_layer i \<Rightarrow> the (RpcClient_on_timeout (recording env) i w) | _ \<Rightarrow> w)"

definition turns :: "(nat \<Rightarrow> int) \<Rightarrow> 'c wheel \<Rightarrow> nat" where
  "turns clock w = nat (elapsed_ticks (clock (clock_reads w)) w)"

inductive tick_run ::
  "('k, 'u, 'z) client_env \<Rightarrow> nat \<Rightarrow> ('k, 'u, 'z) client_world_scheme \<Rightarrow> ('k, 'u, 'z) client_world_scheme \<Rightarrow> bool"
  for env where
  no_tick: "tick_run env 0 w w"
| tick: "EventLoop_tick (c_clock env) (quiet (timeout_step env)) w = Some v \<Longrightarrow> tick_run env n v w' \<Longrightarrow>
     tick_run env (turns (c_clock env) (timer w) + n) w w'"

lemma timeout_id [simp]: "rs_request_id (timeout_response i) = i"
  by (simp add: timeout_response_def make_response_def)

lemma timeout_step_effect:
  "client_rest (timeout_step env (CB_layer i) w) = client_effect (timeout_response i) (client_rest w)"
  by (simp add: timeout_step_def RpcClient_on_timeout_def take_pending_spec respond_recording client_rest_def client_effect_def
      Let_def timeout_response_def make_response_def split: option.splits)

lemma timeouts_effect:
  "client_rest (fold (timeout_step env) (map CB_layer ids) w) = fold client_effect (map timeout_response ids) (client_rest w)"
  by (induction ids arbitrary: w) (simp_all add: timeout_step_effect)

definition timers_ok :: "('k, 'u, 'z) client_world_scheme \<Rightarrow> bool" where
  "timers_ok w \<longleftrightarrow> wheel_inv (timer w) \<and> wheel_cbs (timer w) \<subseteq> range CB_layer"

lemma live_node_clock [simp]:
  "live_node (w\<lparr>clock_reads := c\<rparr>) = live_node w" "live_node (w\<lparr>last_tick_time := x\<rparr>) = live_node w"
  "wheel_cbs (w\<lparr>clock_reads := c\<rparr>) = wheel_cbs w" "wheel_cbs (w\<lparr>last_tick_time := x\<rparr>) = wheel_cbs w"
  by (simp_all add: live_node_def wheel_cbs_def node_at_def turns_left_def fun_eq_iff)

lemma tick_fires:
  fixes w :: "('k, 'u, 'z) client_world_scheme"
  assumes "timers_ok w"
  shows "\<exists>w' ids. EventLoop_tick clock (quiet (timeout_step env)) w = Some w' \<and> timers_ok w' \<and>
    client_rest w' = fold client_effect (map timeout_response ids) (client_rest w) \<and>
    (\<forall>i d. live_node (timer w) (CB_layer i) d \<longrightarrow> i \<in> set ids \<or> live_node (timer w') (CB_layer i) (d - int (turns clock (timer w))))"
proof -
  let ?tm = "timer w" and ?now = "clock (clock_reads (timer w))"
  let ?tm' = "?tm\<lparr>clock_reads := clock_reads ?tm + 1\<rparr>" and ?m = "turns clock (timer w)"
  have inv: "wheel_inv ?tm'" "wheel_cbs ?tm' \<subseteq> range CB_layer" using assms by (simp_all add: timers_ok_def)
  obtain tm cbs where t: "tick_steps clock (quiet (timeout_step env)) ?m (?tm', w) = Some (tm, fold (timeout_step env) cbs w)"
    "wheel_inv tm" "\<forall>cb d. live_node ?tm' cb d \<longrightarrow> cb \<in> set cbs \<or> live_node tm cb (d - int ?m)"
    "set cbs \<subseteq> wheel_cbs ?tm'" "wheel_cbs tm \<subseteq> wheel_cbs ?tm'"
    using ticks_any_clock [OF inv(1), of clock "timeout_step env" ?m w] by blast
  have "\<forall>cb \<in> set cbs. \<exists>i. cb = CB_layer i" using t(4) inv(2) by blast
  then obtain ids where ids: "cbs = map CB_layer ids" by (metis ex_map_conv)
  let ?v = "fold (timeout_step env) cbs w"
  show ?thesis
  proof (cases "elapsed_ticks ?now ?tm = 0")
    case True
    then have "?m = 0" by (simp add: turns_def)
    then have "tm = ?tm'" "?v = w" using t(1) by simp_all
    then have "EventLoop_tick clock (quiet (timeout_step env)) w = Some (w\<lparr>timer := ?tm'\<rparr>)"
      using True by (simp add: EventLoop_tick_def TimeWheel_Tick_def Let_def)
    then show ?thesis using inv \<open>?m = 0\<close>
      by (intro exI [of _ "w\<lparr>timer := ?tm'\<rparr>"] exI [of _ "[]"]) (simp add: timers_ok_def client_rest_def)
  next
    case False
    let ?w' = "?v\<lparr>timer := tm\<lparr>last_tick_time := ?now\<rparr>\<rparr>"
    have "EventLoop_tick clock (quiet (timeout_step env)) w = Some ?w'"
      using False t(1) by (simp add: EventLoop_tick_def TimeWheel_Tick_def turns_def Let_def)
    moreover have "timers_ok ?w'" using t(2,5) inv(2) by (auto simp: timers_ok_def)
    moreover have "client_rest ?w' = fold client_effect (map timeout_response ids) (client_rest w)"
      using timeouts_effect [of env ids w] by (simp add: ids client_rest_def)
    moreover have "i \<in> set ids \<or> live_node (timer ?w') (CB_layer i) (d - int ?m)" if "live_node ?tm (CB_layer i) d" for i d
      using t(3) that by (auto simp: ids)
    ultimately show ?thesis by blast
  qed
qed

lemma tick_run_fires:
  fixes w :: "('k, 'u, 'z) client_world_scheme"
  assumes "tick_run env n w w'" and "timers_ok w"
  shows "timers_ok w' \<and> (\<exists>ids. client_rest w' = fold client_effect (map timeout_response ids) (client_rest w) \<and>
    (\<forall>i d. live_node (timer w) (CB_layer i) d \<longrightarrow> i \<in> set ids \<or> live_node (timer w') (CB_layer i) (d - int n)))"
  using assms
proof (induction)
  case (no_tick w)
  then show ?case by (intro conjI exI [of _ "[]"]) simp_all
next
  case (tick w v n w')
  obtain ids where v: "timers_ok v" "client_rest v = fold client_effect (map timeout_response ids) (client_rest w)"
    "\<forall>i d. live_node (timer w) (CB_layer i) d \<longrightarrow>
       i \<in> set ids \<or> live_node (timer v) (CB_layer i) (d - int (turns (c_clock env) (timer w)))"
    using tick_fires [OF tick.prems, of "c_clock env" env] tick.hyps(1) by auto
  obtain ids' where w': "timers_ok w'" "client_rest w' = fold client_effect (map timeout_response ids') (client_rest v)"
    "\<forall>i d. live_node (timer v) (CB_layer i) d \<longrightarrow> i \<in> set ids' \<or> live_node (timer w') (CB_layer i) (d - int n)"
    using tick.IH [OF v(1)] by blast
  have "i \<in> set (ids @ ids') \<or> live_node (timer w') (CB_layer i) (d - int (turns (c_clock env) (timer w) + n))"
    if "live_node (timer w) (CB_layer i) d" for i d
  proof -
    have e: "d - int (turns (c_clock env) (timer w)) - int n = d - int (turns (c_clock env) (timer w) + n)" by simp
    show ?thesis using v(3) w'(3) that unfolding e [symmetric] by auto
  qed
  then show ?case using w'(1,2) v(2) by (intro conjI exI [of _ "ids @ ids'"]) simp_all
qed

lemma AddTimer_live:
  assumes inv: "wheel_inv w" and d: "0 \<le> d" and new: "timer_map w ident = None"
  shows "live_node (TimeWheel_AddTimer clock ident cb d w) cb (d div tick_ms w) \<and>
    wheel_cbs (TimeWheel_AddTimer clock ident cb d w) \<subseteq> insert cb (wheel_cbs w)"
proof -
  let ?w = "TimeWheel_AddTimer clock ident cb d w"
  let ?q = "d div tick_ms w"
  let ?k = "nat ((current_slot w + ?q) mod 1024)"
  let ?n = "\<lparr>tn_id = ident, tn_cb = cb, tn_expire = clock (clock_reads w) + d * ns_per_ms,
    tn_isDeleted = False, tn_rounds = ?q div 1024, tn_ref = next_ref w\<rparr>"
  note tgt = AddTimer_target [OF inv d]
  have k: "?k < length (slots w)" using inv by (simp add: wheel_inv_def)
  have w: "slots ?w = (slots w)[?k := slots w ! ?k @ [?n]]" "current_slot ?w = current_slot w"
    using d new tgt by (simp_all add: TimeWheel_AddTimer_def Let_def)
  have at: "node_at ?w j n \<longleftrightarrow> node_at w j n \<or> j = ?k \<and> n = ?n" for j n
    using k by (auto simp: node_at_def w nth_list_update)
  have "int ?k = (current_slot w + ?q) mod 1024" by simp
  then have "(int ?k - current_slot w) mod 1024 = ?q mod 1024" by (simp add: mod_diff_left_eq)
  then have "turns_left ?w ?k ?n = ?q" by (simp add: turns_left_def w)
  moreover have "node_at ?w ?k ?n" by (simp add: at)
  ultimately have "live_node ?w cb ?q" using live_nodeI [of ?w ?k ?n] by simp
  moreover have "wheel_cbs ?w \<subseteq> insert cb (wheel_cbs w)" by (auto simp: wheel_cbs_def at)
  ultimately show ?thesis by simp
qed

section \<open>Properties\<close>

text \<open>
  C11. A call that is never answered times out. \<open>CallRaw\<close> on a thread other than the loop's registers the call; when the loop has
  run the two functors it queued, \<open>Tick\<close> always returns, whatever the clock does and whatever other timeouts are set, and
  as soon as the wheel has made more turns than the timeout has ticks, the callback has been called, once, with
  \<open>CLIENT_REQUEST_TIMEOUT\<close> and the id of the call, and the call is no longer pending. The
  timeout is not negative and no timer is set under the same 32 bits of the hash of the id; otherwise no timer
  is set at all.
\<close>

theorem unanswered_call_times_out:
  fixes w :: "('k, 'u, 'z) client_world_scheme" and i svc meth body :: bytes and t :: int
  assumes "conn_ok w" and "thread_id w \<noteq> c_self env" and "\<not> pending_locked w" and "has_connection w"
    and "\<not> cli_stopped w" and "tc_connected w"
    and "Codec_encode (c_ser env) (RpcRequest_new\<lparr>rq_service_name := svc, rq_method_name := meth, rq_request_id := i,
      rq_body := body\<rparr>) = Some frame"
    and "timers_ok w" and "0 \<le> t" and "timer_map (timer w) (timer_id env i) = None"
  shows "\<exists>w1 w2. RpcClient_CallRaw (recording env) i svc meth body (Some u) t w = Some (Call_returned, w1) \<and>
    run_functors (c_clock env) (client_call env) (drop (length (pending w)) (pending w1)) w1 = Some w2 \<and>
    timer w2 = TimeWheel_AddTimer (c_clock env) (timer_id env i) (CB_layer i) t (timer w) \<and>
    (\<forall>n w3. tick_run env n w2 w3 \<longrightarrow>
      (\<exists>w4. EventLoop_tick (c_clock env) (quiet (timeout_step env)) w3 = Some w4) \<and>
      (t div tick_ms (timer w) < int n \<longrightarrow>
        (\<exists>new. answered w3 = answered w @ new \<and> filter (\<lambda>(v, r). rs_request_id r = i) new = [(u, timeout_response i)]) \<and>
        map_of (pending_calls w3) i = None))"
proof -
  obtain w1 w2 where w2: "RpcClient_CallRaw (recording env) i svc meth body (Some u) t w = Some (Call_returned, w1)"
    "run_functors (c_clock env) (client_call env) (drop (length (pending w)) (pending w1)) w1 = Some w2"
    "timer w2 = TimeWheel_AddTimer (c_clock env) (timer_id env i) (CB_layer i) t (timer w)"
    "answered w2 = answered w" "pending_calls w2 = AList.update i (Some u) (pending_calls w)"
    using CallRaw_other_thread [OF assms(1-7), where cbs = "c_cbs env" and u = u and t = t] by (auto simp: client_call_def)
  have inv: "wheel_inv (timer w)" "wheel_cbs (timer w) \<subseteq> range CB_layer" using assms(8) by (simp_all add: timers_ok_def)
  note at = AddTimer_live [OF inv(1) assms(9,10), of "c_clock env" "CB_layer i"]
  have ok2: "timers_ok w2"
    using at inv wheel_inv_AddTimer [OF inv(1)] by (auto simp: timers_ok_def w2(3))
  have live: "live_node (timer w2) (CB_layer i) (t div tick_ms (timer w))" using at by (simp add: w2(3))
  have "(\<exists>w4. EventLoop_tick (c_clock env) (quiet (timeout_step env)) w3 = Some w4) \<and>
      (t div tick_ms (timer w) < int n \<longrightarrow>
        (\<exists>new. answered w3 = answered w @ new \<and> filter (\<lambda>(v, r). rs_request_id r = i) new = [(u, timeout_response i)]) \<and>
        map_of (pending_calls w3) i = None)" if run: "tick_run env n w2 w3" for n w3
  proof (intro conjI impI)
    obtain ids where ids: "timers_ok w3" "client_rest w3 = fold client_effect (map timeout_response ids) (client_rest w2)"
      "live_node (timer w2) (CB_layer i) d \<Longrightarrow> i \<in> set ids \<or> live_node (timer w3) (CB_layer i) (d - int n)" for d
      using tick_run_fires [OF run ok2] by blast
    show "\<exists>w4. EventLoop_tick (c_clock env) (quiet (timeout_step env)) w3 = Some w4"
      using tick_fires [OF ids(1), of "c_clock env" env] by blast
    assume "t div tick_ms (timer w) < int n"
    moreover have "0 \<le> d" if "live_node (timer w3) (CB_layer i) d" for d
      using live_node_nonneg [OF _ that] ids(1) by (simp add: timers_ok_def)
    ultimately have i: "i \<in> set ids" using ids(3) [OF live] by force
    obtain new where new: "fold client_effect (map timeout_response ids) (pending_calls w2, answered w2) =
        (fold AList.delete (map rs_request_id (map timeout_response ids)) (pending_calls w2), answered w2 @ new)"
      "filter (\<lambda>(u, m). rs_request_id m = i) new = (case (map_of (pending_calls w2) i,
         find (\<lambda>m. rs_request_id m = i) (map timeout_response ids)) of (Some (Some u), Some m) \<Rightarrow> [(u, m)] | _ \<Rightarrow> [])"
      using effect_responses [of "map timeout_response ids" "pending_calls w2" "answered w2"] by blast
    have fnd: "find (\<lambda>m. rs_request_id m = i) (map timeout_response ids) = Some (timeout_response i)"
      using i by (induction ids) auto
    have r3: "pending_calls w3 = fold AList.delete (map rs_request_id (map timeout_response ids)) (pending_calls w2)"
      "answered w3 = answered w @ new" using ids(2) new(1) w2(4) by (simp_all add: client_rest_def)
    have "filter (\<lambda>(u, m). rs_request_id m = i) new = [(u, timeout_response i)]"
      using new(2) fnd by (simp add: w2(5) update_conv')
    then show "\<exists>new. answered w3 = answered w @ new \<and> filter (\<lambda>(v, r). rs_request_id r = i) new = [(u, timeout_response i)]"
      using r3(2) by blast
    show "map_of (pending_calls w3) i = None" using i unfolding r3(1) by (simp add: map_of_fold_delete image_image)
  qed
  then show ?thesis using w2(1-3) by blast
qed

theorem unanswered_call_times_out_witness:
  "\<exists>w1 w2 w3. RpcClient_CallRaw (recording (demo_cenv 3 (\<lambda>_. 7)\<lparr>c_clock := \<lambda>k. int k * 50000000\<rparr>)) [7] [] [] [] (Some 42) 50
       (demo_client True []) = Some (Call_returned, w1) \<and>
     tick_run (demo_cenv 3 (\<lambda>_. 7)\<lparr>c_clock := \<lambda>k. int k * 50000000\<rparr>) 10 w2 w3 \<and>
     (\<exists>new. answered w3 = new \<and> filter (\<lambda>(v, r). rs_request_id r = [7]) new = [(42, timeout_response [7])])"
proof -
  let ?env = "demo_cenv 3 (\<lambda>_. 7)\<lparr>c_clock := \<lambda>k. int k * 50000000\<rparr>" and ?w = "demo_client True ([] :: (bytes \<times> nat option) list)"
  let ?tm = "TimeWheel_new (\<lambda>_. 0) 10 :: conn_cb wheel"
  have e: "Codec_encode (c_ser ?env) (RpcRequest_new\<lparr>rq_service_name := [], rq_method_name := [], rq_request_id := [7],
      rq_body := []\<rparr>) = Some (store_u32 (htonl 1) @ [7])" by (simp add: Codec_encode_def UINT32_MAX_def)
  have c: "conn_ok ?w" "thread_id ?w \<noteq> c_self ?env" "\<not> pending_locked ?w" "has_connection ?w" "\<not> cli_stopped ?w" "tc_connected ?w"
    by simp_all
  have t: "timers_ok ?w" "(0 :: int) \<le> 50" "timer_map (timer ?w) (timer_id ?env [7]) = None"
    using wheel_inv_new [of 10 "\<lambda>_. 0"] by (auto simp: timers_ok_def wheel_cbs_def node_at_def TimeWheel_new_def)
  obtain w1 w2 where w: "RpcClient_CallRaw (recording ?env) [7] [] [] [] (Some 42) 50 ?w = Some (Call_returned, w1)"
    "timer w2 = TimeWheel_AddTimer (c_clock ?env) (timer_id ?env [7]) (CB_layer [7]) 50 ?tm"
    and ticks: "\<And>n w3. tick_run ?env n w2 w3 \<Longrightarrow> (\<exists>w4. EventLoop_tick (c_clock ?env) (quiet (timeout_step ?env)) w3 = Some w4) \<and>
      (50 div tick_ms (timer ?w) < int n \<longrightarrow>
        (\<exists>new. answered w3 = answered ?w @ new \<and> filter (\<lambda>(v, r). rs_request_id r = [7]) new = [(42, timeout_response [7])]) \<and>
        map_of (pending_calls w3) [7] = None)"
    using unanswered_call_times_out [OF c e t, where u = 42] by auto
  obtain w3 where w3: "EventLoop_tick (c_clock ?env) (quiet (timeout_step ?env)) w2 = Some w3"
    using ticks [OF tick_run.no_tick] by blast
  have "turns (c_clock ?env) (timer w2) = 10"
    by (simp add: w(2) turns_def elapsed_ticks_def TimeWheel_AddTimer_def TimeWheel_new_def Let_def ns_per_ms_def sdiv_nonneg
        signed_take_bit_int_eq_self)
  then have r: "tick_run ?env 10 w2 w3" using tick_run.tick [OF w3 tick_run.no_tick] by simp
  have "50 div tick_ms (timer ?w) < int 10" by (simp add: TimeWheel_new_def)
  with ticks [OF r] have "\<exists>new. answered w3 = new \<and> filter (\<lambda>(v, r). rs_request_id r = [7]) new = [(42, timeout_response [7])]"
    by auto
  then show ?thesis using w(1) r by blast
qed

end
