(* ===== verification/ExampleMessages.thy ===== *)
theory ExampleMessages
  imports RpcWire
begin

text \<open>
  \<open>examples/proto/math.pb.cc\<close>, \<open>user.pb.cc\<close> and their headers: the business messages of the two example programs, which
  the library only carries as the body of an envelope. As in \<open>RpcMessages\<close> and \<open>RpcWire\<close>, a message is a record, the
  generated parser and serialiser are over the runtime's functions, and locale \<open>wire_roundtrip\<close> is their contract.
\<close>

section \<open>What the generated parsers share\<close>

definition int32_out :: "pb_runtime \<Rightarrow> nat \<Rightarrow> int \<Rightarrow> bytes" where
  "int32_out rt n v = (if v \<noteq> 0 then rt_WriteInt32 rt n v else [])"

definition int32_fits :: "int \<Rightarrow> bool" where
  "int32_fits v \<longleftrightarrow> - (2 ^ 31) \<le> v \<and> v < 2 ^ 31"

definition string_fits :: "pb_runtime \<Rightarrow> bytes \<Rightarrow> bool" where
  "string_fits rt s \<longleftrightarrow> rt_VerifyUTF8 rt s \<and> length s < 2 ^ 31"

text \<open>Reading one field that was written, for rewriting: the field number is an argument of the tag.\<close>

lemma read_int32:
  assumes "pb_laws rt" and "int32_fits v" and "0 < n" and "n < 16" and "tag = word_of_nat (8 * n)"
    and "\<And>ptr m. field tag ptr m = int32_field rt put ptr m"
  shows "parse_fields rt field unknown (int32_out rt n v @ r) m = parse_fields rt field unknown r (if v \<noteq> 0 then put v m else m)"
  using assms(2) unfolding int32_out_def int32_fits_def
  by (intro parse_int32 [OF assms(1,3,4)] assms(6) [unfolded assms(5)]) simp_all

lemma read_string:
  assumes "pb_laws rt" and "string_fits rt s" and "0 < n" and "n < 16" and "tag = word_of_nat (8 * n + 2)"
    and "\<And>ptr m. field tag ptr m = string_field rt True put ptr m"
  shows "parse_fields rt field unknown (string_out rt n s @ r) m = parse_fields rt field unknown r (if s \<noteq> [] then put s m else m)"
  using assms(2) unfolding string_fits_def
  by (intro parse_string [where check = True, OF assms(1,3,4)] assms(6) [unfolded assms(5)]) simp_all

lemmas read_int32_last = read_int32 [where r = "[]", unfolded append_Nil2]
lemmas read_string_last = read_string [where r = "[]", unfolded append_Nil2]

section \<open>AddRequest\<close>

record add_request =
  ar_a :: int
  ar_b :: int
  ar_unknown :: bytes

definition AddRequest_new :: add_request where
  "AddRequest_new = \<lparr>ar_a = 0, ar_b = 0, ar_unknown = []\<rparr>"

definition AddRequest_set_a :: "int \<Rightarrow> add_request \<Rightarrow> add_request" where
  "AddRequest_set_a v m = m\<lparr>ar_a := v\<rparr>"

definition AddRequest_set_b :: "int \<Rightarrow> add_request \<Rightarrow> add_request" where
  "AddRequest_set_b v m = m\<lparr>ar_b := v\<rparr>"

definition AddRequest_field :: "pb_runtime \<Rightarrow> 32 word \<Rightarrow> bytes option \<Rightarrow> add_request \<Rightarrow> add_request field_result option" where
  "AddRequest_field rt tag ptr m =
     (let low = (ucast tag :: 8 word); number = drop_bit 3 tag
      in if number = 1 \<and> low = 8 then int32_field rt AddRequest_set_a ptr m
         else if number = 2 \<and> low = 16 then int32_field rt AddRequest_set_b ptr m
         else Some Field_unusual)"

definition AddRequest_unknown :: "pb_runtime \<Rightarrow> 32 word \<Rightarrow> bytes \<Rightarrow> add_request \<Rightarrow> add_request \<times> bytes option" where
  "AddRequest_unknown rt tag ptr m = (let (u, q) = rt_UnknownFieldParse rt tag (ar_unknown m) ptr in (m\<lparr>ar_unknown := u\<rparr>, q))"

definition AddRequest_InternalParse :: "pb_runtime \<Rightarrow> bytes \<Rightarrow> add_request \<Rightarrow> (add_request \<times> bytes option \<times> 32 word) option" where
  "AddRequest_InternalParse rt = parse_fields rt (AddRequest_field rt) (AddRequest_unknown rt)"

definition AddRequest_InternalSerialize :: "pb_runtime \<Rightarrow> add_request \<Rightarrow> bytes" where
  "AddRequest_InternalSerialize rt m = int32_out rt 1 (ar_a m) @ int32_out rt 2 (ar_b m) @ ar_unknown m"

definition AddRequest_fits :: "pb_runtime \<Rightarrow> add_request \<Rightarrow> bool" where
  "AddRequest_fits rt m \<longleftrightarrow> int32_fits (ar_a m) \<and> int32_fits (ar_b m) \<and> ar_unknown m = []"

lemma AddRequest_fields:
  "AddRequest_field rt 8 ptr m = int32_field rt AddRequest_set_a ptr m"
  "AddRequest_field rt 16 ptr m = int32_field rt AddRequest_set_b ptr m"
  by (simp_all add: AddRequest_field_def)

interpretation ar: wire_roundtrip "AddRequest_InternalParse rt" "AddRequest_InternalSerialize rt" "\<lambda>m. pb_laws rt \<and> AddRequest_fits rt m" AddRequest_new
proof
  fix m assume "pb_laws rt \<and> AddRequest_fits rt m"
  then show "AddRequest_InternalParse rt (AddRequest_InternalSerialize rt m) AddRequest_new = Some (m, Some [], 0)"
    by (simp add: AddRequest_fits_def AddRequest_InternalParse_def AddRequest_InternalSerialize_def AddRequest_new_def parse_done
        read_int32 [where field = "AddRequest_field rt", OF _ _ _ _ _ AddRequest_fields(1)]
        read_int32_last [where field = "AddRequest_field rt", OF _ _ _ _ _ AddRequest_fields(2)] AddRequest_set_a_def AddRequest_set_b_def)
qed

section \<open>AddResponse\<close>

record add_response =
  ap_result :: int
  ap_unknown :: bytes

definition AddResponse_new :: add_response where
  "AddResponse_new = \<lparr>ap_result = 0, ap_unknown = []\<rparr>"

definition AddResponse_set_result :: "int \<Rightarrow> add_response \<Rightarrow> add_response" where
  "AddResponse_set_result v m = m\<lparr>ap_result := v\<rparr>"

definition AddResponse_field :: "pb_runtime \<Rightarrow> 32 word \<Rightarrow> bytes option \<Rightarrow> add_response \<Rightarrow> add_response field_result option" where
  "AddResponse_field rt tag ptr m =
     (let low = (ucast tag :: 8 word); number = drop_bit 3 tag
      in if number = 1 \<and> low = 8 then int32_field rt AddResponse_set_result ptr m
         else Some Field_unusual)"

definition AddResponse_unknown :: "pb_runtime \<Rightarrow> 32 word \<Rightarrow> bytes \<Rightarrow> add_response \<Rightarrow> add_response \<times> bytes option" where
  "AddResponse_unknown rt tag ptr m = (let (u, q) = rt_UnknownFieldParse rt tag (ap_unknown m) ptr in (m\<lparr>ap_unknown := u\<rparr>, q))"

definition AddResponse_InternalParse :: "pb_runtime \<Rightarrow> bytes \<Rightarrow> add_response \<Rightarrow> (add_response \<times> bytes option \<times> 32 word) option" where
  "AddResponse_InternalParse rt = parse_fields rt (AddResponse_field rt) (AddResponse_unknown rt)"

definition AddResponse_InternalSerialize :: "pb_runtime \<Rightarrow> add_response \<Rightarrow> bytes" where
  "AddResponse_InternalSerialize rt m = int32_out rt 1 (ap_result m) @ ap_unknown m"

definition AddResponse_fits :: "pb_runtime \<Rightarrow> add_response \<Rightarrow> bool" where
  "AddResponse_fits rt m \<longleftrightarrow> int32_fits (ap_result m) \<and> ap_unknown m = []"

lemma AddResponse_fields:
  "AddResponse_field rt 8 ptr m = int32_field rt AddResponse_set_result ptr m"
  by (simp_all add: AddResponse_field_def)

interpretation ap: wire_roundtrip "AddResponse_InternalParse rt" "AddResponse_InternalSerialize rt" "\<lambda>m. pb_laws rt \<and> AddResponse_fits rt m" AddResponse_new
proof
  fix m assume "pb_laws rt \<and> AddResponse_fits rt m"
  then show "AddResponse_InternalParse rt (AddResponse_InternalSerialize rt m) AddResponse_new = Some (m, Some [], 0)"
    by (simp add: AddResponse_fits_def AddResponse_InternalParse_def AddResponse_InternalSerialize_def AddResponse_new_def parse_done
        read_int32_last [where field = "AddResponse_field rt", OF _ _ _ _ _ AddResponse_fields] AddResponse_set_result_def)
qed

section \<open>GetUserRequest\<close>

record get_user_request =
  gq_user_id :: int
  gq_unknown :: bytes

definition GetUserRequest_new :: get_user_request where
  "GetUserRequest_new = \<lparr>gq_user_id = 0, gq_unknown = []\<rparr>"

definition GetUserRequest_set_user_id :: "int \<Rightarrow> get_user_request \<Rightarrow> get_user_request" where
  "GetUserRequest_set_user_id v m = m\<lparr>gq_user_id := v\<rparr>"

definition GetUserRequest_field :: "pb_runtime \<Rightarrow> 32 word \<Rightarrow> bytes option \<Rightarrow> get_user_request \<Rightarrow> get_user_request field_result option" where
  "GetUserRequest_field rt tag ptr m =
     (let low = (ucast tag :: 8 word); number = drop_bit 3 tag
      in if number = 1 \<and> low = 8 then int32_field rt GetUserRequest_set_user_id ptr m
         else Some Field_unusual)"

definition GetUserRequest_unknown :: "pb_runtime \<Rightarrow> 32 word \<Rightarrow> bytes \<Rightarrow> get_user_request \<Rightarrow> get_user_request \<times> bytes option" where
  "GetUserRequest_unknown rt tag ptr m = (let (u, q) = rt_UnknownFieldParse rt tag (gq_unknown m) ptr in (m\<lparr>gq_unknown := u\<rparr>, q))"

definition GetUserRequest_InternalParse :: "pb_runtime \<Rightarrow> bytes \<Rightarrow> get_user_request \<Rightarrow> (get_user_request \<times> bytes option \<times> 32 word) option" where
  "GetUserRequest_InternalParse rt = parse_fields rt (GetUserRequest_field rt) (GetUserRequest_unknown rt)"

definition GetUserRequest_InternalSerialize :: "pb_runtime \<Rightarrow> get_user_request \<Rightarrow> bytes" where
  "GetUserRequest_InternalSerialize rt m = int32_out rt 1 (gq_user_id m) @ gq_unknown m"

definition GetUserRequest_fits :: "pb_runtime \<Rightarrow> get_user_request \<Rightarrow> bool" where
  "GetUserRequest_fits rt m \<longleftrightarrow> int32_fits (gq_user_id m) \<and> gq_unknown m = []"

lemma GetUserRequest_fields:
  "GetUserRequest_field rt 8 ptr m = int32_field rt GetUserRequest_set_user_id ptr m"
  by (simp_all add: GetUserRequest_field_def)

interpretation gq: wire_roundtrip "GetUserRequest_InternalParse rt" "GetUserRequest_InternalSerialize rt" "\<lambda>m. pb_laws rt \<and> GetUserRequest_fits rt m" GetUserRequest_new
proof
  fix m assume "pb_laws rt \<and> GetUserRequest_fits rt m"
  then show "GetUserRequest_InternalParse rt (GetUserRequest_InternalSerialize rt m) GetUserRequest_new = Some (m, Some [], 0)"
    by (simp add: GetUserRequest_fits_def GetUserRequest_InternalParse_def GetUserRequest_InternalSerialize_def GetUserRequest_new_def parse_done
        read_int32_last [where field = "GetUserRequest_field rt", OF _ _ _ _ _ GetUserRequest_fields] GetUserRequest_set_user_id_def)
qed

section \<open>GetUserResponse\<close>

record get_user_response =
  gs_user_id :: int
  gs_name :: bytes
  gs_email :: bytes
  gs_unknown :: bytes

definition GetUserResponse_new :: get_user_response where
  "GetUserResponse_new = \<lparr>gs_user_id = 0, gs_name = [], gs_email = [], gs_unknown = []\<rparr>"

definition GetUserResponse_set_user_id :: "int \<Rightarrow> get_user_response \<Rightarrow> get_user_response" where
  "GetUserResponse_set_user_id v m = m\<lparr>gs_user_id := v\<rparr>"

definition GetUserResponse_set_name :: "bytes \<Rightarrow> get_user_response \<Rightarrow> get_user_response" where
  "GetUserResponse_set_name v m = m\<lparr>gs_name := v\<rparr>"

definition GetUserResponse_set_email :: "bytes \<Rightarrow> get_user_response \<Rightarrow> get_user_response" where
  "GetUserResponse_set_email v m = m\<lparr>gs_email := v\<rparr>"

definition GetUserResponse_field :: "pb_runtime \<Rightarrow> 32 word \<Rightarrow> bytes option \<Rightarrow> get_user_response \<Rightarrow> get_user_response field_result option" where
  "GetUserResponse_field rt tag ptr m =
     (let low = (ucast tag :: 8 word); number = drop_bit 3 tag
      in if number = 1 \<and> low = 8 then int32_field rt GetUserResponse_set_user_id ptr m
         else if number = 2 \<and> low = 18 then string_field rt True GetUserResponse_set_name ptr m
         else if number = 3 \<and> low = 26 then string_field rt True GetUserResponse_set_email ptr m
         else Some Field_unusual)"

definition GetUserResponse_unknown :: "pb_runtime \<Rightarrow> 32 word \<Rightarrow> bytes \<Rightarrow> get_user_response \<Rightarrow> get_user_response \<times> bytes option" where
  "GetUserResponse_unknown rt tag ptr m = (let (u, q) = rt_UnknownFieldParse rt tag (gs_unknown m) ptr in (m\<lparr>gs_unknown := u\<rparr>, q))"

definition GetUserResponse_InternalParse :: "pb_runtime \<Rightarrow> bytes \<Rightarrow> get_user_response \<Rightarrow> (get_user_response \<times> bytes option \<times> 32 word) option" where
  "GetUserResponse_InternalParse rt = parse_fields rt (GetUserResponse_field rt) (GetUserResponse_unknown rt)"

definition GetUserResponse_InternalSerialize :: "pb_runtime \<Rightarrow> get_user_response \<Rightarrow> bytes" where
  "GetUserResponse_InternalSerialize rt m = int32_out rt 1 (gs_user_id m) @ string_out rt 2 (gs_name m) @ string_out rt 3 (gs_email m) @ gs_unknown m"

definition GetUserResponse_fits :: "pb_runtime \<Rightarrow> get_user_response \<Rightarrow> bool" where
  "GetUserResponse_fits rt m \<longleftrightarrow> int32_fits (gs_user_id m) \<and> string_fits rt (gs_name m) \<and> string_fits rt (gs_email m) \<and> gs_unknown m = []"

lemma GetUserResponse_fields:
  "GetUserResponse_field rt 8 ptr m = int32_field rt GetUserResponse_set_user_id ptr m"
  "GetUserResponse_field rt 18 ptr m = string_field rt True GetUserResponse_set_name ptr m"
  "GetUserResponse_field rt 26 ptr m = string_field rt True GetUserResponse_set_email ptr m"
  by (simp_all add: GetUserResponse_field_def)

interpretation gs: wire_roundtrip "GetUserResponse_InternalParse rt" "GetUserResponse_InternalSerialize rt" "\<lambda>m. pb_laws rt \<and> GetUserResponse_fits rt m" GetUserResponse_new
proof
  fix m assume "pb_laws rt \<and> GetUserResponse_fits rt m"
  then show "GetUserResponse_InternalParse rt (GetUserResponse_InternalSerialize rt m) GetUserResponse_new = Some (m, Some [], 0)"
    by (simp add: GetUserResponse_fits_def GetUserResponse_InternalParse_def GetUserResponse_InternalSerialize_def GetUserResponse_new_def parse_done
        read_int32 [where field = "GetUserResponse_field rt", OF _ _ _ _ _ GetUserResponse_fields(1)]
        read_string [where field = "GetUserResponse_field rt", OF _ _ _ _ _ GetUserResponse_fields(2)]
        read_string_last [where field = "GetUserResponse_field rt", OF _ _ _ _ _ GetUserResponse_fields(3)] GetUserResponse_set_user_id_def GetUserResponse_set_name_def GetUserResponse_set_email_def)
qed

section \<open>CreateUserRequest\<close>

record create_user_request =
  cq_name :: bytes
  cq_email :: bytes
  cq_unknown :: bytes

definition CreateUserRequest_new :: create_user_request where
  "CreateUserRequest_new = \<lparr>cq_name = [], cq_email = [], cq_unknown = []\<rparr>"

definition CreateUserRequest_set_name :: "bytes \<Rightarrow> create_user_request \<Rightarrow> create_user_request" where
  "CreateUserRequest_set_name v m = m\<lparr>cq_name := v\<rparr>"

definition CreateUserRequest_set_email :: "bytes \<Rightarrow> create_user_request \<Rightarrow> create_user_request" where
  "CreateUserRequest_set_email v m = m\<lparr>cq_email := v\<rparr>"

definition CreateUserRequest_field :: "pb_runtime \<Rightarrow> 32 word \<Rightarrow> bytes option \<Rightarrow> create_user_request \<Rightarrow> create_user_request field_result option" where
  "CreateUserRequest_field rt tag ptr m =
     (let low = (ucast tag :: 8 word); number = drop_bit 3 tag
      in if number = 1 \<and> low = 10 then string_field rt True CreateUserRequest_set_name ptr m
         else if number = 2 \<and> low = 18 then string_field rt True CreateUserRequest_set_email ptr m
         else Some Field_unusual)"

definition CreateUserRequest_unknown :: "pb_runtime \<Rightarrow> 32 word \<Rightarrow> bytes \<Rightarrow> create_user_request \<Rightarrow> create_user_request \<times> bytes option" where
  "CreateUserRequest_unknown rt tag ptr m = (let (u, q) = rt_UnknownFieldParse rt tag (cq_unknown m) ptr in (m\<lparr>cq_unknown := u\<rparr>, q))"

definition CreateUserRequest_InternalParse :: "pb_runtime \<Rightarrow> bytes \<Rightarrow> create_user_request \<Rightarrow> (create_user_request \<times> bytes option \<times> 32 word) option" where
  "CreateUserRequest_InternalParse rt = parse_fields rt (CreateUserRequest_field rt) (CreateUserRequest_unknown rt)"

definition CreateUserRequest_InternalSerialize :: "pb_runtime \<Rightarrow> create_user_request \<Rightarrow> bytes" where
  "CreateUserRequest_InternalSerialize rt m = string_out rt 1 (cq_name m) @ string_out rt 2 (cq_email m) @ cq_unknown m"

definition CreateUserRequest_fits :: "pb_runtime \<Rightarrow> create_user_request \<Rightarrow> bool" where
  "CreateUserRequest_fits rt m \<longleftrightarrow> string_fits rt (cq_name m) \<and> string_fits rt (cq_email m) \<and> cq_unknown m = []"

lemma CreateUserRequest_fields:
  "CreateUserRequest_field rt 10 ptr m = string_field rt True CreateUserRequest_set_name ptr m"
  "CreateUserRequest_field rt 18 ptr m = string_field rt True CreateUserRequest_set_email ptr m"
  by (simp_all add: CreateUserRequest_field_def)

interpretation cq: wire_roundtrip "CreateUserRequest_InternalParse rt" "CreateUserRequest_InternalSerialize rt" "\<lambda>m. pb_laws rt \<and> CreateUserRequest_fits rt m" CreateUserRequest_new
proof
  fix m assume "pb_laws rt \<and> CreateUserRequest_fits rt m"
  then show "CreateUserRequest_InternalParse rt (CreateUserRequest_InternalSerialize rt m) CreateUserRequest_new = Some (m, Some [], 0)"
    by (simp add: CreateUserRequest_fits_def CreateUserRequest_InternalParse_def CreateUserRequest_InternalSerialize_def CreateUserRequest_new_def parse_done
        read_string [where field = "CreateUserRequest_field rt", OF _ _ _ _ _ CreateUserRequest_fields(1)]
        read_string_last [where field = "CreateUserRequest_field rt", OF _ _ _ _ _ CreateUserRequest_fields(2)] CreateUserRequest_set_name_def CreateUserRequest_set_email_def)
qed

section \<open>CreateUserResponse\<close>

record create_user_response =
  cs_user_id :: int
  cs_unknown :: bytes

definition CreateUserResponse_new :: create_user_response where
  "CreateUserResponse_new = \<lparr>cs_user_id = 0, cs_unknown = []\<rparr>"

definition CreateUserResponse_set_user_id :: "int \<Rightarrow> create_user_response \<Rightarrow> create_user_response" where
  "CreateUserResponse_set_user_id v m = m\<lparr>cs_user_id := v\<rparr>"

definition CreateUserResponse_field :: "pb_runtime \<Rightarrow> 32 word \<Rightarrow> bytes option \<Rightarrow> create_user_response \<Rightarrow> create_user_response field_result option" where
  "CreateUserResponse_field rt tag ptr m =
     (let low = (ucast tag :: 8 word); number = drop_bit 3 tag
      in if number = 1 \<and> low = 8 then int32_field rt CreateUserResponse_set_user_id ptr m
         else Some Field_unusual)"

definition CreateUserResponse_unknown :: "pb_runtime \<Rightarrow> 32 word \<Rightarrow> bytes \<Rightarrow> create_user_response \<Rightarrow> create_user_response \<times> bytes option" where
  "CreateUserResponse_unknown rt tag ptr m = (let (u, q) = rt_UnknownFieldParse rt tag (cs_unknown m) ptr in (m\<lparr>cs_unknown := u\<rparr>, q))"

definition CreateUserResponse_InternalParse :: "pb_runtime \<Rightarrow> bytes \<Rightarrow> create_user_response \<Rightarrow> (create_user_response \<times> bytes option \<times> 32 word) option" where
  "CreateUserResponse_InternalParse rt = parse_fields rt (CreateUserResponse_field rt) (CreateUserResponse_unknown rt)"

definition CreateUserResponse_InternalSerialize :: "pb_runtime \<Rightarrow> create_user_response \<Rightarrow> bytes" where
  "CreateUserResponse_InternalSerialize rt m = int32_out rt 1 (cs_user_id m) @ cs_unknown m"

definition CreateUserResponse_fits :: "pb_runtime \<Rightarrow> create_user_response \<Rightarrow> bool" where
  "CreateUserResponse_fits rt m \<longleftrightarrow> int32_fits (cs_user_id m) \<and> cs_unknown m = []"

lemma CreateUserResponse_fields:
  "CreateUserResponse_field rt 8 ptr m = int32_field rt CreateUserResponse_set_user_id ptr m"
  by (simp_all add: CreateUserResponse_field_def)

interpretation cs: wire_roundtrip "CreateUserResponse_InternalParse rt" "CreateUserResponse_InternalSerialize rt" "\<lambda>m. pb_laws rt \<and> CreateUserResponse_fits rt m" CreateUserResponse_new
proof
  fix m assume "pb_laws rt \<and> CreateUserResponse_fits rt m"
  then show "CreateUserResponse_InternalParse rt (CreateUserResponse_InternalSerialize rt m) CreateUserResponse_new = Some (m, Some [], 0)"
    by (simp add: CreateUserResponse_fits_def CreateUserResponse_InternalParse_def CreateUserResponse_InternalSerialize_def CreateUserResponse_new_def parse_done
        read_int32_last [where field = "CreateUserResponse_field rt", OF _ _ _ _ _ CreateUserResponse_fields] CreateUserResponse_set_user_id_def)
qed

end
