(* ===== verification/ExamplePrograms.thy ===== *)
theory ExamplePrograms
  imports ExampleMessages RpcServiceModel RpcServerLife RpcClientModel "HOL-Library.Monad_Syntax"
begin

text \<open>
  \<open>examples/server_example.cc\<close> and \<open>client_example.cc\<close>: the two programs that show how the library is used, and what
  they say to each other. \<open>ParseFromString\<close> of each message type is a parameter, a field of \<open>example_env\<close>; standard
  output is a byte sequence to which the main thread, the handlers and the callbacks append whole pieces. What the
  other threads do while a main thread sleeps or waits for a key is a parameter of its model. \<open>Log::Init\<close> is left out.
\<close>

section \<open>The runtime behind the messages\<close>

record example_env =
  x_rt :: pb_runtime
  x_bad_call :: bytes
  x_AddRequest :: "bytes \<Rightarrow> add_request option"
  x_AddResponse :: "bytes \<Rightarrow> add_response option"
  x_GetUserRequest :: "bytes \<Rightarrow> get_user_request option"
  x_GetUserResponse :: "bytes \<Rightarrow> get_user_response option"
  x_CreateUserRequest :: "bytes \<Rightarrow> create_user_request option"
  x_CreateUserResponse :: "bytes \<Rightarrow> create_user_response option"

definition example_laws :: "example_env \<Rightarrow> bool" where
  "example_laws x \<longleftrightarrow> pb_laws (x_rt x) \<and>
     parses_with (AddRequest_InternalParse (x_rt x)) AddRequest_new (x_AddRequest x) \<and>
     parses_with (AddResponse_InternalParse (x_rt x)) AddResponse_new (x_AddResponse x) \<and>
     parses_with (GetUserRequest_InternalParse (x_rt x)) GetUserRequest_new (x_GetUserRequest x) \<and>
     parses_with (GetUserResponse_InternalParse (x_rt x)) GetUserResponse_new (x_GetUserResponse x) \<and>
     parses_with (CreateUserRequest_InternalParse (x_rt x)) CreateUserRequest_new (x_CreateUserRequest x) \<and>
     parses_with (CreateUserResponse_InternalParse (x_rt x)) CreateUserResponse_new (x_CreateUserResponse x)"

definition endl :: bytes where
  "endl = [10]"

section \<open>The server's handlers\<close>

text \<open>The state of a handler is standard output. None of them throws.\<close>

definition GetUser_handler :: "get_user_request \<Rightarrow> get_user_response \<Rightarrow> bytes \<Rightarrow> cb_outcome \<times> get_user_response \<times> bytes" where
  "GetUser_handler req resp out =
     (Returned,
      GetUserResponse_set_email (str ''john@example.com'')
        (GetUserResponse_set_name (str ''John'') (GetUserResponse_set_user_id (gq_user_id req) resp)),
      out @ str ''Received GetUser request, user_id='' @ to_string (gq_user_id req) @ endl)"

definition CreateUser_handler ::
  "create_user_request \<Rightarrow> create_user_response \<Rightarrow> bytes \<Rightarrow> cb_outcome \<times> create_user_response \<times> bytes" where
  "CreateUser_handler req resp out =
     (Returned, CreateUserResponse_set_user_id 2 resp,
      out @ str ''Received CreateUser request, name='' @ cq_name req @ str '', email='' @ cq_email req @ endl)"

text \<open>The sum of two \<open>int32_t\<close>. Where it overflows the behaviour is undefined; the model wraps, and no property relies on it.\<close>

definition int32_sum :: "int \<Rightarrow> int \<Rightarrow> int" where
  "int32_sum a b = sint (word_of_int (a + b) :: 32 word)"

definition Add_handler :: "add_request \<Rightarrow> add_response \<Rightarrow> bytes \<Rightarrow> cb_outcome \<times> add_response \<times> bytes" where
  "Add_handler req resp out =
     (Returned, AddResponse_set_result (int32_sum (ar_a req) (ar_b req)) resp,
      out @ str ''Received Add request: a='' @ to_string (ar_a req) @ str '', b='' @ to_string (ar_b req) @ endl)"

definition example_service :: "example_env \<Rightarrow> bytes rpc_service \<Rightarrow> bytes rpc_service" where
  "example_service x svc =
     RpcServer_Register (x_bad_call x) (x_AddRequest x) AddResponse_new (Some \<circ> AddResponse_InternalSerialize (x_rt x))
       (str ''MathService'') (str ''Add'') (Some Add_handler)
     (RpcServer_Register (x_bad_call x) (x_CreateUserRequest x) CreateUserResponse_new
       (Some \<circ> CreateUserResponse_InternalSerialize (x_rt x)) (str ''UserService'') (str ''CreateUser'') (Some CreateUser_handler)
     (RpcServer_Register (x_bad_call x) (x_GetUserRequest x) GetUserResponse_new
       (Some \<circ> GetUserResponse_InternalSerialize (x_rt x)) (str ''UserService'') (str ''GetUser'') (Some GetUser_handler) svc))"

section \<open>The client's calls\<close>

text \<open>The four calls name their callbacks. \<open>example_call_args\<close>: service, method, the request or the failed call, timeout.\<close>

datatype example_call = GetUser_call | CreateUser_call | Add_call | NonExistent_call

definition failed_line :: "int \<Rightarrow> bytes \<Rightarrow> bytes" where
  "failed_line code msg = str ''RPC failed: code='' @ to_string code @ str '', msg='' @ msg @ endl"

definition title_line :: "string \<Rightarrow> bytes" where
  "title_line name = endl @ str ''=== '' @ str name @ str '' Response ==='' @ endl"

definition GetUser_callback :: "int \<times> bytes \<times> get_user_response \<Rightarrow> bytes" where
  "GetUser_callback r = (case r of (code, msg, resp) \<Rightarrow>
     title_line ''GetUser'' @
     (if code \<noteq> 0 then failed_line code msg
      else str ''user_id: '' @ to_string (gs_user_id resp) @ endl @ str ''name:    '' @ gs_name resp @ endl @
        str ''email:   '' @ gs_email resp @ endl))"

definition CreateUser_callback :: "int \<times> bytes \<times> create_user_response \<Rightarrow> bytes" where
  "CreateUser_callback r = (case r of (code, msg, resp) \<Rightarrow>
     title_line ''CreateUser'' @
     (if code \<noteq> 0 then failed_line code msg else str ''new user_id: '' @ to_string (cs_user_id resp) @ endl))"

definition Add_callback :: "string \<Rightarrow> int \<times> bytes \<times> add_response \<Rightarrow> bytes" where
  "Add_callback name r = (case r of (code, msg, resp) \<Rightarrow>
     title_line name @ (if code \<noteq> 0 then failed_line code msg else str ''result: '' @ to_string (ap_result resp) @ endl))"

text \<open>What a callback prints for a response: the lambda of \<open>Call\<close> around it. A message that did not parse is not printed.\<close>

fun example_callback :: "example_env \<Rightarrow> example_call \<Rightarrow> rpc_response \<Rightarrow> bytes" where
  "example_callback x GetUser_call resp =
     GetUser_callback (Call_raw_cb (x_GetUserResponse x) (\<lambda>_. GetUserResponse_new) GetUserResponse_new resp)"
| "example_callback x CreateUser_call resp =
     CreateUser_callback (Call_raw_cb (x_CreateUserResponse x) (\<lambda>_. CreateUserResponse_new) CreateUserResponse_new resp)"
| "example_callback x Add_call resp =
     Add_callback ''Add'' (Call_raw_cb (x_AddResponse x) (\<lambda>_. AddResponse_new) AddResponse_new resp)"
| "example_callback x NonExistent_call resp =
     Add_callback ''NonExistentMethod'' (Call_raw_cb (x_AddResponse x) (\<lambda>_. AddResponse_new) AddResponse_new resp)"

definition failed_now :: "(int \<times> bytes \<times> 'r \<Rightarrow> bytes) \<Rightarrow> 'r typed_call \<Rightarrow> bytes + bytes" where
  "failed_now print c = (case c of Typed_failed_now code msg rsp \<Rightarrow> Inl (print (code, msg, rsp)) | Typed_calls_raw body \<Rightarrow> Inr body)"

fun example_call_args :: "example_env \<Rightarrow> example_call \<Rightarrow> bytes \<times> bytes \<times> (bytes + bytes) \<times> int" where
  "example_call_args x GetUser_call =
     (str ''UserService'', str ''GetUser'',
      failed_now GetUser_callback (RpcClient_Call (Some \<circ> GetUserRequest_InternalSerialize (x_rt x)) GetUserResponse_new
        (GetUserRequest_set_user_id 1 GetUserRequest_new)), 5000)"
| "example_call_args x CreateUser_call =
     (str ''UserService'', str ''CreateUser'',
      failed_now CreateUser_callback (RpcClient_Call (Some \<circ> CreateUserRequest_InternalSerialize (x_rt x)) CreateUserResponse_new
        (CreateUserRequest_set_email (str ''alice@example.com'') (CreateUserRequest_set_name (str ''Alice'') CreateUserRequest_new))),
      5000)"
| "example_call_args x Add_call =
     (str ''MathService'', str ''Add'',
      failed_now (Add_callback ''Add'') (RpcClient_Call (Some \<circ> AddRequest_InternalSerialize (x_rt x)) AddResponse_new
        (AddRequest_set_b 200 (AddRequest_set_a 100 AddRequest_new))), 5000)"
| "example_call_args x NonExistent_call =
     (str ''MathService'', str ''NonExistentMethod'',
      failed_now (Add_callback ''NonExistentMethod'') (RpcClient_Call (Some \<circ> AddRequest_InternalSerialize (x_rt x)) AddResponse_new
        (AddRequest_set_b 2 (AddRequest_set_a 1 AddRequest_new))), 1000)"

section \<open>What the server makes of a call\<close>

definition example_request :: "bytes \<Rightarrow> bytes \<Rightarrow> bytes \<Rightarrow> bytes \<Rightarrow> rpc_request" where
  "example_request i svc meth body =
     RpcRequest_new\<lparr>rq_service_name := svc, rq_method_name := meth, rq_request_id := i, rq_body := body\<rparr>"

definition success :: "bytes \<Rightarrow> bytes \<Rightarrow> rpc_response" where
  "success i body = RpcResponse_new\<lparr>rs_request_id := i, rs_code := code_value OK, rs_msg := str ''success'', rs_body := body\<rparr>"

text \<open>The four keys differ, so that each registration is found.\<close>

lemma example_keys:
  "RpcService_MakeMethodKey (str ''UserService'') (str ''GetUser'') \<noteq> RpcService_MakeMethodKey (str ''UserService'') (str ''CreateUser'')"
  "RpcService_MakeMethodKey (str ''UserService'') (str ''GetUser'') \<noteq> RpcService_MakeMethodKey (str ''MathService'') (str ''Add'')"
  "RpcService_MakeMethodKey (str ''UserService'') (str ''CreateUser'') \<noteq> RpcService_MakeMethodKey (str ''MathService'') (str ''Add'')"
  "RpcService_MakeMethodKey (str ''MathService'') (str ''NonExistentMethod'') \<noteq> RpcService_MakeMethodKey (str ''UserService'') (str ''GetUser'')"
  "RpcService_MakeMethodKey (str ''MathService'') (str ''NonExistentMethod'') \<noteq> RpcService_MakeMethodKey (str ''UserService'') (str ''CreateUser'')"
  "RpcService_MakeMethodKey (str ''MathService'') (str ''NonExistentMethod'') \<noteq> RpcService_MakeMethodKey (str ''MathService'') (str ''Add'')"
  by (simp_all add: RpcService_MakeMethodKey_def str_def of_char_byte_inj)

lemma example_lookup:
  "map_of (methods (example_service x svc)) (RpcService_MakeMethodKey (str ''UserService'') (str ''GetUser'')) =
     Some (RpcServer_Register_wrapper (x_bad_call x) (x_GetUserRequest x) GetUserResponse_new
       (Some \<circ> GetUserResponse_InternalSerialize (x_rt x)) (Some GetUser_handler))"
  "map_of (methods (example_service x svc)) (RpcService_MakeMethodKey (str ''UserService'') (str ''CreateUser'')) =
     Some (RpcServer_Register_wrapper (x_bad_call x) (x_CreateUserRequest x) CreateUserResponse_new
       (Some \<circ> CreateUserResponse_InternalSerialize (x_rt x)) (Some CreateUser_handler))"
  "map_of (methods (example_service x svc)) (RpcService_MakeMethodKey (str ''MathService'') (str ''Add'')) =
     Some (RpcServer_Register_wrapper (x_bad_call x) (x_AddRequest x) AddResponse_new
       (Some \<circ> AddResponse_InternalSerialize (x_rt x)) (Some Add_handler))"
  "map_of (methods (example_service x svc)) (RpcService_MakeMethodKey (str ''MathService'') (str ''NonExistentMethod'')) =
     map_of (methods svc) (RpcService_MakeMethodKey (str ''MathService'') (str ''NonExistentMethod''))"
  using example_keys by (simp_all add: example_service_def RpcServer_Register_def RpcServer_RegisterRaw_def)

lemmas example_dispatch = RpcService_Invoke_def example_lookup call_service_callback_def RpcServer_Register_wrapper_def
  example_request_def success_def Let_def

lemma example_answers:
  assumes "example_laws x"
  shows
    "GetUserRequest_fits (x_rt x) g \<Longrightarrow>
     RpcService_Invoke bad (example_service x svc)
         (example_request i (str ''UserService'') (str ''GetUser'') (GetUserRequest_InternalSerialize (x_rt x) g)) RpcResponse_new out =
       (let (outcome, rsp, out') = GetUser_handler g GetUserResponse_new out
        in (Invoke_returned True, success i (GetUserResponse_InternalSerialize (x_rt x) rsp), out'))" (is "_ \<Longrightarrow> ?g")
    and "CreateUserRequest_fits (x_rt x) c \<Longrightarrow>
     RpcService_Invoke bad (example_service x svc)
         (example_request i (str ''UserService'') (str ''CreateUser'') (CreateUserRequest_InternalSerialize (x_rt x) c)) RpcResponse_new out =
       (let (outcome, rsp, out') = CreateUser_handler c CreateUserResponse_new out
        in (Invoke_returned True, success i (CreateUserResponse_InternalSerialize (x_rt x) rsp), out'))" (is "_ \<Longrightarrow> ?c")
    and "AddRequest_fits (x_rt x) a \<Longrightarrow>
     RpcService_Invoke bad (example_service x svc)
         (example_request i (str ''MathService'') (str ''Add'') (AddRequest_InternalSerialize (x_rt x) a)) RpcResponse_new out =
       (let (outcome, rsp, out') = Add_handler a AddResponse_new out
        in (Invoke_returned True, success i (AddResponse_InternalSerialize (x_rt x) rsp), out'))" (is "_ \<Longrightarrow> ?a")
proof -
  note l = assms [unfolded example_laws_def]
  show ?g if "GetUserRequest_fits (x_rt x) g"
    using gq.parsed [of "x_rt x" g "x_GetUserRequest x"] l that by (simp add: example_dispatch GetUser_handler_def RpcResponse_new_def)
  show ?c if "CreateUserRequest_fits (x_rt x) c"
    using cq.parsed [of "x_rt x" c "x_CreateUserRequest x"] l that by (simp add: example_dispatch CreateUser_handler_def RpcResponse_new_def)
  show ?a if "AddRequest_fits (x_rt x) a"
    using ar.parsed [of "x_rt x" a "x_AddRequest x"] l that by (simp add: example_dispatch Add_handler_def RpcResponse_new_def)
qed

lemma example_not_found:
  "RpcService_Invoke bad (example_service x RpcService_new)
       (example_request i (str ''MathService'') (str ''NonExistentMethod'') body) RpcResponse_new out =
     (Invoke_returned False,
      RpcResponse_new\<lparr>rs_request_id := i, rs_code := code_value SERVER_SERVICE_NOT_FOUND,
        rs_msg := str ''Service not found: MathService.NonExistentMethod''\<rparr>, out)"
proof -
  have m: "str ''Service not found: '' @ RpcService_MakeMethodKey (str ''MathService'') (str ''NonExistentMethod'') =
      str ''Service not found: MathService.NonExistentMethod''" by (simp add: RpcService_MakeMethodKey_def str_def)
  show ?thesis by (simp add: RpcService_Invoke_def example_request_def example_lookup m RpcService_new_def RpcResponse_new_def Let_def)
qed

text \<open>The runtime accepts the strings that the examples use: they are ASCII, which is UTF-8.\<close>

definition ascii_ok :: "pb_runtime \<Rightarrow> bool" where
  "ascii_ok rt \<longleftrightarrow> (\<forall>s. (\<forall>b \<in> set s. unat b < 128) \<longrightarrow> rt_VerifyUTF8 rt s)"

lemma ascii_fits: "ascii_ok rt \<Longrightarrow> length s < 2 ^ 31 \<Longrightarrow> \<forall>b \<in> set s. unat b < 128 \<Longrightarrow> string_fits rt s"
  by (simp add: ascii_ok_def string_fits_def)

lemma example_handlers:
  "int32_fits (a + b) \<Longrightarrow> Add_handler \<lparr>ar_a = a, ar_b = b, ar_unknown = []\<rparr> AddResponse_new out =
     (Returned, \<lparr>ap_result = a + b, ap_unknown = []\<rparr>,
      out @ str ''Received Add request: a='' @ to_string a @ str '', b='' @ to_string b @ endl)"
  "GetUser_handler \<lparr>gq_user_id = u, gq_unknown = []\<rparr> GetUserResponse_new out =
     (Returned, \<lparr>gs_user_id = u, gs_name = str ''John'', gs_email = str ''john@example.com'', gs_unknown = []\<rparr>,
      out @ str ''Received GetUser request, user_id='' @ to_string u @ endl)"
  "CreateUser_handler \<lparr>cq_name = n, cq_email = e, cq_unknown = []\<rparr> CreateUserResponse_new out =
     (Returned, \<lparr>cs_user_id = 2, cs_unknown = []\<rparr>,
      out @ str ''Received CreateUser request, name='' @ n @ str '', email='' @ e @ endl)"
proof -
  have "sint (word_of_int v :: 32 word) = v" if "int32_fits v" for v using that by (simp add: int32_fits_def int_word_sint)
  then have "int32_sum a b = a + b" if "int32_fits (a + b)" using that by (simp only: int32_sum_def)
  then show "int32_fits (a + b) \<Longrightarrow> Add_handler \<lparr>ar_a = a, ar_b = b, ar_unknown = []\<rparr> AddResponse_new out =
     (Returned, \<lparr>ap_result = a + b, ap_unknown = []\<rparr>,
      out @ str ''Received Add request: a='' @ to_string a @ str '', b='' @ to_string b @ endl)"
    by (simp add: Add_handler_def AddResponse_new_def AddResponse_set_result_def)
qed (simp_all add: GetUser_handler_def CreateUser_handler_def GetUserResponse_new_def GetUserResponse_set_user_id_def
    GetUserResponse_set_name_def GetUserResponse_set_email_def CreateUserResponse_new_def CreateUserResponse_set_user_id_def)

lemma example_bodies:
  assumes "example_laws x" and "ascii_ok (x_rt x)" and "int32_fits v"
  shows "x_AddResponse x (AddResponse_InternalSerialize (x_rt x) \<lparr>ap_result = v, ap_unknown = []\<rparr>) = Some \<lparr>ap_result = v, ap_unknown = []\<rparr>"
    and "x_GetUserResponse x (GetUserResponse_InternalSerialize (x_rt x)
        \<lparr>gs_user_id = v, gs_name = str ''John'', gs_email = str ''john@example.com'', gs_unknown = []\<rparr>) =
      Some \<lparr>gs_user_id = v, gs_name = str ''John'', gs_email = str ''john@example.com'', gs_unknown = []\<rparr>"
    and "x_CreateUserResponse x (CreateUserResponse_InternalSerialize (x_rt x) \<lparr>cs_user_id = v, cs_unknown = []\<rparr>) =
      Some \<lparr>cs_user_id = v, cs_unknown = []\<rparr>"
proof -
  note l = assms(1) [unfolded example_laws_def]
  have s: "string_fits (x_rt x) (str ''John'')" "string_fits (x_rt x) (str ''john@example.com'')"
    by (rule ascii_fits; simp add: assms(2) str_def of_char_def)+
  show "x_AddResponse x (AddResponse_InternalSerialize (x_rt x) \<lparr>ap_result = v, ap_unknown = []\<rparr>) = Some \<lparr>ap_result = v, ap_unknown = []\<rparr>"
    by (rule ap.parsed) (use l assms(3) in \<open>simp_all add: AddResponse_fits_def\<close>)
  show "x_GetUserResponse x (GetUserResponse_InternalSerialize (x_rt x)
        \<lparr>gs_user_id = v, gs_name = str ''John'', gs_email = str ''john@example.com'', gs_unknown = []\<rparr>) =
      Some \<lparr>gs_user_id = v, gs_name = str ''John'', gs_email = str ''john@example.com'', gs_unknown = []\<rparr>"
    by (rule gs.parsed) (use l s assms(3) in \<open>simp_all add: GetUserResponse_fits_def\<close>)
  show "x_CreateUserResponse x (CreateUserResponse_InternalSerialize (x_rt x) \<lparr>cs_user_id = v, cs_unknown = []\<rparr>) =
      Some \<lparr>cs_user_id = v, cs_unknown = []\<rparr>"
    by (rule cs.parsed) (use l assms(3) in \<open>simp_all add: CreateUserResponse_fits_def\<close>)
qed

text \<open>
  The example service, called with the bytes that a client's message serialises to: \<open>Add\<close> answers with the sum,
  whenever it is an \<open>int32\<close>, \<open>GetUser\<close> with the id it was asked for and the fixed name and address, and \<open>CreateUser\<close> with
  id 2. Each answer is \<open>OK\<close>, carries the request's id, and its body parses at the client to that message; each request is
  reported on the server's output. A method that is not registered is answered with \<open>SERVER_SERVICE_NOT_FOUND\<close>.
\<close>

theorem example_services_compute:
  fixes i out body' :: bytes
  assumes "example_laws x" and "ascii_ok (x_rt x)" and "int32_fits a" and "int32_fits b" and "int32_fits (a + b)"
    and "int32_fits u" and "string_fits (x_rt x) n" and "string_fits (x_rt x) e"
  defines "rt \<equiv> x_rt x" and "call \<equiv> \<lambda>svc meth body out.
    RpcService_Invoke (x_bad_call x) (example_service x RpcService_new) (example_request i svc meth body) RpcResponse_new out"
  shows "(\<exists>body. call (str ''MathService'') (str ''Add'') (AddRequest_InternalSerialize rt \<lparr>ar_a = a, ar_b = b, ar_unknown = []\<rparr>) out =
        (Invoke_returned True, success i body,
         out @ str ''Received Add request: a='' @ to_string a @ str '', b='' @ to_string b @ endl) \<and>
      x_AddResponse x body = Some \<lparr>ap_result = a + b, ap_unknown = []\<rparr>) \<and>
    (\<exists>body. call (str ''UserService'') (str ''GetUser'') (GetUserRequest_InternalSerialize rt \<lparr>gq_user_id = u, gq_unknown = []\<rparr>) out =
        (Invoke_returned True, success i body, out @ str ''Received GetUser request, user_id='' @ to_string u @ endl) \<and>
      x_GetUserResponse x body =
        Some \<lparr>gs_user_id = u, gs_name = str ''John'', gs_email = str ''john@example.com'', gs_unknown = []\<rparr>) \<and>
    (\<exists>body. call (str ''UserService'') (str ''CreateUser'')
          (CreateUserRequest_InternalSerialize rt \<lparr>cq_name = n, cq_email = e, cq_unknown = []\<rparr>) out =
        (Invoke_returned True, success i body, out @ str ''Received CreateUser request, name='' @ n @ str '', email='' @ e @ endl) \<and>
      x_CreateUserResponse x body = Some \<lparr>cs_user_id = 2, cs_unknown = []\<rparr>) \<and>
    call (str ''MathService'') (str ''NonExistentMethod'') body' out =
      (Invoke_returned False, RpcResponse_new\<lparr>rs_request_id := i, rs_code := code_value SERVER_SERVICE_NOT_FOUND,
         rs_msg := str ''Service not found: MathService.NonExistentMethod''\<rparr>, out)"
proof -
  have f: "AddRequest_fits (x_rt x) \<lparr>ar_a = a, ar_b = b, ar_unknown = []\<rparr>"
    "GetUserRequest_fits (x_rt x) \<lparr>gq_user_id = u, gq_unknown = []\<rparr>"
    "CreateUserRequest_fits (x_rt x) \<lparr>cq_name = n, cq_email = e, cq_unknown = []\<rparr>" "int32_fits 2"
    using assms(3,4,6-8) by (simp_all add: AddRequest_fits_def GetUserRequest_fits_def CreateUserRequest_fits_def int32_fits_def)
  show ?thesis
    using example_answers(3) [OF assms(1) f(1)] example_answers(1) [OF assms(1) f(2)] example_answers(2) [OF assms(1) f(3)]
      example_bodies(1) [OF assms(1,2,5)] example_bodies(2) [OF assms(1,2,6)] example_bodies(3) [OF assms(1,2) f(4)]
    by (auto simp: call_def rt_def example_not_found example_handlers assms(5))
qed

text \<open>A runtime for the examples, with the parsers that the runtime documents.\<close>

definition demo_example_env :: example_env where
  "demo_example_env = \<lparr>x_rt = proto_runtime, x_bad_call = [],
     x_AddRequest = parse_string_of (AddRequest_InternalParse proto_runtime) AddRequest_new,
     x_AddResponse = parse_string_of (AddResponse_InternalParse proto_runtime) AddResponse_new,
     x_GetUserRequest = parse_string_of (GetUserRequest_InternalParse proto_runtime) GetUserRequest_new,
     x_GetUserResponse = parse_string_of (GetUserResponse_InternalParse proto_runtime) GetUserResponse_new,
     x_CreateUserRequest = parse_string_of (CreateUserRequest_InternalParse proto_runtime) CreateUserRequest_new,
     x_CreateUserResponse = parse_string_of (CreateUserResponse_InternalParse proto_runtime) CreateUserResponse_new\<rparr>"

lemma demo_example_laws: "example_laws demo_example_env" "ascii_ok (x_rt demo_example_env)"
  by (simp_all add: example_laws_def demo_example_env_def proto_runtime_laws parses_with_def parse_string_of_def
      ascii_ok_def) (simp add: proto_runtime_def)

theorem example_services_compute_witness:
  "\<exists>body. RpcService_Invoke [] (example_service demo_example_env RpcService_new)
       (example_request [7] (str ''MathService'') (str ''Add'')
         (AddRequest_InternalSerialize proto_runtime \<lparr>ar_a = 100, ar_b = 200, ar_unknown = []\<rparr>)) RpcResponse_new [] =
     (Invoke_returned True, success [7] body, str ''Received Add request: a=100, b=200'' @ endl) \<and>
     x_AddResponse demo_example_env body = Some \<lparr>ap_result = 300, ap_unknown = []\<rparr>"
proof -
  have s: "string_fits (x_rt demo_example_env) []" by (rule ascii_fits [OF demo_example_laws(2)]) simp_all
  have v: "int32_fits 100" "int32_fits 200" "int32_fits (100 + 200)" "int32_fits 1" by (simp_all add: int32_fits_def)
  have e: "x_bad_call demo_example_env = []" "x_rt demo_example_env = proto_runtime" by (simp_all add: demo_example_env_def)
  have t: "str ''Received Add request: a='' @ to_string 100 @ str '', b='' @ to_string 200 @ endl =
      str ''Received Add request: a=100, b=200'' @ endl"
    by (simp add: to_string_def decimal.simps str_def)
  from conjunct1 [OF example_services_compute [OF demo_example_laws v s s, of "[7]" "[]"]] show ?thesis
    unfolding e append_Nil t by simp
qed

section \<open>The server's main\<close>

text \<open>
  The world of \<open>RpcServerLife\<close> with the registry and standard output. \<open>others\<close> is what the other threads do until a key is
  pressed, \<open>wait\<close> and \<open>join\<close> what they do while \<open>Stop\<close> waits; the second \<open>Stop\<close> is the destructor's.
\<close>

record 'k example_server = "'k server_life" +
  registry :: "bytes rpc_service"
  stdout :: bytes

definition announce :: "bytes \<Rightarrow> 'k example_server \<Rightarrow> 'k example_server" where
  "announce s w = w\<lparr>stdout := stdout w @ s\<rparr>"

definition server_example_main where
  "server_example_main x env ser send wait join others fd p L = do {
     w1 \<leftarrow> RpcServer_Start env p
       (announce (str ''Server starting on 127.0.0.1:8080'' @ endl)
         (server_life.extend (RpcServer_new fd 1024 L) (example_server.fields (example_service x RpcService_new) [])));
     w2 \<leftarrow> others (announce (str ''Press Enter to stop server...'' @ endl) w1);
     w3 \<leftarrow> RpcServer_Stop env ser send wait join w2;
     w4 \<leftarrow> RpcServer_Stop env ser send wait join (announce (str ''Server stopped'' @ endl) w3);
     Some (0 :: int, w4)}"

text \<open>With nothing in between, it queues the start and the steps of \<open>Stop\<close> for the loop, and returns with the pool destroyed.\<close>

lemma server_example_stops:
  assumes "thread_id L \<noteq> s_self env" and "pending L = []"
  shows "\<exists>w. server_example_main x env ser send Some Some Some fd p L = Some (0, w) \<and> life_stopped w \<and> life_pool w = None \<and>
    registry w = example_service x RpcService_new \<and>
    pending w = [Fn SC_start, Fn SC_StopAcceptingInLoop, Fn (SC_user goaway_tag), Fn SC_StopInLoop] \<and>
    stdout w = str ''Server starting on 127.0.0.1:8080'' @ endl @ str ''Press Enter to stop server...'' @ endl @
      str ''Server stopped'' @ endl"
proof -
  let ?w0 = "announce (str ''Server starting on 127.0.0.1:8080'' @ endl)
    (server_life.extend (RpcServer_new fd 1024 L) (example_server.fields (example_service x RpcService_new) []))"
  let ?w2 = "announce (str ''Press Enter to stop server...'' @ endl) (EventLoop_QueueInLoop (Fn SC_start) ?w0)"
  let ?a = "EventLoop_QueueInLoop (Fn SC_StopAcceptingInLoop) (shutdown_listener (?w2\<lparr>life_stopped := True\<rparr>))"
  let ?b = "EventLoop_QueueInLoop (Fn (SC_user goaway_tag)) ?a"
  let ?c = "EventLoop_QueueInLoop (Fn SC_StopInLoop) (?b\<lparr>ts_stopped := True\<rparr>)"
  let ?d = "(EventLoop_Quit ?c)\<lparr>life_pool := None\<rparr>"
  note q = announce_def shutdown_listener_def EventLoop_QueueInLoop_def EventLoop_Quit_def queue_defs
  have w0: "\<not> life_stopped ?w0" "\<not> ts_stopped ?w0" "thread_id ?w0 = thread_id L" "pending ?w0 = []"
    "registry ?w0 = example_service x RpcService_new" "stdout ?w0 = str ''Server starting on 127.0.0.1:8080'' @ endl"
    using assms(2) by (simp_all add: announce_def RpcServer_new_def TcpServer_new_def event_loop.defs tcp_server_world.defs
        server_life.defs example_server.defs)
  have 1: "RpcServer_Start env p ?w0 = Some (EventLoop_QueueInLoop (Fn SC_start) ?w0)"
    using w0(1,3) assms(1) by (simp add: RpcServer_Start_def TcpServer_Start_def EventLoop_IsInLoopThread_def)
  have t: "thread_id ?w2 = thread_id L" "\<not> life_stopped ?w2" "\<not> ts_stopped ?b" "thread_id ?a = thread_id L" "thread_id ?b = thread_id L"
    "thread_id (shutdown_listener (?w2\<lparr>life_stopped := True\<rparr>)) = thread_id L"
    using w0(1-3) by (simp_all add: q)
  have s: "RpcServer_Stop env ser send Some Some ?w2 = Some ?d"
    using t assms(1) by (simp add: RpcServer_Stop_def TcpServer_StopAccepting_def TcpServer_Stop_def EventLoop_IsInLoopThread_def Let_def)
  have "RpcServer_Stop env ser send Some Some (announce (str ''Server stopped'' @ endl) ?d) =
      Some (announce (str ''Server stopped'' @ endl) ?d)"
    by (simp add: RpcServer_Stop_def q)
  with 1 s have "server_example_main x env ser send Some Some Some fd p L = Some (0, announce (str ''Server stopped'' @ endl) ?d)"
    by (simp add: server_example_main_def)
  then show ?thesis using w0(4-6) by (simp add: q)
qed

section \<open>The client's main\<close>

record 'k example_client = "('k, example_call) client_world" +
  cout :: bytes

type_synonym 'k example_client_env = "('k, example_call, unit example_client_ext) client_env"
type_synonym 'k example_tcp = "('k, (example_call, unit example_client_ext) client_world_ext) tcp_client_env"

definition say :: "bytes \<Rightarrow> 'k example_client \<Rightarrow> 'k example_client" where
  "say s w = w\<lparr>cout := cout w @ s\<rparr>"

definition printing :: "example_env \<Rightarrow> 'k example_client_env \<Rightarrow> 'k example_client_env" where
  "printing x env = env\<lparr>c_user := (\<lambda>c resp w. Some (say (example_callback x c resp) w))\<rparr>"

definition example_Call ::
  "example_env \<Rightarrow> 'k example_client_env \<Rightarrow> bytes \<Rightarrow> example_call \<Rightarrow> 'k example_client \<Rightarrow> 'k example_client option" where
  "example_Call x env i c w =
     (case example_call_args x c of (svc, meth, body, timeout) \<Rightarrow>
        (case body of
           Inl printed \<Rightarrow> Some (say printed w)
         | Inr b \<Rightarrow> map_option snd (RpcClient_CallRaw (printing x env) i svc meth b (Some c) timeout w)))"

text \<open>The moments at which the main thread lets the others run, and the loop that waits for the connection.\<close>

datatype moment = Polling nat | Polled | After example_call | Idle | Before_enter

fun wait_connected :: "(nat \<Rightarrow> 'k example_client \<Rightarrow> 'k example_client option) \<Rightarrow> nat \<Rightarrow> 'k example_client \<Rightarrow> 'k example_client option" where
  "wait_connected sleep 0 w = Some w"
| "wait_connected sleep (Suc timeout) w =
     (if RpcClient_IsConnected w then Some w else Option.bind (sleep timeout w) (wait_connected sleep timeout))"

definition connected_line :: "string \<Rightarrow> 'k example_client \<Rightarrow> bytes" where
  "connected_line label w = str label @ (if RpcClient_IsConnected w then str ''true'' else str ''false'') @ endl"

text \<open>\<open>ctime\<close>: the two time stamps, each with the new line that \<open>std::ctime\<close> ends in.\<close>

definition before_idle :: "bytes \<times> bytes \<Rightarrow> 'k example_client \<Rightarrow> bytes" where
  "before_idle ctime w = endl @ str ''=== Idle wait test: sleep 10s ==='' @ endl @ str ''sleep start at:        '' @ fst ctime @
     connected_line ''IsConnected (before):  '' w"

definition after_idle :: "bytes \<times> bytes \<Rightarrow> 'k example_client \<Rightarrow> bytes" where
  "after_idle ctime w = str ''sleep end at:          '' @ snd ctime @ connected_line ''IsConnected (after):   '' w"

text \<open>The end of both paths: \<open>Stop\<close>, and the destructor, which calls it again.\<close>

definition stop_client where
  "stop_client x env tcp join said code w = do {
     w1 \<leftarrow> RpcClient_Stop (printing x env) tcp join w;
     w2 \<leftarrow> RpcClient_Stop (printing x env) tcp join (say said w1);
     Some (code :: int, w2)}"

definition client_example_main ::
  "example_env \<Rightarrow> 'k example_client_env \<Rightarrow> 'k example_tcp \<Rightarrow> ('k example_client \<Rightarrow> 'k example_client option) \<Rightarrow>
     (moment \<Rightarrow> 'k example_client \<Rightarrow> 'k example_client option) \<Rightarrow> (example_call \<Rightarrow> bytes) \<Rightarrow> bytes \<times> bytes \<Rightarrow>
     'k example_client \<Rightarrow> (int \<times> 'k example_client) option" where
  "client_example_main x env tcp join others ids ctime w = do {
     w1 \<leftarrow> wait_connected (\<lambda>t. others (Polling t)) 500 (RpcClient_Start (say (str ''Starting client...'' @ endl) w));
     w2 \<leftarrow> others Polled w1;
     (if \<not> RpcClient_IsConnected w2 then
        stop_client x env tcp join [] 1
          (say (str ''Failed to connect to server!'' @ endl @
             str ''Please make sure server is running on 127.0.0.1:8080'' @ endl) w2)
      else do {
        w3 \<leftarrow> example_Call x env (ids GetUser_call) GetUser_call (say (str ''Connected to server!'' @ endl) w2);
        w4 \<leftarrow> others (After GetUser_call) w3;
        w5 \<leftarrow> others Idle (say (before_idle ctime w4) w4);
        w6 \<leftarrow> example_Call x env (ids CreateUser_call) CreateUser_call (say (after_idle ctime w5) w5);
        w7 \<leftarrow> others (After CreateUser_call) w6;
        w8 \<leftarrow> example_Call x env (ids Add_call) Add_call w7;
        w9 \<leftarrow> others (After Add_call) w8;
        w10 \<leftarrow> example_Call x env (ids NonExistent_call) NonExistent_call w9;
        w11 \<leftarrow> others (After NonExistent_call) w10;
        w12 \<leftarrow> others Before_enter (say (endl @ str ''Press Enter to stop client...'' @ endl) w11);
        stop_client x env tcp join (str ''Client stopped'' @ endl) 0 w12})}"

lemma wait_gives_up:
  assumes "\<And>t v. \<not> tc_connected v \<Longrightarrow> \<exists>v'. sleep t v = Some v' \<and> \<not> tc_connected v' \<and> cout v' = cout v" and "\<not> tc_connected w"
  shows "\<exists>v. wait_connected sleep n w = Some v \<and> \<not> tc_connected v \<and> cout v = cout w"
  using assms(2)
proof (induction n arbitrary: w)
  case (Suc n)
  then obtain v where v: "sleep n w = Some v" "\<not> tc_connected v" "cout v = cout w" using assms(1) by blast
  from Suc.IH [OF v(2)] v Suc.prems show ?case by (auto simp: RpcClient_IsConnected_def TcpClient_IsConnected_def)
qed simp

text \<open>A client for concrete runs: not connected, nothing queued, the loop on thread 0 and the main thread on 1.\<close>

definition demo_example_client :: "bool \<Rightarrow> unit example_client" where
  "demo_example_client connected = client_world.extend (tcp_client_world.extend
     (conn_world.extend (demo_conn [] []) (tcp_client_world.fields 7 None True False False connected []))
     (client_world.fields [] False False [])) (example_client.fields [])"

definition demo_example_cenv :: "unit example_client_env" where
  "demo_example_cenv = \<lparr>c_sys = null_kernel, c_junk = 0,
     c_cbs = \<lparr>connectionCallback = None, messageCallback = None, closeCallback = None, layerCallback = (\<lambda>_ _. None)\<rparr>,
     c_self = 1, c_clock = (\<lambda>_. 0), c_hash = (\<lambda>_. 7), c_ser = (\<lambda>r. Some (rq_request_id r)),
     c_parse = (\<lambda>bs. None), c_user = (\<lambda>u r w. Some w)\<rparr>"

lemma demo_example_fields [simp]:
  "conn_ok (demo_example_client c)" "thread_id (demo_example_client c) = 0" "pending_calls (demo_example_client c) = []"
  "cli_stopped (demo_example_client c) = False" "tc_connected (demo_example_client c) = c"
  "pending_locked (demo_example_client c) = False" "has_connection (demo_example_client c) = True"
  "cout (demo_example_client c) = []" "promised (demo_example_client c) = []" "pending (demo_example_client c) = []"
  by (auto simp: demo_example_client_def demo_conn_def conn_world.defs tcp_client_world.defs client_world.defs example_client.defs
      conn_ok_def promised_def wf_buffer_def Buffer_new_def Buffer_PeekStringView_def Buffer_ReadableBytes_def)

text \<open>
  The example client gives up: while no connection is made, whatever else the other threads do, it polls 500 times,
  says so, and ends with exit code 1 after \<open>Stop\<close>, without a call.
\<close>

theorem client_example_gives_up:
  fixes w :: "'k example_client"
  assumes "\<And>m v. \<not> tc_connected v \<Longrightarrow> \<exists>v'. others m v = Some v' \<and> \<not> tc_connected v' \<and> cout v' = cout v"
    and "\<not> tc_connected w"
  shows "\<exists>v. client_example_main x env tcp join others ids ctime w = stop_client x env tcp join [] 1 v \<and>
    cout v = cout w @ str ''Starting client...'' @ endl @ str ''Failed to connect to server!'' @ endl @
      str ''Please make sure server is running on 127.0.0.1:8080'' @ endl"
proof -
  let ?w = "RpcClient_Start (say (str ''Starting client...'' @ endl) w)"
  have w: "\<not> tc_connected ?w" "cout ?w = cout w @ str ''Starting client...'' @ endl"
    using assms(2) by (simp_all add: RpcClient_Start_def say_def EventLoop_QueueInLoop_def queue_defs)
  from wait_gives_up [where sleep = "\<lambda>t. others (Polling t)" and n = 500, OF assms(1) w(1)]
  obtain v where v: "wait_connected (\<lambda>t. others (Polling t)) 500 ?w = Some v" "\<not> tc_connected v" "cout v = cout ?w" by blast
  from assms(1) [OF v(2)] obtain v' where v': "others Polled v = Some v'" "\<not> tc_connected v'" "cout v' = cout v" by blast
  have "client_example_main x env tcp join others ids ctime w = stop_client x env tcp join [] 1
      (say (str ''Failed to connect to server!'' @ endl @ str ''Please make sure server is running on 127.0.0.1:8080'' @ endl) v')"
    using v(1) v'(1,2) by (simp add: client_example_main_def RpcClient_IsConnected_def TcpClient_IsConnected_def)
  then show ?thesis using v(3) v'(3) w(2) by (intro exI) (auto simp: say_def)
qed

theorem client_example_gives_up_witness:
  "\<forall>tcp join. \<exists>v. client_example_main demo_example_env demo_example_cenv tcp join (\<lambda>_. Some) (\<lambda>_. [7]) ([], []) (demo_example_client False) =
      stop_client demo_example_env demo_example_cenv tcp join [] 1 v \<and>
    cout v = str ''Starting client...'' @ endl @ str ''Failed to connect to server!'' @ endl @
      str ''Please make sure server is running on 127.0.0.1:8080'' @ endl"
  using client_example_gives_up [where others = "\<lambda>_. Some" and w = "demo_example_client False"] by simp

section \<open>A run of both programs\<close>

text \<open>
  What the loop does in one sleep of the run: it runs what was queued, which sets the timer and sends the request, and
  hands the response \<open>r\<close> to the client. The server's answer to a call is what its registry makes of the request.
\<close>

definition loop_answers ::
  "example_env \<Rightarrow> 'k example_client_env \<Rightarrow> nat \<Rightarrow> rpc_response \<Rightarrow> 'k example_client \<Rightarrow> 'k example_client option" where
  "loop_answers x env loop r w =
     Option.bind (EventLoop_HandlePendingFunctors (c_clock env) (client_call env) w)
       (RpcClient_handle_response ((printing x env)\<lparr>c_self := loop\<rparr>) r)"

definition request_of :: "example_env \<Rightarrow> (example_call \<Rightarrow> bytes) \<Rightarrow> example_call \<Rightarrow> rpc_request" where
  "request_of x ids c =
     (case example_call_args x c of (svc, meth, body, timeout) \<Rightarrow>
        example_request (ids c) svc meth (case body of Inl _ \<Rightarrow> [] | Inr b \<Rightarrow> b))"

definition answer_of :: "example_env \<Rightarrow> (example_call \<Rightarrow> bytes) \<Rightarrow> example_call \<Rightarrow> rpc_response" where
  "answer_of x ids c =
     fst (snd (RpcService_Invoke (x_bad_call x) (example_service x RpcService_new) (request_of x ids c) RpcResponse_new []))"

definition run_others ::
  "example_env \<Rightarrow> 'k example_client_env \<Rightarrow> nat \<Rightarrow> (example_call \<Rightarrow> bytes) \<Rightarrow>
     (nat \<Rightarrow> 'k example_client \<Rightarrow> 'k example_client option) \<Rightarrow> moment \<Rightarrow> 'k example_client \<Rightarrow> 'k example_client option" where
  "run_others x env loop ids connect m w =
     (case m of Polling t \<Rightarrow> connect t w | After c \<Rightarrow> loop_answers x env loop (answer_of x ids c) w | _ \<Rightarrow> Some w)"

definition ready :: "nat \<Rightarrow> 'k example_client \<Rightarrow> bool" where
  "ready loop w \<longleftrightarrow> open_in_loop loop w \<and> \<not> pending_locked w \<and> has_connection w \<and> \<not> cli_stopped w \<and> tc_connected w \<and>
     pending w = [] \<and> pending_calls w = []"

lemma ready_say [simp]: "ready loop (say s w) = ready loop w" "promised (say s w) = promised w" "cout (say s w) = cout w @ s"
  by (simp_all add: ready_def say_def open_in_loop_def conn_ok_def promised_def)

lemma call_and_answer:
  fixes w :: "'k example_client"
  assumes "ready loop w" and "c_self env \<noteq> loop" and "example_call_args x c = (svc, meth, Inr body, t)"
    and "Codec_encode (c_ser env) (example_request i svc meth body) = Some frame" and "rs_request_id r = i"
  shows "\<exists>w'. Option.bind (example_Call x env i c w) (loop_answers x env loop r) = Some w' \<and> ready loop w' \<and>
    cout w' = cout w @ example_callback x c r \<and> promised w' = promised w @ frame"
proof -
  have w: "conn_ok w" "thread_id w = loop" "\<not> pending_locked w" "has_connection w" "\<not> cli_stopped w" "tc_connected w"
    "pending w = []" "pending_calls w = []" using assms(1) by (simp_all add: ready_def open_in_loop_def)
  let ?p = "printing x env"
  let ?v = "EventLoop_QueueInLoop (Fn_AddTimer (timer_id ?p i) (CB_layer i) t) (w\<lparr>pending_calls := AList.update i (Some c) (pending_calls w)\<rparr>)"
  let ?w1 = "EventLoop_QueueInLoop (Fn (CB_send frame)) (?v\<lparr>refs := refs w + 1\<rparr>)"
  let ?x = "?w1\<lparr>pending := [], timer := TimeWheel_AddTimer (c_clock env) (timer_id ?p i) (CB_layer i) t (timer w)\<rparr>"
  have e: "Codec_encode (c_ser ?p) (RpcRequest_new\<lparr>rq_service_name := svc, rq_method_name := meth, rq_request_id := i,
      rq_body := body\<rparr>) = Some frame" "thread_id w \<noteq> c_self ?p"
    using assms(2,4) w(2) by (auto simp: printing_def example_request_def)
  have c: "example_Call x env i c w = Some ?w1"
    using CallRaw_queues [OF w(1) e(2) w(3-6) e(1), of "Some c" t] assms(3) by (simp add: example_Call_def)
  have x: "conn_ok ?x" "1 < refs ?x" using w(1) by (simp_all add: conn_ok_def EventLoop_QueueInLoop_def queue_defs)
  from send_functor [OF x, of "c_sys env" "c_junk env" "c_cbs env" frame]
  obtain w2 where w2: "conn_call (c_sys env) (c_junk env) (c_cbs env) (CB_send frame) ?x = Some w2" "conn_ok w2"
    "promised w2 = promised ?x @ frame" "send_frame (?x\<lparr>refs := refs ?x - 1\<rparr>) w2" by blast
  have h: "EventLoop_HandlePendingFunctors (c_clock env) (client_call env) ?w1 = Some w2"
    using w2(1) w(7) by (simp add: EventLoop_HandlePendingFunctors_def client_call_def run_functor_def
        EventLoop_QueueInLoop_def queue_defs)
  note field = send_frame_field [OF w2(4)]
  have f: "thread_id w2 = loop" "cout w2 = cout w" "pending_calls w2 = [(i, Some c)]" "pending w2 = []"
    "pending_locked w2 = pending_locked w" "has_connection w2 = has_connection w" "cli_stopped w2 = cli_stopped w"
    "tc_connected w2 = tc_connected w"
    using field [of thread_id] field [of cout] field [of pending_calls] field [of pending] field [of pending_locked]
      field [of has_connection] field [of cli_stopped] field [of tc_connected] w(2,8)
    by (simp_all add: send_erased_def EventLoop_QueueInLoop_def queue_defs)
  have px: "promised ?x = promised w" by (simp add: promised_def EventLoop_QueueInLoop_def queue_defs)
  let ?l = "?p\<lparr>c_self := loop\<rparr>"
  have "remove_timer ?l i (w2\<lparr>pending_calls := []\<rparr>) =
      Some (w2\<lparr>pending_calls := [], timer := TimeWheel_RemoveTimer (timer_id ?l i) (timer w2)\<rparr>)"
    using remove_timer_in_loop [of "w2\<lparr>pending_calls := []\<rparr>" ?l i] f(1) by simp
  then have "RpcClient_handle_response ?l r w2 =
      Some (say (example_callback x c r) (w2\<lparr>pending_calls := [], timer := TimeWheel_RemoveTimer (timer_id ?l i) (timer w2)\<rparr>))"
    using f(3) assms(5) by (simp add: RpcClient_handle_response_def take_pending_def respond_def printing_def)
  then show ?thesis using c h w2(2,3) f w(3-6) px
    by (simp add: loop_answers_def ready_def open_in_loop_def) (simp add: say_def conn_ok_def promised_def)
qed

lemma example_args:
  "example_call_args x GetUser_call = (str ''UserService'', str ''GetUser'',
     Inr (GetUserRequest_InternalSerialize (x_rt x) \<lparr>gq_user_id = 1, gq_unknown = []\<rparr>), 5000)"
  "example_call_args x CreateUser_call = (str ''UserService'', str ''CreateUser'',
     Inr (CreateUserRequest_InternalSerialize (x_rt x)
       \<lparr>cq_name = str ''Alice'', cq_email = str ''alice@example.com'', cq_unknown = []\<rparr>), 5000)"
  "example_call_args x Add_call = (str ''MathService'', str ''Add'',
     Inr (AddRequest_InternalSerialize (x_rt x) \<lparr>ar_a = 100, ar_b = 200, ar_unknown = []\<rparr>), 5000)"
  "example_call_args x NonExistent_call = (str ''MathService'', str ''NonExistentMethod'',
     Inr (AddRequest_InternalSerialize (x_rt x) \<lparr>ar_a = 1, ar_b = 2, ar_unknown = []\<rparr>), 1000)"
  by (simp_all add: failed_now_def RpcClient_Call_def GetUserRequest_new_def GetUserRequest_set_user_id_def
      CreateUserRequest_new_def CreateUserRequest_set_name_def CreateUserRequest_set_email_def AddRequest_new_def
      AddRequest_set_a_def AddRequest_set_b_def)

text \<open>What each callback prints for the server's answer.\<close>

definition example_transcript :: "example_call \<Rightarrow> bytes" where
  "example_transcript c =
     (case c of
        GetUser_call \<Rightarrow> title_line ''GetUser'' @ str ''user_id: 1'' @ endl @ str ''name:    John'' @ endl @
          str ''email:   john@example.com'' @ endl
      | CreateUser_call \<Rightarrow> title_line ''CreateUser'' @ str ''new user_id: 2'' @ endl
      | Add_call \<Rightarrow> title_line ''Add'' @ str ''result: 300'' @ endl
      | NonExistent_call \<Rightarrow> title_line ''NonExistentMethod'' @
          failed_line (code_value SERVER_SERVICE_NOT_FOUND) (str ''Service not found: MathService.NonExistentMethod''))"

lemma success_id [simp]: "rs_request_id (success i b) = i" "rs_code (success i b) = 0" "rs_body (success i b) = b"
  by (simp_all add: success_def RpcResponse_new_def)

lemma answers_printed:
  assumes "example_laws x" and "ascii_ok (x_rt x)"
  shows "example_callback x c (answer_of x ids c) = example_transcript c" and "rs_request_id (answer_of x ids c) = ids c"
proof -
  have s: "string_fits (x_rt x) (str ''Alice'')" "string_fits (x_rt x) (str ''alice@example.com'')"
    by (rule ascii_fits; simp add: assms(2) str_def of_char_def)+
  have v: "int32_fits 1" "int32_fits 2" "int32_fits 100" "int32_fits 200" "int32_fits 300" by (simp_all add: int32_fits_def)
  have f: "AddRequest_fits (x_rt x) \<lparr>ar_a = 100, ar_b = 200, ar_unknown = []\<rparr>"
    "GetUserRequest_fits (x_rt x) \<lparr>gq_user_id = 1, gq_unknown = []\<rparr>"
    "CreateUserRequest_fits (x_rt x) \<lparr>cq_name = str ''Alice'', cq_email = str ''alice@example.com'', cq_unknown = []\<rparr>"
    using s v by (simp_all add: AddRequest_fits_def GetUserRequest_fits_def CreateUserRequest_fits_def)
  note a = example_answers(3) [OF assms(1) f(1)] example_answers(1) [OF assms(1) f(2)] example_answers(2) [OF assms(1) f(3)]
  note b = example_bodies [OF assms]
  have d: "to_string 1 = str ''1''" "to_string 2 = str ''2''" "to_string 300 = str ''300''"
    by (simp_all add: to_string_def decimal.simps str_def)
  have j: "str ''user_id: '' @ str ''1'' @ r = str ''user_id: 1'' @ r" "str ''name:    '' @ str ''John'' @ r = str ''name:    John'' @ r"
    "str ''email:   '' @ str ''john@example.com'' @ r = str ''email:   john@example.com'' @ r"
    "str ''new user_id: '' @ str ''2'' @ r = str ''new user_id: 2'' @ r" "str ''result: '' @ str ''300'' @ r = str ''result: 300'' @ r" for r
    by (simp_all add: str_def)
  have "example_callback x c (answer_of x ids c) = example_transcript c \<and> rs_request_id (answer_of x ids c) = ids c"
    by (cases c) (simp_all add: answer_of_def request_of_def example_args a b v d j example_handlers example_not_found
        example_transcript_def Call_raw_cb_def GetUser_callback_def CreateUser_callback_def Add_callback_def
        del: example_call_args.simps)
  then show "example_callback x c (answer_of x ids c) = example_transcript c" and "rs_request_id (answer_of x ids c) = ids c"
    by simp_all
qed

lemma one_call:
  fixes w :: "'k example_client"
  assumes "example_laws x" and "ascii_ok (x_rt x)" and "ready loop w" and "c_self env \<noteq> loop"
    and "\<And>c. Codec_encode (c_ser env) (request_of x ids c) = Some (frame c)"
  shows "\<exists>w' w''. example_Call x env (ids c) c w = Some w' \<and> run_others x env loop ids connect (After c) w' = Some w'' \<and>
    ready loop w'' \<and> cout w'' = cout w @ example_transcript c \<and> promised w'' = promised w @ frame c"
proof -
  obtain svc meth body t where a: "example_call_args x c = (svc, meth, Inr body, t)"
    using example_args by (cases c) (simp_all del: example_call_args.simps)
  then have "request_of x ids c = example_request (ids c) svc meth body" by (simp add: request_of_def)
  from call_and_answer [OF assms(3,4) a assms(5) [of c, unfolded this] answers_printed(2) [OF assms(1,2), where ids = ids and c = c]]
  show ?thesis by (auto simp: bind_eq_Some_conv run_others_def answers_printed(1) [OF assms(1,2)])
qed



end
