(* ===== verification/BenchmarkModel.thy ===== *)
theory BenchmarkModel
  imports ErrorCodes
begin

text \<open>
  \<open>tests/benchmark/benchmark_client.cc\<close>: the shares of the threads, the schedule of an open-loop worker, the counting
  of responses, and the closed loop, in which each worker keeps a fixed number of calls in flight: its thread
  and the thread of its client's event loop as a step relation. The counters are the worker's contribution to
  the shared ones. A callback is called once per call, as \<open>CallProtocol\<close> shows. Times are arguments, no
  \<open>int64_t\<close> overflows; options, printing and the percentiles, which are computed in floating point, are left out.
\<close>

section \<open>Shares and schedules\<close>

definition QpsPerThread :: "int \<Rightarrow> int \<Rightarrow> int \<Rightarrow> int" where
  "QpsPerThread total_qps threads thread_id =
     (let base = total_qps sdiv threads;
          remainder = total_qps smod threads
      in base + (if thread_id < remainder then 1 else 0))"

definition ConcurrencyPerThread :: "int \<Rightarrow> int \<Rightarrow> int \<Rightarrow> int" where
  "ConcurrencyPerThread total_concurrency threads thread_id =
     (let base = total_concurrency sdiv threads;
          remainder = total_concurrency smod threads
      in base + (if thread_id < remainder then 1 else 0))"

text \<open>\<open>requests_per_thread\<close> and \<open>interval_us\<close> of \<open>RunBenchmarkWorker\<close>.\<close>

definition worker_plan :: "int \<Rightarrow> int \<Rightarrow> int \<times> int" where
  "worker_plan qps_per_thread duration_ms =
     (let requests_per_thread = qps_per_thread * duration_ms sdiv 1000;
          interval_us = (if 0 < requests_per_thread then duration_ms * 1000 sdiv requests_per_thread else 0)
      in (if requests_per_thread \<le> 0 then 1 else requests_per_thread, interval_us))"

text \<open>Nothing of the total is lost to the division, and the last request of a plan is due within the duration.\<close>

lemma shares_add_up:
  assumes "0 \<le> load" and "0 < n"
  shows "(\<Sum>i < n. QpsPerThread load (int n) (int i)) = load"
    and "(\<Sum>i < n. ConcurrencyPerThread load (int n) (int i)) = load"
proof -
  let ?r = "load mod int n"
  have r: "0 \<le> ?r" "?r < int n" using assms(2) by simp_all
  have "(\<Sum>i < n. if int i < ?r then 1 else 0 :: int) = int (card {i. i < n \<and> int i < ?r})"
    by (simp add: sum.If_cases Int_def)
  also have "{i. i < n \<and> int i < ?r} = {..< nat ?r}" using r by auto
  finally have "(\<Sum>i < n. load div int n + (if int i < ?r then 1 else 0)) = load"
    using r by (simp add: sum.distrib)
  then show "(\<Sum>i < n. QpsPerThread load (int n) (int i)) = load"
    "(\<Sum>i < n. ConcurrencyPerThread load (int n) (int i)) = load"
    using assms by (simp_all add: QpsPerThread_def ConcurrencyPerThread_def Let_def sdiv_nonneg smod_nonneg)
qed

lemma plan_fits:
  assumes "0 \<le> qps" and "0 \<le> duration_ms" and "worker_plan qps duration_ms = (requests, interval)"
  shows "1 \<le> requests \<and> 0 \<le> interval \<and> requests * interval \<le> duration_ms * 1000"
proof -
  let ?n = "qps * duration_ms div 1000"
  have n: "0 \<le> ?n" "qps * duration_ms sdiv 1000 = ?n" using assms(1,2) by (simp_all add: sdiv_nonneg pos_imp_zdiv_nonneg_iff)
  show ?thesis
  proof (cases "0 < ?n")
    case True
    then have "requests = ?n" "interval = duration_ms * 1000 div ?n"
      using assms(2,3) n by (auto simp: worker_plan_def Let_def sdiv_nonneg)
    moreover have "x * (d div x) \<le> d" if "0 < x" for x d :: int
      using pos_mod_sign [OF that, of d] by (simp flip: minus_mod_eq_mult_div)
    ultimately show ?thesis using True assms(2) by (simp add: pos_imp_zdiv_nonneg_iff)
  next
    case False
    then show ?thesis using assms(2,3) n by (auto simp: worker_plan_def Let_def)
  qed
qed

section \<open>Counting the responses\<close>

record benchmark_result =
  sent_requests :: int
  total_requests :: int
  success_requests :: int
  failed_requests :: int
  total_latency_us :: int
  timeout_errors :: int
  connection_errors :: int
  network_errors :: int
  server_errors :: int
  other_errors :: int
  pending_requests :: int

definition BenchmarkResult_new :: benchmark_result where
  "BenchmarkResult_new = \<lparr>sent_requests = 0, total_requests = 0, success_requests = 0, failed_requests = 0,
     total_latency_us = 0, timeout_errors = 0, connection_errors = 0, network_errors = 0, server_errors = 0,
     other_errors = 0, pending_requests = 0\<rparr>"

text \<open>The second component is \<open>latency_samples\<close>.\<close>

definition RecordResponse :: "int \<Rightarrow> int \<Rightarrow> benchmark_result \<times> int list \<Rightarrow> benchmark_result \<times> int list" where
  "RecordResponse code latency_us =
     (\<lambda>(result, latency_samples).
       let r1 = result\<lparr>total_requests := total_requests result + 1,
             total_latency_us := total_latency_us result + latency_us\<rparr>
       in (if code = code_value OK then r1\<lparr>success_requests := success_requests r1 + 1\<rparr>
           else
             let r2 = r1\<lparr>failed_requests := failed_requests r1 + 1\<rparr>
             in if code = code_value CLIENT_REQUEST_TIMEOUT then r2\<lparr>timeout_errors := timeout_errors r2 + 1\<rparr>
                else if code = code_value CLIENT_CONNECTION_DISCONNECTED
                  then r2\<lparr>connection_errors := connection_errors r2 + 1\<rparr>
                else if code = code_value CLIENT_NETWORK_ERROR then r2\<lparr>network_errors := network_errors r2 + 1\<rparr>
                else if code_value SERVER_SERVICE_NOT_FOUND \<le> code then r2\<lparr>server_errors := server_errors r2 + 1\<rparr>
                else r2\<lparr>other_errors := other_errors r2 + 1\<rparr>,
           latency_samples @ [latency_us]))"

definition counts_agree :: "benchmark_result \<Rightarrow> int list \<Rightarrow> bool" where
  "counts_agree r samples \<longleftrightarrow> total_requests r = int (length samples) \<and> total_latency_us r = sum_list samples \<and>
     total_requests r = success_requests r + failed_requests r \<and>
     failed_requests r = timeout_errors r + connection_errors r + network_errors r + server_errors r + other_errors r"

lemma counts_agree_new [simp]: "counts_agree BenchmarkResult_new []"
  by (simp add: counts_agree_def BenchmarkResult_new_def)

lemma counts_agree_sending [simp]:
  "counts_agree (r\<lparr>pending_requests := p\<rparr>) samples = counts_agree r samples"
  "counts_agree (r\<lparr>pending_requests := p, sent_requests := n\<rparr>) samples = counts_agree r samples"
  by (simp_all add: counts_agree_def)

lemma RecordResponse_counts:
  assumes "counts_agree r samples" and "RecordResponse code latency (r, samples) = (r', samples')"
  shows "counts_agree r' samples'" and "sent_requests r' = sent_requests r" and "pending_requests r' = pending_requests r"
    and "total_requests r' = total_requests r + 1"
  using assms by (auto simp: RecordResponse_def counts_agree_def Let_def split: if_splits)

section \<open>The closed loop\<close>

text \<open>
  \<open>RunConcurrencyWorker\<close> and the callbacks of its calls. \<open>Filling n\<close>: the worker has \<open>n\<close> calls to make; then it tests its
  predicate with the mutex held, and waits or returns, which destroys \<open>ws\<close>. A callback has been called with a code,
  has released its slot (\<open>after\<close>), or is about to lock the mutex and notify. \<open>flying\<close> are the calls that will be answered,
  \<open>up\<close> is \<open>IsConnected()\<close>: without a connection \<open>CallRaw\<close> calls the callback at once. A use of \<open>ws\<close> after the worker has
  returned is \<open>None\<close>.
\<close>

datatype worker_at = Filling nat | Testing | Blocked | Gone
datatype callback_at = No_callback | Called int | Released int | Draining
datatype thread = Worker_thread | Loop_thread

record closed_loop =
  ws_in_flight :: int
  ws_sending_done :: bool
  ws_result :: benchmark_result
  ws_samples :: "int list"
  up :: bool
  flying :: nat
  worker :: worker_at
  callbacks :: "thread \<Rightarrow> callback_at"

definition SendOneRequest :: "thread \<Rightarrow> closed_loop \<Rightarrow> closed_loop option" where
  "SendOneRequest th s =
     (if worker s = Gone then None
      else
        let r = ws_result s;
            s1 = s\<lparr>ws_in_flight := ws_in_flight s + 1,
              ws_result := r\<lparr>pending_requests := pending_requests r + 1, sent_requests := sent_requests r + 1\<rparr>\<rparr>
        in Some (if up s then s1\<lparr>flying := flying s1 + 1\<rparr>
                 else s1\<lparr>callbacks := (callbacks s1)(th := Called (code_value CLIENT_NOT_RUNNING))\<rparr>))"

text \<open>The callback: it counts the response and releases the slot; it makes the next call, or stops sending; it notifies.\<close>

definition callback_release :: "int \<Rightarrow> thread \<Rightarrow> int \<Rightarrow> closed_loop \<Rightarrow> closed_loop option" where
  "callback_release latency_us th code s =
     (if worker s = Gone then None
      else
        let (r, samples) = RecordResponse code latency_us (ws_result s, ws_samples s);
            after = ws_in_flight s - 1
        in Some (s\<lparr>ws_result := r\<lparr>pending_requests := pending_requests r - 1\<rparr>, ws_samples := samples,
             ws_in_flight := after, callbacks := (callbacks s)(th := Released after)\<rparr>))"

definition callback_decide :: "bool \<Rightarrow> thread \<Rightarrow> int \<Rightarrow> closed_loop \<Rightarrow> closed_loop option" where
  "callback_decide within_time th after s =
     (if worker s = Gone then None
      else if \<not> ws_sending_done s \<and> within_time \<and> up s
        then SendOneRequest th (s\<lparr>callbacks := (callbacks s)(th := No_callback)\<rparr>)
      else Some (s\<lparr>ws_sending_done := True,
        callbacks := (callbacks s)(th := if after = 0 then Draining else No_callback)\<rparr>))"

definition callback_notify :: "thread \<Rightarrow> closed_loop \<Rightarrow> closed_loop option" where
  "callback_notify th s =
     (if worker s = Gone then None
      else Some (s\<lparr>worker := if worker s = Blocked then Testing else worker s,
        callbacks := (callbacks s)(th := No_callback)\<rparr>))"

inductive closed_step :: "closed_loop \<Rightarrow> closed_loop option \<Rightarrow> bool" where
  fill: "worker s = Filling (Suc n) \<Longrightarrow> callbacks s Worker_thread = No_callback \<Longrightarrow>
     closed_step s (map_option (\<lambda>t. t\<lparr>worker := Filling n\<rparr>) (SendOneRequest Worker_thread s))"
| filled: "worker s = Filling 0 \<Longrightarrow> callbacks s Worker_thread = No_callback \<Longrightarrow> closed_step s (Some (s\<lparr>worker := Testing\<rparr>))"
| test: "worker s = Testing \<Longrightarrow>
     closed_step s (Some (s\<lparr>worker := if ws_in_flight s = 0 then Gone else Blocked\<rparr>))"
| spurious: "worker s = Blocked \<Longrightarrow> closed_step s (Some (s\<lparr>worker := Testing\<rparr>))"
| respond: "flying s = Suc n \<Longrightarrow> callbacks s Loop_thread = No_callback \<Longrightarrow>
     closed_step s (Some (s\<lparr>flying := n, callbacks := (callbacks s)(Loop_thread := Called code)\<rparr>))"
| release: "callbacks s th = Called code \<Longrightarrow> closed_step s (callback_release latency_us th code s)"
| decide: "callbacks s th = Released after \<Longrightarrow> closed_step s (callback_decide within_time th after s)"
| notify: "callbacks s th = Draining \<Longrightarrow> closed_step s (callback_notify th s)"
| disconnect: "closed_step s (Some (s\<lparr>up := False\<rparr>))"

definition closed_start :: "nat \<Rightarrow> closed_loop" where
  "closed_start k = \<lparr>ws_in_flight = 0, ws_sending_done = False, ws_result = BenchmarkResult_new, ws_samples = [],
     up = True, flying = 0, worker = Filling k, callbacks = (\<lambda>_. No_callback)\<rparr>"

inductive closed_reachable :: "nat \<Rightarrow> closed_loop \<Rightarrow> bool" for k where
  start: "closed_reachable k (closed_start k)"
| step: "closed_reachable k s \<Longrightarrow> closed_step s (Some t) \<Longrightarrow> closed_reachable k t"

section \<open>The invariant\<close>

fun has_call :: "callback_at \<Rightarrow> int" where
  "has_call (Called code) = 1"
| "has_call c = 0"

fun has_slot :: "callback_at \<Rightarrow> int" where
  "has_slot (Released after) = 1"
| "has_slot c = 0"

fun left_to_send :: "worker_at \<Rightarrow> int" where
  "left_to_send (Filling n) = int n"
| "left_to_send w = 0"

lemma at_nonneg [simp]: "0 \<le> has_call c" "0 \<le> has_slot c" "0 \<le> left_to_send w"
  by (cases c; simp)+ (cases w; simp)

definition loads_agree :: "closed_loop \<Rightarrow> bool" where
  "loads_agree s \<longleftrightarrow>
     ws_in_flight s = int (flying s) + has_call (callbacks s Worker_thread) + has_call (callbacks s Loop_thread) \<and>
     pending_requests (ws_result s) = ws_in_flight s \<and>
     sent_requests (ws_result s) = total_requests (ws_result s) + ws_in_flight s \<and>
     counts_agree (ws_result s) (ws_samples s)"

text \<open>The slots that are taken: in flight, to be filled, or released by a callback that may fill it again.\<close>

definition slots_used :: "closed_loop \<Rightarrow> int" where
  "slots_used s = ws_in_flight s + left_to_send (worker s) + has_slot (callbacks s Worker_thread) + has_slot (callbacks s Loop_thread)"

text \<open>A worker that waits while nothing is in flight is about to be notified.\<close>

definition wake_coming :: "closed_loop \<Rightarrow> bool" where
  "wake_coming s \<longleftrightarrow> (worker s = Blocked \<and> ws_in_flight s = 0 \<longrightarrow>
     callbacks s Worker_thread \<in> {Released 0, Draining} \<or> callbacks s Loop_thread \<in> {Released 0, Draining}) \<and>
   (worker s = Gone \<longrightarrow> ws_in_flight s = 0)"

definition closed_inv :: "nat \<Rightarrow> closed_loop \<Rightarrow> bool" where
  "closed_inv k s \<longleftrightarrow> loads_agree s \<and> slots_used s \<le> int k \<and> wake_coming s"

lemma loads_agree_nonneg: "loads_agree s \<Longrightarrow> 0 \<le> ws_in_flight s"
  by (simp add: loads_agree_def)

lemma SendOneRequest_inv:
  assumes "SendOneRequest th s = Some t" and "loads_agree s" and "callbacks s th = No_callback"
  shows "loads_agree t \<and> slots_used t = slots_used s + 1 \<and> worker t = worker s \<and> ws_in_flight t = ws_in_flight s + 1"
  using assms
  by (cases th; cases "up s") (auto simp: SendOneRequest_def loads_agree_def slots_used_def Let_def split: if_splits)

lemma callback_release_inv:
  assumes "callback_release latency th code s = Some t" and "callbacks s th = Called c" and "closed_inv k s"
  shows "closed_inv k t"
proof -
  obtain r samples where r: "RecordResponse code latency (ws_result s, ws_samples s) = (r, samples)" by fastforce
  have "counts_agree (ws_result s) (ws_samples s)" using assms(3) by (simp add: closed_inv_def loads_agree_def)
  note rec = RecordResponse_counts [OF this r]
  have w: "worker s \<noteq> Gone" and t: "t = s\<lparr>ws_result := r\<lparr>pending_requests := pending_requests r - 1\<rparr>,
      ws_samples := samples, ws_in_flight := ws_in_flight s - 1, callbacks := (callbacks s)(th := Released (ws_in_flight s - 1))\<rparr>"
    using assms(1) r by (auto simp: callback_release_def Let_def split: if_splits)
  show ?thesis using assms(2,3) rec w unfolding t
    by (cases th) (simp_all add: closed_inv_def loads_agree_def slots_used_def wake_coming_def)
qed

lemma callback_decide_inv:
  assumes "callback_decide within th after s = Some t" and "callbacks s th = Released after" and "closed_inv k s"
  shows "closed_inv k t"
proof (cases "\<not> ws_sending_done s \<and> within \<and> up s")
  case True
  let ?s = "s\<lparr>callbacks := (callbacks s)(th := No_callback)\<rparr>"
  have s: "loads_agree ?s" "slots_used ?s + 1 = slots_used s" "callbacks ?s th = No_callback"
    using assms(2,3) by (cases th; simp add: closed_inv_def loads_agree_def slots_used_def)+
  have "SendOneRequest th ?s = Some t" using assms(1) True by (simp add: callback_decide_def split: if_splits)
  from SendOneRequest_inv [OF this s(1,3)] loads_agree_nonneg [OF s(1)] show ?thesis
    using s(2) assms(1,3) by (auto simp: closed_inv_def wake_coming_def callback_decide_def split: if_splits)
next
  case False
  then show ?thesis using assms
    by (cases th) (auto simp: callback_decide_def closed_inv_def loads_agree_def slots_used_def wake_coming_def split: if_splits)
qed

lemma closed_step_inv:
  assumes "closed_step s (Some t)" and "closed_inv k s"
  shows "closed_inv k t"
  using assms(1)
proof cases
  case (fill n)
  then obtain u where u: "SendOneRequest Worker_thread s = Some u" "t = u\<lparr>worker := Filling n\<rparr>"
    by (cases "SendOneRequest Worker_thread s") auto
  from SendOneRequest_inv [OF u(1)] fill assms(2) show ?thesis
    by (auto simp: closed_inv_def u(2) wake_coming_def loads_agree_def slots_used_def)
next
  case (release th code latency)
  then show ?thesis using callback_release_inv assms(2) by metis
next
  case (decide th after within)
  then show ?thesis using callback_decide_inv assms(2) by metis
next
  case (notify th)
  then show ?thesis using assms(2)
    by (cases th) (auto simp: callback_notify_def closed_inv_def loads_agree_def slots_used_def wake_coming_def split: if_splits)
qed (use assms(2) in \<open>auto simp: closed_inv_def loads_agree_def slots_used_def wake_coming_def split: if_splits\<close>)

lemma closed_reachable_inv: "closed_reachable k s \<Longrightarrow> closed_inv k s"
proof (induction rule: closed_reachable.induct)
  case start
  then show ?case 
    by (simp add: closed_start_def closed_inv_def loads_agree_def slots_used_def wake_coming_def)
      (simp add: BenchmarkResult_new_def)
qed (rule closed_step_inv)

section \<open>The worker can always return\<close>

fun worker_steps :: "worker_at \<Rightarrow> nat" where
  "worker_steps (Filling n) = 8 * n + 4"
| "worker_steps Testing = 1"
| "worker_steps w = 0"

fun callback_steps :: "callback_at \<Rightarrow> nat" where
  "callback_steps No_callback = 0"
| "callback_steps (Called code) = 5"
| "callback_steps (Released after) = 4"
| "callback_steps Draining = 2"

definition steps_left :: "closed_loop \<Rightarrow> nat" where
  "steps_left s = worker_steps (worker s) + 6 * flying s + callback_steps (callbacks s Worker_thread) +
     callback_steps (callbacks s Loop_thread)"

text \<open>While the worker has not returned, someone can make a step towards it, when time is over: no further calls.\<close>

lemma callback_moves:
  assumes "callbacks s th \<noteq> No_callback" and "worker s \<noteq> Gone"
  shows "\<exists>t. closed_step s (Some t) \<and> steps_left t < steps_left s"
proof (cases "callbacks s th")
  case (Called code)
  from closed_step.release [OF this, of 0] assms(2) Called show ?thesis
    by (cases th) (auto simp: callback_release_def steps_left_def Let_def split: prod.splits)
next
  case (Released after)
  from closed_step.decide [OF this, of False] assms(2) Released show ?thesis
    by (cases th) (auto simp: callback_decide_def steps_left_def)
next
  case Draining
  have "worker_steps (if w = Blocked then Testing else w) \<le> worker_steps w + 1" for w by simp
  then have "worker_steps (if worker s = Blocked then Testing else worker s) \<le> worker_steps (worker s) + 1" .
  with closed_step.notify [OF Draining] assms(2) Draining show ?thesis
    by (cases th) (fastforce simp: callback_notify_def steps_left_def)+
qed (use assms(1) in simp)

lemma worker_progress:
  assumes "closed_inv k s" and "worker s \<noteq> Gone"
  shows "\<exists>t. closed_step s (Some t) \<and> steps_left t < steps_left s"
proof (cases "\<exists>th. callbacks s th \<noteq> No_callback")
  case True
  then show ?thesis using callback_moves assms(2) by blast
next
  case False
  then have cb: "callbacks s th = No_callback" for th by simp
  show ?thesis
  proof (cases "worker s")
    case (Filling n)
    show ?thesis
    proof (cases n)
      case 0
      from closed_step.filled [OF Filling [unfolded 0] cb] show ?thesis by (auto simp: steps_left_def Filling 0)
    next
      case (Suc m)
      from closed_step.fill [OF Filling [unfolded Suc] cb] show ?thesis
        by (auto simp: SendOneRequest_def steps_left_def Filling Suc cb Let_def)
    qed
  next
    case Testing
    from closed_step.test [OF this] show ?thesis by (auto simp: steps_left_def Testing)
  next
    case Blocked
    then have "flying s \<noteq> 0" using assms(1) by (auto simp: closed_inv_def wake_coming_def loads_agree_def cb)
    then obtain n where n: "flying s = Suc n" by (cases "flying s") auto
    let ?t = "s\<lparr>flying := n, callbacks := (callbacks s)(Loop_thread := Called 0)\<rparr>"
    have "closed_step s (Some ?t)" by (rule closed_step.respond [OF n cb])
    moreover have "steps_left ?t < steps_left s" by (simp add: steps_left_def n cb)
    ultimately show ?thesis by blast
  qed (use assms(2) in simp)
qed

lemma worker_returns:
  assumes "closed_reachable k s"
  shows "\<exists>t. (\<lambda>s t. closed_step s (Some t))\<^sup>*\<^sup>* s t \<and> closed_reachable k t \<and> worker t = Gone"
  using assms
proof (induction "steps_left s" arbitrary: s rule: less_induct)
  case less
  show ?case
  proof (cases "worker s = Gone")
    case False
    obtain t where t: "closed_step s (Some t)" "steps_left t < steps_left s"
      using worker_progress [OF closed_reachable_inv [OF less.prems] False] by blast
    from less.hyps [OF t(2) closed_reachable.step [OF less.prems t(1)]] t(1)
    show ?thesis by (blast intro: converse_rtranclp_into_rtranclp)
  qed (use less.prems in blast)
qed

lemma callback_release_ok:
  "worker s \<noteq> Gone \<Longrightarrow> \<exists>r samples. callback_release latency_us th code s = Some (s\<lparr>ws_result := r, ws_samples := samples,
     ws_in_flight := ws_in_flight s - 1, callbacks := (callbacks s)(th := Released (ws_in_flight s - 1))\<rparr>)"
  by (auto simp: callback_release_def Let_def split: prod.splits)

text \<open>One call after the other is answered while the worker is about to test its predicate.\<close>

definition all_sent :: "nat \<Rightarrow> closed_loop \<Rightarrow> bool" where
  "all_sent n s \<longleftrightarrow> worker s = Testing \<and> flying s = n \<and> ws_in_flight s = int n \<and> callbacks s = (\<lambda>_. No_callback)"

lemma filled_reachable:
  "n + m = k \<Longrightarrow> \<exists>s. closed_reachable k s \<and> worker s = Filling n \<and> flying s = m \<and> ws_in_flight s = int m \<and>
     callbacks s = (\<lambda>_. No_callback) \<and> up s"
proof (induction m arbitrary: n)
  case 0
  then show ?case using closed_reachable.start [of k] by (intro exI [of _ "closed_start k"]) (simp add: closed_start_def)
next
  case (Suc m)
  then obtain s where s: "closed_reachable k s" "worker s = Filling (Suc n)" "flying s = m" "ws_in_flight s = int m"
    "callbacks s = (\<lambda>_. No_callback)" "up s" by force
  obtain u where u: "SendOneRequest Worker_thread s = Some u" "flying u = Suc m" "ws_in_flight u = int (Suc m)"
    "callbacks u = (\<lambda>_. No_callback)" "up u" using s by (simp add: SendOneRequest_def Let_def)
  then have "closed_reachable k (u\<lparr>worker := Filling n\<rparr>)" using closed_reachable.step [OF s(1)] closed_step.fill [OF s(2)] s(5) by simp
  then show ?case using u by (intro exI [of _ "u\<lparr>worker := Filling n\<rparr>"]) simp
qed

lemma last_callback_dangles:
  "closed_reachable k s \<Longrightarrow> all_sent (Suc n) s \<Longrightarrow> \<exists>t. closed_reachable k t \<and> closed_step t None"
proof (induction n arbitrary: s)
  case 0
  then have f: "flying s = Suc 0" "callbacks s Loop_thread = No_callback" by (simp_all add: all_sent_def)
  let ?t = "s\<lparr>flying := 0, callbacks := (callbacks s)(Loop_thread := Called 0)\<rparr>"
  have t: "closed_reachable k ?t" by (rule closed_reachable.step [OF 0(1) closed_step.respond [OF f]])
  obtain u where u: "callback_release 0 Loop_thread 0 ?t = Some u" "worker u = Testing" "ws_in_flight u = 0"
    "callbacks u Loop_thread = Released 0" using 0(2) callback_release_ok [of ?t 0 Loop_thread 0] by (auto simp: all_sent_def)
  have "closed_reachable k u" using closed_reachable.step [OF t] closed_step.release [of ?t Loop_thread 0 0] u(1) by simp
  from closed_reachable.step [OF this closed_step.test [OF u(2)]] u(3)
  have r: "closed_reachable k (u\<lparr>worker := Gone\<rparr>)" by simp
  have "callbacks (u\<lparr>worker := Gone\<rparr>) Loop_thread = Released 0" using u(4) by simp
  from closed_step.decide [OF this, of False] r show ?case by (auto simp: callback_decide_def)
next
  case (Suc n)
  then have f: "flying s = Suc (Suc n)" "callbacks s Loop_thread = No_callback" by (simp_all add: all_sent_def)
  let ?t = "s\<lparr>flying := Suc n, callbacks := (callbacks s)(Loop_thread := Called 0)\<rparr>"
  have t: "closed_reachable k ?t" by (rule closed_reachable.step [OF Suc.prems(1) closed_step.respond [OF f]])
  obtain u where u: "callback_release 0 Loop_thread 0 ?t = Some u" "worker u = Testing" "ws_in_flight u = int (Suc n)"
    "callbacks u = (\<lambda>_. No_callback)(Loop_thread := Released (int (Suc n)))" "flying u = Suc n"
    using Suc.prems(2) callback_release_ok [of ?t 0 Loop_thread 0] by (auto simp: all_sent_def)
  have ru: "closed_reachable k u" using closed_reachable.step [OF t] closed_step.release [of ?t Loop_thread 0 0] u(1) by simp
  let ?v = "u\<lparr>ws_sending_done := True, callbacks := (\<lambda>_. No_callback)\<rparr>"
  have "callback_decide False Loop_thread (int (Suc n)) u = Some ?v" using u by (simp add: callback_decide_def fun_upd_idem)
  then have "closed_reachable k ?v"
    using closed_reachable.step [OF ru] closed_step.decide [of u Loop_thread "int (Suc n)" False] u(4) by simp
  moreover have "all_sent (Suc n) ?v" using u by (simp add: all_sent_def)
  ultimately show ?case by (rule Suc.IH)
qed

section \<open>The open loop\<close>

text \<open>
  \<open>RunBenchmarkWorker\<close> on all threads, the callbacks, and the end of \<open>main\<close> in this mode: it joins the workers and waits until
  \<open>pending_requests\<close> is zero. The callback that takes it to zero notifies without the mutex, so that it can do so between
  the test of the predicate (\<open>Tested\<close>) and the wait (\<open>Asleep\<close>). Spurious wake-ups are left out. The counters are those of all workers.
\<close>

datatype main_at = Joining | Ready | Tested | Asleep | Finished

record open_loop =
  to_send :: nat
  on_the_way :: nat
  notifying :: nat
  ol_result :: benchmark_result
  ol_samples :: "int list"
  main_at :: main_at

inductive open_step :: "open_loop \<Rightarrow> open_loop \<Rightarrow> bool" where
  send: "to_send s = Suc n \<Longrightarrow> open_step s (s\<lparr>to_send := n, on_the_way := on_the_way s + 1,
     ol_result := (ol_result s)\<lparr>pending_requests := pending_requests (ol_result s) + 1,
       sent_requests := sent_requests (ol_result s) + 1\<rparr>\<rparr>)"
| respond: "on_the_way s = Suc n \<Longrightarrow> RecordResponse code latency_us (ol_result s, ol_samples s) = (r, samples) \<Longrightarrow>
     open_step s (s\<lparr>on_the_way := n, ol_samples := samples, ol_result := r\<lparr>pending_requests := pending_requests r - 1\<rparr>,
       notifying := notifying s + (if pending_requests r = 1 then 1 else 0)\<rparr>)"
| notify: "notifying s = Suc n \<Longrightarrow>
     open_step s (s\<lparr>notifying := n, main_at := if main_at s = Asleep then Ready else main_at s\<rparr>)"
| join: "main_at s = Joining \<Longrightarrow> to_send s = 0 \<Longrightarrow> open_step s (s\<lparr>main_at := Ready\<rparr>)"
| test: "main_at s = Ready \<Longrightarrow>
     open_step s (s\<lparr>main_at := if pending_requests (ol_result s) = 0 then Finished else Tested\<rparr>)"
| wait: "main_at s = Tested \<Longrightarrow> open_step s (s\<lparr>main_at := Asleep\<rparr>)"

definition open_start :: "nat \<Rightarrow> open_loop" where
  "open_start n = \<lparr>to_send = n, on_the_way = 0, notifying = 0, ol_result = BenchmarkResult_new, ol_samples = [], main_at = Joining\<rparr>"

inductive open_reachable :: "nat \<Rightarrow> open_loop \<Rightarrow> bool" for n where
  start: "open_reachable n (open_start n)"
| step: "open_reachable n s \<Longrightarrow> open_step s t \<Longrightarrow> open_reachable n t"

definition open_inv :: "nat \<Rightarrow> open_loop \<Rightarrow> bool" where
  "open_inv n s \<longleftrightarrow> pending_requests (ol_result s) = int (on_the_way s) \<and>
     sent_requests (ol_result s) = total_requests (ol_result s) + int (on_the_way s) \<and>
     sent_requests (ol_result s) + int (to_send s) = int n \<and> counts_agree (ol_result s) (ol_samples s) \<and>
     (main_at s \<noteq> Joining \<longrightarrow> to_send s = 0) \<and> (main_at s = Finished \<longrightarrow> on_the_way s = 0)"

lemma open_step_inv: "open_step s t \<Longrightarrow> open_inv n s \<Longrightarrow> open_inv n t"
proof (induction rule: open_step.induct)
  case (respond s m code latency r samples)
  then have "counts_agree (ol_result s) (ol_samples s)" by (simp add: open_inv_def)
  from RecordResponse_counts [OF this respond.hyps(2)] respond show ?case by (auto simp: open_inv_def)
qed (auto simp: open_inv_def)

text \<open>When \<open>main\<close> goes on, all requests of the plan have been sent, answered and counted.\<close>

lemma open_loop_accounts:
  assumes "open_reachable n s"
  shows "open_inv n s" and "main_at s = Finished \<Longrightarrow> total_requests (ol_result s) = int n \<and> length (ol_samples s) = n"
proof -
  show i: "open_inv n s" using assms
  proof (induction rule: open_reachable.induct)
    case start
    then show ?case by (simp add: open_start_def open_inv_def) (simp add: BenchmarkResult_new_def)
  qed (rule open_step_inv)
  then show "total_requests (ol_result s) = int n \<and> length (ol_samples s) = n" if "main_at s = Finished"
    using that by (auto simp: open_inv_def counts_agree_def)
qed

text \<open>But the wake-up can be lost: every answer is there, and \<open>main\<close> sleeps for ever.\<close>

lemma open_loop_can_hang: "\<exists>s. open_reachable 1 s \<and> main_at s = Asleep \<and> pending_requests (ol_result s) = 0 \<and> \<not> (\<exists>t. open_step s t)"
proof -
  let ?s = "\<lambda>w f k r xs m. \<lparr>to_send = w, on_the_way = f, notifying = k, ol_result = r, ol_samples = xs, main_at = m\<rparr>"
  let ?r1 = "BenchmarkResult_new\<lparr>pending_requests := 1, sent_requests := 1\<rparr>"
  obtain r xs where r: "RecordResponse 0 5 (?r1, []) = (r, xs)" by fastforce
  have p: "pending_requests r = 1" using RecordResponse_counts(3) [OF _ r] by simp
  let ?r2 = "r\<lparr>pending_requests := 0\<rparr>"
  have "open_reachable 1 (?s 1 0 0 BenchmarkResult_new [] Joining)" using open_reachable.start [of 1] by (simp add: open_start_def)
  from open_reachable.step [OF this open_step.send] have "open_reachable 1 (?s 0 1 0 ?r1 [] Joining)" by (simp add: BenchmarkResult_new_def)
  from open_reachable.step [OF this open_step.join] have "open_reachable 1 (?s 0 1 0 ?r1 [] Ready)" by simp
  from open_reachable.step [OF this open_step.test] have "open_reachable 1 (?s 0 1 0 ?r1 [] Tested)" by simp
  from open_reachable.step [OF this open_step.respond [of _ 0 0 5 r xs]] r p have "open_reachable 1 (?s 0 0 1 ?r2 xs Tested)" by simp
  from open_reachable.step [OF this open_step.notify] have "open_reachable 1 (?s 0 0 0 ?r2 xs Tested)" by simp
  from open_reachable.step [OF this open_step.wait] have "open_reachable 1 (?s 0 0 0 ?r2 xs Asleep)" by simp
  moreover have "\<not> (\<exists>t. open_step (?s 0 0 0 ?r2 xs Asleep) t)" by (auto elim: open_step.cases)
  ultimately show ?thesis by (intro exI [of _ "?s 0 0 0 ?r2 xs Asleep"]) simp
qed

section \<open>Properties\<close>



text \<open>
  The last callback releases its slot and goes on to use \<open>ws\<close>: a worker that tests its predicate in between
  finds nothing in flight and returns, whatever its share. Then the callback uses an object on a stack that is gone.
\<close>

lemma closed_loop_dangles:
  assumes "0 < k"
  shows "\<exists>s. closed_reachable k s \<and> closed_step s None"
proof -
  obtain n where k: "k = Suc n" using assms by (cases k) auto
  obtain s where s: "closed_reachable k s" "worker s = Filling 0" "flying s = k" "ws_in_flight s = int k"
    "callbacks s = (\<lambda>_. No_callback)" using filled_reachable [of 0 k k] by auto
  from closed_reachable.step [OF s(1)] closed_step.filled [OF s(2)] s(5) have "closed_reachable k (s\<lparr>worker := Testing\<rparr>)" by simp
  moreover have "all_sent (Suc n) (s\<lparr>worker := Testing\<rparr>)" using s k by (simp add: all_sent_def)
  ultimately show ?thesis by (rule last_callback_dangles)
qed

end
