(* ===== verification/Spec2Isabelle.thy ===== *)
theory Spec2Isabelle
  imports BufferModel CodecModel ErrorCodes RpcMessages RpcServiceModel ThreadPoolModel
    TimeWheelModel EpollModel EventLoopModel TcpConnModel TcpClientModel TcpServerModel
    RpcServerModel RpcServerLife RpcClientModel LogModel RpcWire CallProtocol ServerShutdown SystemProperties LostConnection ClientTimeouts
    ExampleMessages ExamplePrograms BenchmarkModel
begin

text \<open>
  LightRPC, a C++ RPC library over TCP (\<open>src/code\<close>): one event-loop thread per client and server,
  frames of a length and a protobuf message, a pool of workers that run the service methods, a timing
  wheel for timeouts, and a logger with a writer thread.

  The program and the theories. Each theory follows one directory or class, in the order of its code:
  the state as a record, one definition per member function under the name \<open>Class_function\<close>, the callbacks
  and queued lambdas as a datatype of names with one function that runs them. An operation that would
  touch a destroyed object, block for ever on its own lock, or fail an assertion has the value \<open>None\<close>.
  \<^item> \<open>LrPrelude\<close>: bytes and strings, \<open>htonl\<close>, byte vectors that are overwritten and resized, the collections
    \<open>model_defs\<close>, \<open>inv_intros\<close>, \<open>view_simps\<close>.
  \<^item> \<open>BufferModel\<close> (\<open>base/buffer\<close>): the vector with its two indices. \<open>wf_buffer\<close> is its invariant; the abstract
    view is the readable bytes, a FIFO (locale \<open>byte_stream\<close>, interpreted on the buffer and on a connection's input).
  \<^item> \<open>ErrorCodes\<close> (\<open>base/error_code\<close>): codes, values, names, and the order by value.
  \<^item> \<open>CodecModel\<close> (\<open>protocol/codec.h\<close>): \<open>encode\<close>, \<open>decode\<close>, and \<open>split_frames\<close>, the frames of a stream; locale
    \<open>frame_reader\<close> is any loop that decodes while it can, interpreted on the receive loops of server and client.
  \<^item> \<open>RpcMessages\<close>, \<open>RpcWire\<close> (\<open>protocol/rpc.pb.*\<close>): the two envelope messages as values; their generated parsers and
    serialisers (locale \<open>wire_message\<close>, interpreted on both), over the runtime's functions as a parameter.
  \<^item> \<open>RpcServiceModel\<close> (\<open>rpc/rpc_service\<close>, the template in \<open>rpc_server.h\<close>): registry, dispatch, typed handlers.
  \<^item> \<open>ThreadPoolModel\<close> (\<open>base/pool\<close>): the critical sections as functions; \<open>pool_step\<close> interleaves any number of
    submitters, waiters, workers and the destructor, with condition variables as sets of blocked threads.
  \<^item> \<open>TimeWheelModel\<close> (\<open>base/timer\<close>): slots as lists of nodes with stable names and the map of iterators.
  \<^item> \<open>EpollModel\<close>, \<open>EventLoopModel\<close> (\<open>network/epoll\<close>, \<open>network/core\<close>): the kernel as a record of functions, the
    \<open>epoll_data\<close> union as 64 bits, channels in a heap, dispatch, functors, \<open>Loop\<close>; \<open>loop_step\<close> interleaves \<open>Loop\<close>,
    \<open>QueueInLoop\<close> and \<open>Quit\<close>.
  \<^item> \<open>TcpConnModel\<close>, \<open>TcpClientModel\<close>, \<open>TcpServerModel\<close> (\<open>network/tcp\<close>): one connection with its buffers and its
    number of owners; the client's connecting socket; the listener and the table of connections with
    their owners. Records are extended from one layer to the next, as the classes contain each other.
  \<^item> \<open>RpcServerModel\<close>, \<open>RpcServerLife\<close>, \<open>RpcClientModel\<close> (\<open>rpc\<close>): receive loop, admission and tasks of the
    server on one connection; its construction, \<open>Start\<close> and \<open>Stop\<close> over all of them; calls, responses,
    timeouts, disconnection and \<open>Stop\<close> of the client.
  \<^item> \<open>CallProtocol\<close>: \<open>call_step\<close> interleaves the threads that use the client's table of calls; the client's
    operations, in any sequence and on any threads, are shown to be runs of it.
  \<^item> \<open>ServerShutdown\<close>: the statements of \<open>RpcServer::Stop\<close> interleaved with the loop, which admits requests and runs what
    was queued, and with the workers, over the functions of \<open>ThreadPoolModel\<close> and \<open>EventLoopModel\<close>.
  \<^item> \<open>SystemViews\<close>, \<open>RpcSystem\<close>, \<open>SystemProperties\<close>: one client, one server with its pool, and the connection between them,
    as a step relation whose steps run the operations of the theories above, reads and writes as events of the channel;
    bytes arrive in any pieces. \<open>LostConnection\<close>: the event that ends it.
  \<^item> \<open>ClientTimeouts\<close>: a call, the timer it sets and \<open>Tick\<close> in the client's loop, together, under any clock.
  \<^item> \<open>LogModel\<close> (\<open>base/log\<close>): formatting, files, rotation, and the queue between producers and the writer.
  \<^item> \<open>ExampleMessages\<close>, \<open>ExamplePrograms\<close> (\<open>examples\<close>): the business messages with their generated parsers and serialisers
    (locale \<open>wire_roundtrip\<close>), the handlers of the example server, the calls of the example client, and both \<open>main\<close>s.
  \<^item> \<open>BenchmarkModel\<close> (\<open>tests/benchmark\<close>): the load generator: shares, counting, and its closed and open loop as step relations.

  What the lemmas show. Data: a stream of frames splits back into the messages however it is cut, the
  buffer stays within its vector, and the buffer, the codec and the messages round-trip. Calls: every call is answered exactly once in every
  interleaving; on the wire, responses answer the call with their id; \<open>Stop\<close> answers what is left. In the whole system each request
  is invoked at most once, each answer is one to its own call, the work between calls always ends, and then nobody
  waits whose answer could be sent; a typed callback gets \<open>OK\<close> only with a result computed for its own request; a call
  that nobody answers times out, and a lost connection answers everybody.
  Programs: a run of the two examples prints what it should and leaves no call pending; the counts of the load generator add up.
  Server: every request is queued, or answered busy or shutting down, and a task replies once;
  \<open>Stop\<close> can always finish, and it is shown how far it is graceful and which replies it can lose. Threads:
  the pool runs every accepted task once, \<open>WaitForTasks\<close> is a barrier, no wake-up is lost, and the destructor
  drains; functors run in order. Sockets: the wire and the output buffer hold the bytes sent in order;
  the tables of connections and the \<open>connected\<close> flag agree with the open connections. Timers: the wheel refines
  a set of countdowns, and its iterators never dangle. Some lemmas show where the code does less than it
  means to: timers that fire early or are lost, an eventfd that is never read, channels and
  descriptors used after they are gone, a logger that cannot be joined, callbacks run under a lock,
  a load generator whose last callback uses a stack that is gone.
  The theorem below runs one call through all the layers.

  Bounds and fuel. Machine integers are kept at their width where the code can wrap (frame lengths,
  request ids, pointers in the \<open>epoll_data\<close> union, the timer id cut to \<open>int\<close>); counters that the code keeps in
  \<open>size_t\<close> are \<open>nat\<close>. No fuel is used: the receive loops and the scan of a
  slot are partial functions, which are shown to return (the scan unless a callback keeps refilling its
  slot), and \<open>Loop\<close> is one that need not end.

  Not modelled: the protobuf runtime, which is not part of the repository: its functions are a parameter of
  \<open>RpcWire\<close> with the laws of the format as a hypothesis, discharged there on a concrete runtime, and the
  theories above the codec take serialiser and parser as parameters; arenas and cached sizes; addresses, \<open>setsockopt\<close> and \<open>bind\<close>, whose results the
  code does not use; the effect of logging inside the RPC code; the start of threads other than as steps;
  weak memory orders. \<open>TcpConnModel\<close> and the theories above it look at one connection object at a time;
  \<open>TcpServerModel\<close> has all of them, without their buffers. The system of \<open>RpcSystem\<close> has one client and one connection, which
  stays open until it is lost at the client; its ids are distinct, each functor, task and read is one step, and the callbacks of its users are recorded, not run. Of the generated accessors of the envelope messages only
  those that the library calls are definitions. Of the benchmark the options and the floating-point
  statistics are left out; tests are not modelled.
\<close>

section \<open>A call from end to end\<close>

text \<open>The call as the client makes it: the request, the bytes its loop promises, and the entry that waits.\<close>

lemma call_leaves_client:
  fixes c :: "('l, 'u, 'y) client_world_scheme" and i svc meth body :: bytes and t :: int
  assumes "open_in_loop (c_self cenv) c" and "j \<noteq> c_self cenv" and "\<not> pending_locked c" and "has_connection c"
    and "\<not> cli_stopped c" and "tc_connected c"
    and "Codec_encode (c_ser cenv) (RpcRequest_new\<lparr>rq_service_name := svc, rq_method_name := meth, rq_request_id := i,
      rq_body := body\<rparr>) = Some frame"
  shows "\<exists>c1 c2. RpcClient_CallRaw (recording (cenv\<lparr>c_self := j\<rparr>)) i svc meth body (Some u) t c = Some (Call_returned, c1) \<and>
    run_functors (c_clock cenv) (client_call cenv) (drop (length (pending c)) (pending c1)) c1 = Some c2 \<and>
    open_in_loop (c_self cenv) c2 \<and> promised c2 = promised c @ frame \<and> in_view c2 = in_view c \<and>
    answered c2 = answered c \<and> map_of (pending_calls c2) i = Some (Some u)"
proof -
  let ?env = "cenv\<lparr>c_self := j\<rparr>"
  have c: "conn_ok c" "thread_id c = c_self cenv" "thread_id c \<noteq> c_self ?env"
    using assms(1,2) by (simp_all add: open_in_loop_def)
  have e: "Codec_encode (c_ser ?env) (RpcRequest_new\<lparr>rq_service_name := svc, rq_method_name := meth, rq_request_id := i,
      rq_body := body\<rparr>) = Some frame" using assms(7) by simp
  from CallRaw_other_thread [where cbs = "c_cbs cenv" and u = u and t = t, OF c(1,3) assms(3-6) e] c(2)
  show ?thesis by (auto simp: client_call_def update_conv')
qed

text \<open>The request at the server: one task, run by one worker, whose answer the loop then promises.\<close>

lemma call_served:
  fixes s :: "('k, 'a, 'z) server_world_scheme"
  assumes "open_in_loop (e_self env) s" and "in_view s = []" and "\<not> srv_stopped s" and "\<not> isClosed (srv_pool s)"
    and "tasks (srv_pool s) = []" and "0 < maxQueueSize (srv_pool s)"
    and "split_frames (e_parse env) (concat cs) = ([m], [], False)"
    and "RpcService_Invoke (e_bad_call env) (service s) m RpcResponse_new (app s) = (Invoke_returned ok, response, a)"
    and "Codec_encode (e_ser env) response = Some frame" and "k \<noteq> e_self env"
  shows "\<exists>s1 p s2 s3. deliver in_feed (RpcServer_onMessage env) cs s = Some s1 \<and>
    ThreadPool_worker_lock (srv_pool s1) = Worker_runs m p \<and> tasks p = [] \<and>
    RpcServer_task (env\<lparr>e_self := k\<rparr>) m (s1\<lparr>srv_pool := p\<rparr>) = Some s2 \<and> pending s2 = pending s1 @ [Fn (CB_send frame)] \<and>
    conn_call (e_sys env) (e_junk env) (e_cbs env) (CB_send frame) s2 = Some s3 \<and> promised s3 = promised s @ frame"
proof -
  have "split_frames (e_parse env) (in_view s) = ([], in_view s, False)"
    using assms(2) by (simp add: split_frames_short)
  from server_reader.deliver_frames [OF assms(1) this, of cs "[m]" "[]"] assms(2,7)
  obtain s1 where s1: "deliver in_feed (RpcServer_onMessage env) cs s = Some s1" "open_in_loop (e_self env) s1"
    "server_rest s1 = server_effect (e_ser env) m (server_rest s)" by auto
  have f1: "srv_pool s1 = (srv_pool s)\<lparr>tasks := [m]\<rparr>" "promised s1 = promised s"
    "service s1 = service s" "app s1 = app s"
    using s1(3) assms(3-6) by (simp_all add: server_rest_def server_effect_def admit_def ThreadPool_TryAddTask_def)
  let ?p = "(srv_pool s)\<lparr>activeTasks := activeTasks (srv_pool s) + 1\<rparr>"
  let ?t = "s1\<lparr>srv_pool := ?p\<rparr>"
  have run: "ThreadPool_worker_lock (srv_pool s1) = Worker_runs m ?p" "tasks ?p = []"
    using assms(5) f1(1) by (simp_all add: ThreadPool_worker_lock_def)
  have ok1: "conn_ok ?t" "thread_id s1 = e_self env" using s1(2) by (simp_all add: open_in_loop_def conn_ok_def)
  let ?s2 = "EventLoop_QueueInLoop (Fn (CB_send frame)) (?t\<lparr>app := a, refs := refs ?t + 1\<rparr>)"
  have tid: "thread_id ?t \<noteq> e_self (env\<lparr>e_self := k\<rparr>)" using ok1(2) assms(10) by simp
  have inv: "RpcService_Invoke (e_bad_call (env\<lparr>e_self := k\<rparr>)) (service ?t) m RpcResponse_new (app ?t) = (Invoke_returned ok, response, a)"
    using assms(8) f1(3,4) by simp
  have task: "RpcServer_task (env\<lparr>e_self := k\<rparr>) m ?t = Some ?s2"
    using task_reply [OF ok1(1) tid inv, of frame] assms(9) by simp
  have "conn_ok (?t\<lparr>app := a\<rparr>)" using ok1(1) by (simp add: conn_ok_def)
  from queued_send_runs [OF this, of "e_sys env" "e_junk env" "e_cbs env" frame]
  obtain s3 where s3: "conn_call (e_sys env) (e_junk env) (e_cbs env) (CB_send frame) ?s2 = Some s3"
    "promised s3 = promised s1 @ frame" by (auto simp: promised_def)
  have "pending ?s2 = pending s1 @ [Fn (CB_send frame)]" by (simp add: EventLoop_QueueInLoop_def queue_defs)
  with s1(1) f1(2) run task s3 show ?thesis
    by (intro exI [of _ s1] exI [of _ ?p] exI [of _ ?s2] exI [of _ s3]) simp
qed

text \<open>The answer at the client: the waiting callback gets it, once.\<close>

lemma call_answered:
  fixes c :: "('l, 'u, 'y) client_world_scheme"
  assumes "open_in_loop (c_self cenv) c" and "in_view c = []" and "map_of (pending_calls c) (rs_request_id response) = Some (Some u)"
    and "split_frames (c_parse cenv) (concat ds) = ([response], [], False)"
  shows "\<exists>c1. deliver in_feed (RpcClient_onMessage (recording cenv)) ds c = Some c1 \<and>
    answered c1 = answered c @ [(u, response)] \<and> map_of (pending_calls c1) (rs_request_id response) = None"
proof -
  have "split_frames (c_parse cenv) (in_view c) = ([], in_view c, False)"
    using assms(2) by (simp add: split_frames_short)
  from client_reader.deliver_frames [OF assms(1) this, of ds "[response]" "[]"] assms(2,4)
  obtain c1 where "deliver in_feed (RpcClient_onMessage (recording cenv)) ds c = Some c1"
    "client_rest c1 = client_effect response (client_rest c)" by auto
  then show ?thesis using assms(3) by (auto simp: client_rest_def client_effect_def delete_conv')
qed

text \<open>
  C3. One call through all layers. A call from any thread but the loop's returns, and the functors it has queued
  make the client's loop promise the request's frame. That frame, cut into reads in any way, reaches a running server
  with an empty queue, whose loop queues exactly that request; a worker takes it and runs the task, which
  invokes the registered method and queues the response's frame for the loop; when the loop runs it, the
  frame is what the connection promises next. Cut into reads in any way, that frame makes the client call
  the callback of the call, once, with the response the handler produced, and the call is no longer
  pending.
\<close>

theorem call_end_to_end:
  fixes s :: "('k, 'a, 'z) server_world_scheme" and c :: "('l, 'u, 'y) client_world_scheme" and i svc meth body :: bytes
    and t :: int
  assumes "open_in_loop (c_self cenv) c" and "j \<noteq> c_self cenv" and "\<not> pending_locked c" and "has_connection c"
    and "\<not> cli_stopped c" and "tc_connected c" and "in_view c = []"
    and "open_in_loop (e_self env) s" and "in_view s = []" and "\<not> srv_stopped s" and "\<not> isClosed (srv_pool s)"
    and "tasks (srv_pool s) = []" and "0 < maxQueueSize (srv_pool s)" and "k \<noteq> e_self env"
  defines "m \<equiv> RpcRequest_new\<lparr>rq_service_name := svc, rq_method_name := meth, rq_request_id := i, rq_body := body\<rparr>"
  assumes "c_ser cenv m = Some request_data" and "e_parse env request_data = Some m" and "length request_data \<le> 67108864"
    and "RpcService_Invoke (e_bad_call env) (service s) m RpcResponse_new (app s) = (Invoke_returned ok, response, a)"
    and "e_ser env response = Some response_data" and "c_parse cenv response_data = Some response"
    and "length response_data \<le> 67108864"
    and "Codec_encode (c_ser cenv) m = Some (concat cs)" and "Codec_encode (e_ser env) response = Some (concat ds)"
  shows "\<exists>c1 c2 s1 p s2 s3 c3.
    RpcClient_CallRaw (recording (cenv\<lparr>c_self := j\<rparr>)) i svc meth body (Some u) t c = Some (Call_returned, c1) \<and>
    run_functors (c_clock cenv) (client_call cenv) (drop (length (pending c)) (pending c1)) c1 = Some c2 \<and>
    promised c2 = promised c @ concat cs \<and>
    deliver in_feed (RpcServer_onMessage env) cs s = Some s1 \<and>
    ThreadPool_worker_lock (srv_pool s1) = Worker_runs m p \<and> tasks p = [] \<and>
    RpcServer_task (env\<lparr>e_self := k\<rparr>) m (s1\<lparr>srv_pool := p\<rparr>) = Some s2 \<and> pending s2 = pending s1 @ [Fn (CB_send (concat ds))] \<and>
    conn_call (e_sys env) (e_junk env) (e_cbs env) (CB_send (concat ds)) s2 = Some s3 \<and>
    promised s3 = promised s @ concat ds \<and>
    deliver in_feed (RpcClient_onMessage (recording cenv)) ds c2 = Some c3 \<and>
    answered c3 = answered c @ [(u, response)] \<and> map_of (pending_calls c3) i = None"
proof -
  note data = assms(16-24)
  have fq: "split_frames (e_parse env) (concat cs) = ([m], [], False)"
    using split_one_frame [where ser = "c_ser cenv" and parse = "e_parse env", OF data(1-3)] data(8) by simp
  have fr: "split_frames (c_parse cenv) (concat ds) = ([response], [], False)"
    using split_one_frame [where ser = "e_ser env" and parse = "c_parse cenv", OF data(5-7)] data(9) by simp
  have rid: "rs_request_id response = i" using Invoke_request_id [OF data(4)] by (simp add: m_def)
  obtain c1 c2 where c: "RpcClient_CallRaw (recording (cenv\<lparr>c_self := j\<rparr>)) i svc meth body (Some u) t c = Some (Call_returned, c1)"
    "run_functors (c_clock cenv) (client_call cenv) (drop (length (pending c)) (pending c1)) c1 = Some c2"
    "open_in_loop (c_self cenv) c2" "promised c2 = promised c @ concat cs" "in_view c2 = in_view c"
    "answered c2 = answered c" "map_of (pending_calls c2) i = Some (Some u)"
    using call_leaves_client [where svc = svc and meth = meth and i = i and body = body and u = u and t = t, OF assms(1-6)] data(8) unfolding m_def by blast
  obtain c3 where c3: "deliver in_feed (RpcClient_onMessage (recording cenv)) ds c2 = Some c3"
    "answered c3 = answered c2 @ [(u, response)]" "map_of (pending_calls c3) i = None"
    using call_answered [OF c(3) _ _ fr, of u] c(5,7) assms(7) unfolding rid by auto
  from call_served [OF assms(8-13) fq data(4,9) assms(14)] c c3 show ?thesis by (simp only:) blast
qed

theorem call_end_to_end_witness:
  "\<exists>s c c1 c2 s1 p s2 s3 c3.
    RpcClient_CallRaw (recording (demo_cenv 3 (\<lambda>_. 0)
      \<lparr>c_parse := \<lambda>bs. Some (RpcResponse_new\<lparr>rs_body := [9], rs_request_id := bs\<rparr>)\<rparr>)) [7] [] [] [] (Some 42) 50 c = Some (Call_returned, c1) \<and>
    run_functors (\<lambda>_. 0) (client_call (demo_cenv 0 (\<lambda>_. 0))) (drop (length (pending c)) (pending c1)) c1 = Some c2 \<and>
    deliver in_feed (RpcServer_onMessage (demo_env 0)) [[0, 0, 0], [1, 7]] s = Some s1 \<and>
    ThreadPool_worker_lock (srv_pool s1) = Worker_runs (RpcRequest_new\<lparr>rq_request_id := [7]\<rparr>) p \<and>
    RpcServer_task (demo_env 0\<lparr>e_self := 1\<rparr>) (RpcRequest_new\<lparr>rq_request_id := [7]\<rparr>) (s1\<lparr>srv_pool := p\<rparr>) = Some s2 \<and>
    conn_call null_kernel 0 (e_cbs (demo_env 0)) (CB_send [0, 0, 0, 1, 7]) s2 = Some s3 \<and>
    deliver in_feed (RpcClient_onMessage (recording (demo_cenv 0 (\<lambda>_. 0)
      \<lparr>c_parse := \<lambda>bs. Some (RpcResponse_new\<lparr>rs_body := [9], rs_request_id := bs\<rparr>)\<rparr>))) [[0, 0, 0, 1], [7]] c2 = Some c3 \<and>
    answered c3 = [(42, RpcResponse_new\<lparr>rs_body := [9], rs_request_id := [7]\<rparr>)] \<and>
    map_of (pending_calls c3) [7] = None"
proof -
  let ?h = "\<lambda>m r w. (Returned, r\<lparr>rs_body := [9]\<rparr>, w)"
  let ?reg = "\<lparr>methods = [(str ''.'', Some ?h)]\<rparr>"
  let ?s = "demo_server 1 False\<lparr>service := ?reg\<rparr>" and ?c = "demo_client True ([] :: (bytes \<times> nat option) list)"
  let ?m = "RpcRequest_new\<lparr>rq_service_name := [], rq_method_name := [], rq_request_id := [7], rq_body := []\<rparr>"
    and ?r = "RpcResponse_new\<lparr>rs_body := [9], rs_request_id := [7]\<rparr>"
  let ?cenv = "demo_cenv 0 (\<lambda>_. 0)\<lparr>c_parse := \<lambda>bs. Some (RpcResponse_new\<lparr>rs_body := [9], rs_request_id := bs\<rparr>)\<rparr>"
  have so: "open_in_loop (e_self (demo_env 0)) ?s" "in_view ?s = []" "\<not> srv_stopped ?s" "\<not> isClosed (srv_pool ?s)"
    "tasks (srv_pool ?s) = []" "0 < maxQueueSize (srv_pool ?s)" "1 \<noteq> e_self (demo_env 0)"
    by (auto simp: demo_server_def demo_conn_def conn_world.defs server_world.defs conn_ok_def in_view_def
        open_in_loop_def alive_def Buffer_ReadableBytes_def wf_buffer_def Buffer_new_def Buffer_PeekStringView_def
        ThreadPool_new_def)
  have co: "open_in_loop (c_self ?cenv) ?c" "3 \<noteq> c_self ?cenv" "\<not> pending_locked ?c" "has_connection ?c"
    "\<not> cli_stopped ?c" "tc_connected ?c" "in_view ?c = []" by (simp_all add: open_in_loop_def demo_cenv_def)
  have m: "?m = RpcRequest_new\<lparr>rq_request_id := [7]\<rparr>" by (simp add: RpcRequest_new_def)
  have i: "RpcService_Invoke (e_bad_call (demo_env 0)) (service ?s) ?m RpcResponse_new (app ?s) = (Invoke_returned True, ?r, ())"
    by (simp add: RpcService_Invoke_def RpcService_MakeMethodKey_def call_service_callback_def Let_def)
  have e: "Codec_encode (c_ser ?cenv) ?m = Some (concat [[0, 0, 0], [1, 7]])"
    "Codec_encode (e_ser (demo_env 0)) ?r = Some (concat [[0, 0, 0, 1], [7]])"
    by (simp_all add: Codec_encode_def demo_cenv_def UINT32_MAX_def store_u32_def htonl_def load_u32_def Let_def)
  have d: "c_ser ?cenv ?m = Some [7]" "e_parse (demo_env 0) [7] = Some ?m" "c_parse ?cenv [7] = Some ?r"
    "e_ser (demo_env 0) ?r = Some [7]" "length [7 :: byte] \<le> 67108864" by (simp_all add: demo_cenv_def m)
  note call_end_to_end [where cs = "[[0, 0, 0], [1, 7]]" and ds = "[[0, 0, 0, 1], [7]]" and u = 42 and t = 50,
      OF co so d(1,2,5) i d(4,3,5) e]
  moreover have "e_sys (demo_env 0) = null_kernel" "e_junk (demo_env 0) = 0" "c_clock ?cenv = (\<lambda>_. 0)"
    "client_call ?cenv = client_call (demo_cenv 0 (\<lambda>_. 0))" "?cenv\<lparr>c_self := 3\<rparr> = demo_cenv 3 (\<lambda>_. 0)
      \<lparr>c_parse := \<lambda>bs. Some (RpcResponse_new\<lparr>rs_body := [9], rs_request_id := bs\<rparr>)\<rparr>"
    "answered ?c = []" "concat [[0, 0, 0, 1], [7 :: byte]] = [0, 0, 0, 1, 7]"
    by (simp_all add: demo_env_def demo_cenv_def client_call_def)
  ultimately show ?thesis unfolding m by (simp only: append_Nil) blast
qed

end
